(* ===== verification/Tgen_Prelude.thy ===== *)
theory Tgen_Prelude
  imports Main "HOL-Library.Word" "HOL-Library.Multiset" "HOL-Library.Signed_Division"
begin

section \<open>Shared vocabulary of the tgen development\<close>

text \<open>
  What the component theories share: the faults a C program can run into (as values), the
  sequencing of fallible operations, the part of the C library that the sources of tgen use
  on strings and numbers (\<^verbatim>\<open>ctype.h\<close>, \<^verbatim>\<open>string.h\<close>, \<^verbatim>\<open>atoi\<close>, \<^verbatim>\<open>strtol\<close>, \<^verbatim>\<open>sscanf\<close>,
  \<^verbatim>\<open>sprintf\<close>), and generic lemmas on lists and arithmetic.

  A C string is a \<^typ>\<open>string\<close> without its terminating NUL; a pointer into a string is the
  suffix it points to, and the null pointer is \<^term>\<open>None\<close>.
\<close>

named_theorems c_string \<open>rewrite rules on the C string functions\<close>

subsection \<open>Faults and results\<close>

text \<open>
  \<open>Exit n\<close> is a call of \<^verbatim>\<open>exit(n)\<close>, \<open>Uninit\<close> a read of indeterminate memory, \<open>UseAfterFree\<close> an
  access to memory that was freed, \<open>Hang\<close> a loop that provably never ends; the other constructors are
  the points where the C program has no defined behaviour (or is killed by a signal).
\<close>

datatype c_fault =
    NullDeref
  | OutOfBounds
  | BufferOverflow
  | DivByZero
  | AssertFail
  | StackOverflow
  | BadFormat
  | Uninit
  | UseAfterFree
  | IntOverflow
  | Hang
  | Exit int

type_synonym 'a result = "c_fault + 'a"

definition rbind :: "'a result \<Rightarrow> ('a \<Rightarrow> 'b result) \<Rightarrow> 'b result" where
  "rbind m f = (case m of Inl e \<Rightarrow> Inl e | Inr x \<Rightarrow> f x)"

lemma rbind_simps [simp]:
  "rbind (Inl e) f = Inl e"
  "rbind (Inr x) f = f x"
  by (simp_all add: rbind_def)

lemma rbind_eq_Inr [simp]: "rbind m f = Inr y \<longleftrightarrow> (\<exists>x. m = Inr x \<and> f x = Inr y)"
  by (cases m) auto

lemma rbind_cong [fundef_cong]:
  "m = m' \<Longrightarrow> (\<And>x. m' = Inr x \<Longrightarrow> f x = g x) \<Longrightarrow> rbind m f = rbind m' g"
  by (cases m') auto

lemma rbind_assoc: "rbind (rbind m f) g = rbind m (\<lambda>x. rbind (f x) g)"
  by (cases m) simp_all

definition guard :: "bool \<Rightarrow> c_fault \<Rightarrow> 'a result \<Rightarrow> 'a result" where
  "guard ok e m = (if ok then m else Inl e)"

lemma guard_simps [simp]:
  "guard True e m = m"
  "guard False e m = Inl e"
  by (simp_all add: guard_def)

lemma guard_eq_Inr [simp]: "guard ok e m = Inr x \<longleftrightarrow> ok \<and> m = Inr x"
  by (simp add: guard_def)

text \<open>The same for loops that may not return, whose value is then \<^term>\<open>None\<close>.\<close>

definition rseq :: "'a result option \<Rightarrow> ('a \<Rightarrow> 'b result option) \<Rightarrow> 'b result option" where
  "rseq m f = (case m of None \<Rightarrow> None | Some (Inl e) \<Rightarrow> Some (Inl e) | Some (Inr x) \<Rightarrow> f x)"

lemma rseq_simps [simp]: "rseq None f = None" "rseq (Some (Inl e)) f = Some (Inl e)" "rseq (Some (Inr x)) f = f x"
  by (simp_all add: rseq_def)

lemma rseq_bind: "rseq m f = Option.bind m (case_sum (\<lambda>e. Some (Inl e)) f)"
  by (simp add: rseq_def split: option.split sum.split)

lemma rseq_mono [partial_function_mono]:
  "mono_option B \<Longrightarrow> (\<And>y. mono_option (\<lambda>f. C y f)) \<Longrightarrow> mono_option (\<lambda>f. rseq (B f) (\<lambda>y. C y f))"
  unfolding rseq_bind by (rule bind_mono) (auto simp: monotone_def split: sum.split intro: option.leq_refl)

text \<open>A fallible operation on every element of a list, in order.\<close>

fun rmap :: "('a \<Rightarrow> 'b result) \<Rightarrow> 'a list \<Rightarrow> 'b list result" where
  "rmap f [] = Inr []"
| "rmap f (x # xs) = rbind (f x) (\<lambda>y. rbind (rmap f xs) (\<lambda>ys. Inr (y # ys)))"

lemma rmap_Inr: "(\<And>x. x \<in> set xs \<Longrightarrow> f (g x) = Inr x) \<Longrightarrow> rmap f (map g xs) = Inr xs"
  by (induction xs) auto

text \<open>A total operation applied \<open>n\<close> times, stopping at the first failure.\<close>

primrec iter_opt :: "nat \<Rightarrow> ('a \<Rightarrow> 'a option) \<Rightarrow> 'a \<Rightarrow> 'a option" where
  "iter_opt 0 f x = Some x"
| "iter_opt (Suc n) f x = (case f x of None \<Rightarrow> None | Some y \<Rightarrow> iter_opt n f y)"

subsection \<open>Machine integers\<close>

text \<open>Conversion to a signed 32-bit \<^verbatim>\<open>int\<close> keeps the low 32 bits in two's complement.\<close>

definition to_int32 :: "int \<Rightarrow> int" where
  "to_int32 x = (x + 2 ^ 31) mod 2 ^ 32 - 2 ^ 31"

lemma to_int32_id: "- (2 ^ 31) \<le> x \<Longrightarrow> x < 2 ^ 31 \<Longrightarrow> to_int32 x = x"
  by (simp add: to_int32_def)

lemma to_int32_range: "- (2 ^ 31) \<le> to_int32 x \<and> to_int32 x < 2 ^ 31"
  by (auto simp: to_int32_def)

text \<open>The remainder of C on a non-negative dividend.\<close>

lemma smod_nonneg [simp]: "0 \<le> a \<Longrightarrow> 0 < b \<Longrightarrow> a smod b = a mod (b::int)"
  by (cases "a = 0") (simp_all add: signed_modulo_int_def signed_divide_int_def minus_mult_div_eq_mod mult.commute)

text \<open>Saturation of \<^verbatim>\<open>strtol\<close> to a 64-bit \<^verbatim>\<open>long\<close>.\<close>

definition sat_long :: "int \<Rightarrow> int" where
  "sat_long x = max (- (2 ^ 63)) (min (2 ^ 63 - 1) x)"

lemma sat_long_id: "- (2 ^ 63) \<le> x \<Longrightarrow> x < 2 ^ 63 \<Longrightarrow> sat_long x = x"
  by (simp add: sat_long_def)

subsection \<open>Characters\<close>

definition isspace :: "char \<Rightarrow> bool" where
  "isspace c \<longleftrightarrow> c = CHR '' '' \<or> c = CHR 0x09 \<or> c = CHR 0x0A \<or> c = CHR 0x0B \<or> c = CHR 0x0C \<or> c = CHR 0x0D"

definition isdigit :: "char \<Rightarrow> bool" where
  "isdigit c \<longleftrightarrow> 48 \<le> (of_char c :: nat) \<and> (of_char c :: nat) \<le> 57"

definition digit_val :: "char \<Rightarrow> nat" where
  "digit_val c = of_char c - 48"

definition digit_char :: "nat \<Rightarrow> char" where
  "digit_char n = char_of (48 + n)"

definition tolower :: "char \<Rightarrow> char" where
  "tolower c = (if 65 \<le> (of_char c :: nat) \<and> (of_char c :: nat) \<le> 90 then char_of (of_char c + 32 :: nat) else c)"

lemma of_char_digit_char [simp]: "n < 10 \<Longrightarrow> of_char (digit_char n) = (48 + n :: nat)"
  by (simp add: digit_char_def)

lemma isdigit_digit_char [simp]: "n < 10 \<Longrightarrow> isdigit (digit_char n)"
  by (simp add: isdigit_def)

lemma digit_val_digit_char [simp]: "n < 10 \<Longrightarrow> digit_val (digit_char n) = n"
  by (simp add: digit_val_def)

lemma digit_char_eval [c_string]:
  "digit_char 0 = CHR ''0''" "digit_char 1 = CHR ''1''" "digit_char 2 = CHR ''2''" "digit_char 3 = CHR ''3''"
  "digit_char 4 = CHR ''4''" "digit_char 5 = CHR ''5''" "digit_char 6 = CHR ''6''" "digit_char 7 = CHR ''7''"
  "digit_char 8 = CHR ''8''" "digit_char 9 = CHR ''9''"
  by code_simp+

lemma isdigit_not_isspace: "isdigit c \<Longrightarrow> \<not> isspace c"
  by (auto simp: isdigit_def isspace_def)

subsection \<open>Strings\<close>

abbreviation nl :: char where "nl \<equiv> CHR 0x0A"

definition lstrip :: "string \<Rightarrow> string" where
  "lstrip s = dropWhile isspace s"

definition rstrip :: "string \<Rightarrow> string" where
  "rstrip s = rev (dropWhile isspace (rev s))"

text \<open>\<^verbatim>\<open>strcasecmp(a, b) == 0\<close>\<close>

definition stricmp_eq :: "string \<Rightarrow> string \<Rightarrow> bool" where
  "stricmp_eq a b \<longleftrightarrow> map tolower a = map tolower b"

text \<open>\<^verbatim>\<open>strncmp(s, p, strlen(p)) == 0\<close>\<close>

definition has_prefix :: "string \<Rightarrow> string \<Rightarrow> bool" where
  "has_prefix p s \<longleftrightarrow> take (length p) s = p"

definition strchr :: "string \<Rightarrow> char \<Rightarrow> string option" where
  "strchr s c = (if c \<in> set s then Some (dropWhile (\<lambda>x. x \<noteq> c) s) else None)"

lemma strchr_append [c_string]: "c \<notin> set a \<Longrightarrow> strchr (a @ c # b) c = Some (c # b)"
  by (induction a) (auto simp: strchr_def)

lemma strchr_None [c_string]: "c \<notin> set s \<Longrightarrow> strchr s c = None"
  by (simp add: strchr_def)

lemma takeWhile_upto: "c \<notin> set a \<Longrightarrow> takeWhile (\<lambda>x. x \<noteq> c) (a @ c # b) = a"
  by (induction a) auto

lemma takeWhile_all: "c \<notin> set a \<Longrightarrow> takeWhile (\<lambda>x. x \<noteq> c) a = a"
  by (induction a) auto

fun strstr :: "string \<Rightarrow> string \<Rightarrow> string option" where
  "strstr s n = (if has_prefix n s then Some s else (case s of [] \<Rightarrow> None | _ # t \<Rightarrow> strstr t n))"

declare strstr.simps [simp del]

lemma strstr_prefix [c_string]: "strstr (n @ s) n = Some (n @ s)"
  by (subst strstr.simps) (simp add: has_prefix_def)

text \<open>One call of \<^verbatim>\<open>strtok\<close>: the token and the string saved for the next call.\<close>

definition strtok :: "string \<Rightarrow> string \<Rightarrow> (string \<times> string) option" where
  "strtok s ds =
     (let s1 = dropWhile (\<lambda>c. c \<in> set ds) s
      in if s1 = [] then None
         else Some (takeWhile (\<lambda>c. c \<notin> set ds) s1, drop 1 (dropWhile (\<lambda>c. c \<notin> set ds) s1)))"

lemma strtok_shorter: "strtok s ds = Some (t, r) \<Longrightarrow> length r < length s"
proof -
  assume a: "strtok s ds = Some (t, r)"
  let ?s1 = "dropWhile (\<lambda>c. c \<in> set ds) s"
  from a have ne: "?s1 \<noteq> []" and r: "r = drop 1 (dropWhile (\<lambda>c. c \<notin> set ds) ?s1)"
    by (auto simp: strtok_def Let_def split: if_splits)
  have "hd ?s1 \<notin> set ds" using ne by (rule hd_dropWhile)
  then have "length (dropWhile (\<lambda>c. c \<notin> set ds) ?s1) < length ?s1 \<or> length ?s1 = 0"
    using ne by (cases ?s1) (auto simp: le_imp_less_Suc length_dropWhile_le)
  with ne have "length r < length ?s1" by (auto simp: r)
  also have "\<dots> \<le> length s" by (rule length_dropWhile_le)
  finally show ?thesis .
qed

lemma strtok_token:
  assumes "t \<noteq> []" "set t \<inter> set ds = {}" "set pre \<subseteq> set ds" "r = [] \<or> hd r \<in> set ds"
  shows "strtok (pre @ t @ r) ds = Some (t, drop 1 r)"
proof -
  obtain c u where t: "t = c # u" using assms(1) by (cases t) auto
  then have c: "c \<notin> set ds" using assms(2) by auto
  have "\<And>x. x \<in> set pre \<Longrightarrow> x \<in> set ds" using assms(3) by auto
  then have "dropWhile (\<lambda>c. c \<in> set ds) (pre @ t @ r) = dropWhile (\<lambda>c. c \<in> set ds) (t @ r)"
    by (rule dropWhile_append2)
  also have "\<dots> = t @ r" using c by (simp add: t)
  finally have d: "dropWhile (\<lambda>c. c \<in> set ds) (pre @ t @ r) = t @ r" .
  have "\<And>x. x \<in> set t \<Longrightarrow> x \<notin> set ds" using assms(2) by auto
  then have "takeWhile (\<lambda>c. c \<notin> set ds) (t @ r) = t @ takeWhile (\<lambda>c. c \<notin> set ds) r"
    "dropWhile (\<lambda>c. c \<notin> set ds) (t @ r) = dropWhile (\<lambda>c. c \<notin> set ds) r"
    using takeWhile_append2 [of t "\<lambda>c. c \<notin> set ds" r] dropWhile_append2 [of t "\<lambda>c. c \<notin> set ds" r] by auto
  moreover have "takeWhile (\<lambda>c. c \<notin> set ds) r = []" "dropWhile (\<lambda>c. c \<notin> set ds) r = r"
    using assms(4) by (cases r; auto)+
  ultimately show ?thesis using d by (simp add: strtok_def t)
qed

text \<open>All tokens of a loop that calls \<^verbatim>\<open>strtok\<close> with the same delimiters.\<close>

function strtok_all :: "string \<Rightarrow> string \<Rightarrow> string list" where
  "strtok_all s ds = (case strtok s ds of None \<Rightarrow> [] | Some (t, r) \<Rightarrow> t # strtok_all r ds)"
  by pat_completeness auto
termination
  by (relation "measure (\<lambda>(s, ds). length s)") (auto dest: strtok_shorter)

declare strtok_all.simps [simp del]

subsection \<open>Numbers and their decimal representation\<close>

fun show_nat :: "nat \<Rightarrow> string" where
  "show_nat n = (if n < 10 then [digit_char n] else show_nat (n div 10) @ [digit_char (n mod 10)])"

declare show_nat.simps [simp del]

definition show_int :: "int \<Rightarrow> string" where
  "show_int i = (if i < 0 then CHR ''-'' # show_nat (nat (- i)) else show_nat (nat i))"

definition num_val :: "string \<Rightarrow> nat" where
  "num_val s = foldl (\<lambda>a c. 10 * a + digit_val c) 0 s"

definition scan_sign :: "string \<Rightarrow> int \<times> string" where
  "scan_sign s = (case s of
      c # t \<Rightarrow> if c = CHR ''-'' then (-1, t) else if c = CHR ''+'' then (1, t) else (1, s)
    | [] \<Rightarrow> (1, []))"

text \<open>\<^verbatim>\<open>strtol(s, NULL, 10)\<close>\<close>

definition strtol10 :: "string \<Rightarrow> int" where
  "strtol10 s = (let (g, t) = scan_sign (lstrip s) in sat_long (g * int (num_val (takeWhile isdigit t))))"

definition atoi :: "string \<Rightarrow> int" where
  "atoi s = to_int32 (strtol10 s)"

text \<open>The conversion \<^verbatim>\<open>%d\<close> of \<^verbatim>\<open>sscanf\<close>: value and remaining input, or a matching failure.\<close>

definition scan_d :: "string \<Rightarrow> (int \<times> string) option" where
  "scan_d s =
     (let (g, t) = scan_sign (lstrip s); ds = takeWhile isdigit t
      in if ds = [] then None
         else Some (to_int32 (sat_long (g * int (num_val ds))), dropWhile isdigit t))"

definition hexdigit_val :: "char \<Rightarrow> nat option" where
  "hexdigit_val c =
     (let n = of_char c :: nat
      in if 48 \<le> n \<and> n \<le> 57 then Some (n - 48)
         else if 65 \<le> n \<and> n \<le> 70 then Some (n - 55)
         else if 97 \<le> n \<and> n \<le> 102 then Some (n - 87) else None)"

text \<open>\<^verbatim>\<open>strtol(s, NULL, 16)\<close>: an optional sign, an optional \<^verbatim>\<open>0x\<close>, hexadecimal digits.\<close>

definition strtol16 :: "string \<Rightarrow> int" where
  "strtol16 s =
     (let (g, t) = scan_sign (lstrip s);
          t' = (case t of c # x # r \<Rightarrow>
                  if c = CHR ''0'' \<and> tolower x = CHR ''x'' then r else t | _ \<Rightarrow> t);
          ds = takeWhile (\<lambda>c. hexdigit_val c \<noteq> None) t'
      in sat_long (g * int (foldl (\<lambda>a c. 16 * a + the (hexdigit_val c)) 0 ds)))"

lemma show_nat_digits: "list_all isdigit (show_nat n)"
proof (induction n rule: show_nat.induct)
  case (1 n)
  then show ?case
    by (subst show_nat.simps) simp
qed

lemma show_nat_nonempty [simp]: "show_nat n \<noteq> []"
  by (subst show_nat.simps) simp

lemma num_val_snoc: "num_val (s @ [c]) = 10 * num_val s + digit_val c"
  by (simp add: num_val_def)

lemma num_val_show_nat [simp]: "num_val (show_nat n) = n"
proof (induction n rule: show_nat.induct)
  case (1 n)
  show ?case
  proof (cases "n < 10")
    case True
    then show ?thesis by (subst show_nat.simps) (simp add: num_val_def)
  next
    case False
    with 1 show ?thesis by (subst show_nat.simps) (simp add: num_val_snoc)
  qed
qed

lemma takeWhile_show_nat:
  "(case r of [] \<Rightarrow> True | c # _ \<Rightarrow> \<not> isdigit c) \<Longrightarrow> takeWhile isdigit (show_nat n @ r) = show_nat n"
proof -
  assume a: "case r of [] \<Rightarrow> True | c # _ \<Rightarrow> \<not> isdigit c"
  have "\<And>x. x \<in> set (show_nat n) \<Longrightarrow> isdigit x"
    using show_nat_digits [of n] by (simp add: list_all_iff)
  then have "takeWhile isdigit (show_nat n @ r) = show_nat n @ takeWhile isdigit r"
    by (rule takeWhile_append2)
  also have "takeWhile isdigit r = []" using a by (cases r) auto
  finally show ?thesis by simp
qed

lemma dropWhile_show_nat:
  "(case r of [] \<Rightarrow> True | c # _ \<Rightarrow> \<not> isdigit c) \<Longrightarrow> dropWhile isdigit (show_nat n @ r) = r"
proof -
  assume a: "case r of [] \<Rightarrow> True | c # _ \<Rightarrow> \<not> isdigit c"
  have "\<And>x. x \<in> set (show_nat n) \<Longrightarrow> isdigit x"
    using show_nat_digits [of n] by (simp add: list_all_iff)
  then have "dropWhile isdigit (show_nat n @ r) = dropWhile isdigit r"
    by (rule dropWhile_append2)
  also have "\<dots> = r" using a by (cases r) auto
  finally show ?thesis .
qed

lemma hd_show_nat_digit: "isdigit (hd (show_nat n @ r))"
  using show_nat_digits [of n] by (cases "show_nat n") (auto simp: list_all_iff)

lemma lstrip_show_int: "lstrip (show_int i @ r) = show_int i @ r"
proof -
  have "\<not> isspace (hd (show_int i @ r))"
    using isdigit_not_isspace [OF hd_show_nat_digit [of "nat i" r]]
    by (simp add: show_int_def) (simp add: isspace_def)
  moreover have "show_int i @ r \<noteq> []" by (simp add: show_int_def)
  ultimately show ?thesis
    unfolding lstrip_def by (cases "show_int i @ r") auto
qed

lemma scan_sign_show_int:
  "scan_sign (show_int i @ r) = (if i < 0 then -1 else 1, show_nat (nat \<bar>i\<bar>) @ r)"
proof (cases "i < 0")
  case True
  then show ?thesis by (simp add: scan_sign_def show_int_def)
next
  case False
  obtain c t where ct: "show_nat (nat i) @ r = c # t"
    using show_nat_nonempty [of "nat i"] by (cases "show_nat (nat i) @ r") auto
  then have "isdigit c" using hd_show_nat_digit [of "nat i" r] by simp
  then have "c \<noteq> CHR ''-''" "c \<noteq> CHR ''+''" by (auto simp: isdigit_def)
  with False ct show ?thesis by (simp add: scan_sign_def show_int_def)
qed

text \<open>Reading back a printed \<^verbatim>\<open>int\<close>.\<close>

lemma strtol10_show_int:
  assumes "- (2 ^ 31) \<le> i" "i < 2 ^ 31"
    and "case r of [] \<Rightarrow> True | c # _ \<Rightarrow> \<not> isdigit c"
  shows "strtol10 (show_int i @ r) = i"
proof -
  have "sat_long i = i" using assms(1,2) by (intro sat_long_id) auto
  with assms show ?thesis
    by (simp add: strtol10_def lstrip_show_int scan_sign_show_int takeWhile_show_nat)
qed

lemma atoi_show_int [c_string]:
  "- (2 ^ 31) \<le> i \<Longrightarrow> i < 2 ^ 31 \<Longrightarrow> atoi (show_int i) = i"
  using strtol10_show_int [of i "[]"] by (simp add: atoi_def to_int32_id)

lemma scan_d_show_int [c_string]:
  assumes "- (2 ^ 31) \<le> i" "i < 2 ^ 31"
    and "case r of [] \<Rightarrow> True | c # _ \<Rightarrow> \<not> isdigit c"
  shows "scan_d (show_int i @ r) = Some (i, r)"
proof -
  have "sat_long i = i" using assms(1,2) by (intro sat_long_id) auto
  with assms show ?thesis
    by (simp add: scan_d_def lstrip_show_int scan_sign_show_int takeWhile_show_nat
        dropWhile_show_nat to_int32_id)
qed

subsection \<open>Formatted output with one integer argument\<close>

text \<open>
  \<^verbatim>\<open>sprintf(out, fmt, i)\<close> for the formats of the configuration files: ordinary characters,
  \<^verbatim>\<open>%%\<close>, and conversions \<^verbatim>\<open>%[flags][width][.precision]d\<close> with the flags \<^verbatim>\<open>0\<close> and \<^verbatim>\<open>-\<close>. The
  argument may be used once; a second conversion, or another conversion character, has no
  defined meaning and is \<^term>\<open>None\<close>.
\<close>

definition pad_left :: "char \<Rightarrow> nat \<Rightarrow> string \<Rightarrow> string" where
  "pad_left c w s = replicate (w - length s) c @ s"

definition fmt_d :: "bool \<Rightarrow> bool \<Rightarrow> nat \<Rightarrow> nat option \<Rightarrow> int \<Rightarrow> string" where
  "fmt_d zf mf w prec i =
     (let sign = (if i < 0 then ''-'' else '''');
          digits = show_nat (nat \<bar>i\<bar>);
          body = (case prec of
                    None \<Rightarrow> if zf \<and> \<not> mf then pad_left (CHR ''0'') (w - length sign) digits else digits
                  | Some p \<Rightarrow> if p = 0 \<and> i = 0 then [] else pad_left (CHR ''0'') p digits);
          s = sign @ body
      in if mf then s @ replicate (w - length s) (CHR '' '') else pad_left (CHR '' '') w s)"

definition scan_flags :: "string \<Rightarrow> bool \<times> bool \<times> string" where
  "scan_flags s =
     (let fs = takeWhile (\<lambda>c. c = CHR ''0'' \<or> c = CHR ''-'') s
      in (CHR ''0'' \<in> set fs, CHR ''-'' \<in> set fs, drop (length fs) s))"

definition scan_nat :: "string \<Rightarrow> nat \<times> string" where
  "scan_nat s = (num_val (takeWhile isdigit s), dropWhile isdigit s)"

definition scan_prec :: "string \<Rightarrow> nat option \<times> string" where
  "scan_prec s = (case s of
      c # t \<Rightarrow> if c = CHR ''.'' then (let (p, r) = scan_nat t in (Some p, r)) else (None, s)
    | [] \<Rightarrow> (None, []))"

text \<open>A conversion specification after its \<^verbatim>\<open>%\<close>: the text it prints and the rest of the format.\<close>

definition conv_d :: "string \<Rightarrow> int \<Rightarrow> (string \<times> string) option" where
  "conv_d s i =
     (let (zf, mf, s1) = scan_flags s; (w, s2) = scan_nat s1; (prec, s3) = scan_prec s2
      in case s3 of
           c # r \<Rightarrow> if c = CHR ''d'' then Some (fmt_d zf mf w prec i, r) else None
         | [] \<Rightarrow> None)"

fun sprintf_rest :: "string \<Rightarrow> string option" where
  "sprintf_rest [] = Some []"
| "sprintf_rest (c # s) =
     (if c = CHR ''%'' then
        (case s of d # r \<Rightarrow> if d = CHR ''%'' then map_option (Cons (CHR ''%'')) (sprintf_rest r) else None
         | [] \<Rightarrow> None)
      else map_option (Cons c) (sprintf_rest s))"

fun sprintf_d :: "string \<Rightarrow> int \<Rightarrow> string option" where
  "sprintf_d [] i = Some []"
| "sprintf_d (c # s) i =
     (if c = CHR ''%'' then
        (case s of
           [] \<Rightarrow> None
         | d # r \<Rightarrow>
             if d = CHR ''%'' then map_option (Cons (CHR ''%'')) (sprintf_d r i)
             else (case conv_d s i of
                     None \<Rightarrow> None
                   | Some (t, r') \<Rightarrow> map_option ((@) t) (sprintf_rest r')))
      else map_option (Cons c) (sprintf_d s i))"

declare sprintf_d.simps(2) [simp del]

text \<open>Printing into a buffer of \<open>n\<close> bytes: the string and its NUL must fit.\<close>

definition sprintf_buf :: "nat \<Rightarrow> string \<Rightarrow> int \<Rightarrow> string result" where
  "sprintf_buf n fmt i =
     (case sprintf_d fmt i of
        None \<Rightarrow> Inl BadFormat
      | Some s \<Rightarrow> if length s < n then Inr s else Inl BufferOverflow)"

definition strcpy_buf :: "nat \<Rightarrow> string \<Rightarrow> string result" where
  "strcpy_buf n s = (if length s < n then Inr s else Inl BufferOverflow)"

lemma strcpy_buf_Inr [simp]: "strcpy_buf n s = Inr t \<longleftrightarrow> length s < n \<and> t = s"
  by (auto simp: strcpy_buf_def)

text \<open>\<^verbatim>\<open>strncpy(b, s, n - 1); b[n - 1] = 0\<close>\<close>

definition strncpy_buf :: "nat \<Rightarrow> string \<Rightarrow> string" where
  "strncpy_buf n s = take (n - 1) s"

subsection \<open>Tables of cells\<close>

text \<open>
  The interface of a table whose cells are read and written through pointers: what the
  components rely on when they update one cell and read another.
\<close>

locale cells =
  fixes valid :: "'d \<Rightarrow> 'p \<Rightarrow> bool"
    and rd :: "'d \<Rightarrow> 'p \<Rightarrow> 'v"
    and wr :: "'p \<Rightarrow> 'v \<Rightarrow> 'd \<Rightarrow> 'd"
  assumes rd_wr_same: "valid d p \<Longrightarrow> rd (wr p v d) p = v"
    and rd_wr_other: "q \<noteq> p \<Longrightarrow> rd (wr p v d) q = rd d q"
    and valid_wr: "valid (wr p v d) q = valid d q"
begin

lemma rd_wr: "valid d p \<Longrightarrow> rd (wr p v d) q = (if q = p then v else rd d q)"
  by (simp add: rd_wr_same rd_wr_other)

lemma valid_fold: "valid (fold (\<lambda>(p, v). wr p v) ws d) q = valid d q"
proof (induction ws arbitrary: d)
  case (Cons w ws)
  then show ?case by (cases w) (simp add: valid_wr)
qed simp

lemma rd_fold_other: "q \<notin> fst ` set ws \<Longrightarrow> rd (fold (\<lambda>(p, v). wr p v) ws d) q = rd d q"
  by (induction ws arbitrary: d) (auto simp: rd_wr_other)

lemma rd_fold:
  "distinct (map fst ws) \<Longrightarrow> (p, v) \<in> set ws \<Longrightarrow> valid d p \<Longrightarrow> rd (fold (\<lambda>(p, v). wr p v) ws d) p = v"
proof (induction ws arbitrary: d)
  case (Cons w ws)
  show ?case
  proof (cases "w = (p, v)")
    case True
    with Cons.prems show ?thesis by (simp add: rd_fold_other rd_wr_same)
  next
    case False
    with Cons.prems show ?thesis by (cases w) (auto simp: valid_wr intro: Cons.IH)
  qed
qed simp

end

subsection \<open>Generic lemmas\<close>

lemma rstrip_Nil [simp]: "rstrip [] = []" and lstrip_Nil [simp]: "lstrip [] = []"
  by (simp_all add: rstrip_def lstrip_def)

lemma rstrip_id: "s \<noteq> [] \<Longrightarrow> \<not> isspace (last s) \<Longrightarrow> rstrip s = s"
  by (cases s rule: rev_cases) (simp_all add: rstrip_def)

lemma lstrip_id: "s \<noteq> [] \<Longrightarrow> \<not> isspace (hd s) \<Longrightarrow> lstrip s = s"
  by (cases s) (simp_all add: lstrip_def)

lemma rstrip_last: "rstrip s \<noteq> [] \<Longrightarrow> \<not> isspace (last (rstrip s))"
  unfolding rstrip_def by (simp add: last_rev hd_dropWhile)

lemma lstrip_hd: "lstrip s \<noteq> [] \<Longrightarrow> \<not> isspace (hd (lstrip s))"
  unfolding lstrip_def by (rule hd_dropWhile)

lemma rstrip_append_space: "list_all isspace w \<Longrightarrow> rstrip (s @ w) = rstrip s"
  by (simp add: rstrip_def list_all_iff dropWhile_append)

lemma lstrip_append_space: "list_all isspace w \<Longrightarrow> lstrip (w @ s) = lstrip s"
  by (simp add: lstrip_def list_all_iff dropWhile_append2)

lemma rstrip_decomp: "\<exists>w. s = rstrip s @ w \<and> list_all isspace w"
proof -
  have "s = rev (takeWhile isspace (rev s) @ dropWhile isspace (rev s))" by simp
  then have "s = rstrip s @ rev (takeWhile isspace (rev s))"
    unfolding rstrip_def by (metis rev_append)
  then show ?thesis
    by (metis (no_types, lifting) list_all_iff set_rev set_takeWhileD)
qed

lemma set_rstrip: "set (rstrip s) \<subseteq> set s"
  unfolding rstrip_def using set_dropWhileD by fastforce

lemma length_rstrip: "length (rstrip s) \<le> length s"
  unfolding rstrip_def by (simp add: length_dropWhile_le [of _ "rev s", simplified])

lemma length_lstrip: "length (lstrip s) \<le> length s"
  unfolding lstrip_def by (rule length_dropWhile_le)

lemma stricmp_eq_refl [simp]: "stricmp_eq s s"
  by (simp add: stricmp_eq_def)

lemma stricmp_eq_sym: "stricmp_eq a b = stricmp_eq b a"
  by (auto simp: stricmp_eq_def)

lemma sum_list_replicate_empty [simp]: "sum_list (replicate n {#}) = {#}"
  by (induction n) auto

lemma sum_list_mset_update:
  "i < length xs \<Longrightarrow>
     sum_list (map mset (xs[i := y])) + mset (xs ! i) = sum_list (map mset xs) + mset y"
proof (induction xs arbitrary: i)
  case (Cons x xs)
  then show ?case by (cases i) (auto simp: ac_simps)
qed simp

end
