(* ===== verification/Tgen_Timer.thy ===== *)
theory Tgen_Timer
  imports Tgen_Prelude
begin

section \<open>The sleep timer (Src/ttimer.c)\<close>

text \<open>
  The circular table of sleeping contexts: a slot is the list of the \<^verbatim>\<open>elem\<close>s of one time unit,
  the head of the list first. The theory has the operations of \<^verbatim>\<open>ttimer.c\<close>, the abstraction of
  the table to the contexts due in \<open>d\<close> time units, the interface \<open>sleep_queue\<close> that the executor
  relies on with its interpretation, and a step relation for the threads that share the table
  (workers, the statistics thread that tops the time unit, and the main thread that closes it).
\<close>

subsection \<open>State and operations\<close>

record 'c timer =
  tTimerCircularTable :: "'c list list"
  tTimerCircularTableSize :: nat
  currentIndex :: nat
  tableClosed :: bool

definition timer0 :: "'c timer" where
  "timer0 = \<lparr>tTimerCircularTable = [], tTimerCircularTableSize = 0, currentIndex = 0, tableClosed = True\<rparr>"

text \<open>\<open>mutexOk\<close> and \<open>alloc\<close> are the outcomes of \<^verbatim>\<open>pthread_mutex_init\<close> and \<^verbatim>\<open>malloc\<close>.\<close>

definition tTimerInit :: "bool \<Rightarrow> bool \<Rightarrow> int \<Rightarrow> 'c timer \<Rightarrow> int \<times> 'c timer" where
  "tTimerInit mutexOk alloc tableSize t =
     (if \<not> mutexOk then (1, t)
      else if tableSize < 0 \<or> \<not> alloc then (1, t)
      else (0, t\<lparr>tTimerCircularTable := replicate (nat tableSize) [],
                tTimerCircularTableSize := nat tableSize, tableClosed := False\<rparr>))"

definition tTimerGetMaxSleepTime :: "'c timer \<Rightarrow> int" where
  "tTimerGetMaxSleepTime t = int (tTimerCircularTableSize t) - 1"

definition tTimerGetUserToResume :: "'c timer \<Rightarrow> ('c option \<times> 'c timer) result" where
  "tTimerGetUserToResume t =
     (if currentIndex t < length (tTimerCircularTable t) then
        (case tTimerCircularTable t ! currentIndex t of
           [] \<Rightarrow> Inr (None, t)
         | c # rest \<Rightarrow>
             Inr (Some c, t\<lparr>tTimerCircularTable := (tTimerCircularTable t)[currentIndex t := rest]\<rparr>))
      else Inl OutOfBounds)"

text \<open>The part of \<^verbatim>\<open>tTimerSetUserToSleep\<close> under the lock, for the delay computed before it.\<close>

definition timer_push :: "bool \<Rightarrow> 'c \<Rightarrow> int \<Rightarrow> 'c timer \<Rightarrow> (int \<times> 'c timer) result" where
  "timer_push alloc c delay t =
     (if \<not> alloc then Inr (1, t)
      else if tTimerCircularTableSize t = 0 then Inl DivByZero
      else (let resumeIndex = (int (currentIndex t) + delay) smod int (tTimerCircularTableSize t)
            in if resumeIndex < 0 \<or> int (length (tTimerCircularTable t)) \<le> resumeIndex then Inl OutOfBounds
               else Inr (0, t\<lparr>tTimerCircularTable := (tTimerCircularTable t)
                        [nat resumeIndex := c # tTimerCircularTable t ! nat resumeIndex]\<rparr>)))"

definition sleep_delay :: "int \<Rightarrow> 'c timer \<Rightarrow> int" where
  "sleep_delay nbTimeUnit t = (if tableClosed t then 0 else nbTimeUnit)"

definition tTimerSetUserToSleep :: "bool \<Rightarrow> 'c option \<Rightarrow> int \<Rightarrow> 'c timer \<Rightarrow> (int \<times> 'c timer) result" where
  "tTimerSetUserToSleep alloc aCtx nbTimeUnit t =
     (case aCtx of
        None \<Rightarrow> Inr (1, t)
      | Some c \<Rightarrow>
          if int (tTimerCircularTableSize t) \<le> nbTimeUnit then Inr (1, t)
          else timer_push alloc c (sleep_delay nbTimeUnit t) t)"

text \<open>The \<^verbatim>\<open>while\<close> of \<^verbatim>\<open>tTimerTopTU\<close>; it returns the number of contexts pushed.\<close>

partial_function (option) top_loop ::
  "(nat \<Rightarrow> bool) \<Rightarrow> nat \<Rightarrow> 'c timer \<Rightarrow> (nat \<times> 'c timer) result option" where
  [code]: "top_loop alloc debuginfo t =
     (case tTimerGetUserToResume t of
        Inl e \<Rightarrow> Some (Inl e)
      | Inr (u, t1) \<Rightarrow>
          (case tTimerSetUserToSleep (alloc debuginfo) u 1 t1 of
             Inl e \<Rightarrow> Some (Inl e)
           | Inr (rc, t2) \<Rightarrow>
               if rc = 0 then top_loop alloc (Suc debuginfo) t2 else Some (Inr (debuginfo, t2))))"

definition timer_advance :: "'c timer \<Rightarrow> 'c timer result" where
  "timer_advance t =
     (if tTimerCircularTableSize t = 0 then Inl DivByZero
      else Inr (t\<lparr>currentIndex := (currentIndex t + 1) mod tTimerCircularTableSize t\<rparr>))"

definition tTimerTopTU :: "(nat \<Rightarrow> bool) \<Rightarrow> 'c timer \<Rightarrow> 'c timer result option" where
  "tTimerTopTU alloc t =
     (if tableClosed t then Some (Inr t)
      else (case top_loop alloc 0 t of
              None \<Rightarrow> None
            | Some (Inl e) \<Rightarrow> Some (Inl e)
            | Some (Inr (n, t1)) \<Rightarrow> Some (timer_advance t1)))"

text \<open>\<^verbatim>\<open>tTimerClose\<close>: the inner \<^verbatim>\<open>while\<close> moves a slot to \<open>firstElem\<close>, the \<^verbatim>\<open>for\<close> goes down to slot 0.\<close>

fun drain_slot :: "'c list \<Rightarrow> 'c list \<Rightarrow> 'c list" where
  "drain_slot [] firstElem = firstElem"
| "drain_slot (myElem # rest) firstElem = drain_slot rest (myElem # firstElem)"

fun close_loop :: "nat \<Rightarrow> 'c list list \<Rightarrow> 'c list \<Rightarrow> 'c list list \<times> 'c list" where
  "close_loop 0 tab firstElem = (tab, firstElem)"
| "close_loop (Suc i) tab firstElem = close_loop i (tab[i := []]) (drain_slot (tab ! i) firstElem)"

definition tTimerClose :: "'c timer \<Rightarrow> 'c timer result" where
  "tTimerClose t =
     (let (tab, firstElem) = close_loop (tTimerCircularTableSize t) (tTimerCircularTable t) []
      in if tab = [] then Inl OutOfBounds
         else Inr (t\<lparr>tTimerCircularTable := tab[0 := firstElem], currentIndex := 0, tableClosed := True\<rparr>))"

subsection \<open>Well-formedness and the contexts due in \<open>d\<close> time units\<close>

definition timer_wf :: "'c timer \<Rightarrow> bool" where
  "timer_wf t \<longleftrightarrow> length (tTimerCircularTable t) = tTimerCircularTableSize t
     \<and> currentIndex t < tTimerCircularTableSize t"

definition due :: "'c timer \<Rightarrow> nat \<Rightarrow> 'c multiset" where
  "due t d = (if d < tTimerCircularTableSize t
     then mset (tTimerCircularTable t ! ((currentIndex t + d) mod tTimerCircularTableSize t)) else {#})"

definition sleeping :: "'c timer \<Rightarrow> 'c multiset" where
  "sleeping t = sum_list (map mset (tTimerCircularTable t))"

lemma timer_push_wf:
  assumes "timer_wf t" "0 \<le> d"
  shows "timer_push alloc c d t =
     (if alloc then
        (let i = (currentIndex t + nat d) mod tTimerCircularTableSize t
         in Inr (0, t\<lparr>tTimerCircularTable := (tTimerCircularTable t)[i := c # tTimerCircularTable t ! i]\<rparr>))
      else Inr (1, t))"
proof -
  let ?r = "(int (currentIndex t) + d) mod int (tTimerCircularTableSize t)"
  have n: "0 < tTimerCircularTableSize t" "length (tTimerCircularTable t) = tTimerCircularTableSize t"
    using assms(1) by (auto simp: timer_wf_def)
  have "nat ?r = (currentIndex t + nat d) mod tTimerCircularTableSize t"
    using assms(2) by (simp add: nat_mod_distrib nat_add_distrib)
  moreover have "?r < int (tTimerCircularTableSize t)" "\<not> ?r < 0" "\<not> int (tTimerCircularTableSize t) \<le> ?r"
    using n by (simp_all add: not_less not_le)
  ultimately show ?thesis
    using n assms(2) by (simp add: timer_push_def Let_def)
qed

lemma mod_add_inj_le:
  fixes c d e n :: nat
  assumes "d \<le> e" "e < n" "(c + e) mod n = (c + d) mod n"
  shows "d = e"
proof -
  have "n dvd (c + e) - (c + d)"
    using assms by (simp add: mod_eq_dvd_iff_nat)
  then show ?thesis using assms(1,2) by (auto dest: dvd_imp_le)
qed

lemma mod_add_inj:
  fixes c d e n :: nat
  assumes "d < n" "e < n"
  shows "(c + d) mod n = (c + e) mod n \<longleftrightarrow> d = e"
  using mod_add_inj_le [of d e n c] mod_add_inj_le [of e d n c] assms by (cases "d \<le> e") auto

lemma due_update:
  assumes "timer_wf t" "i < tTimerCircularTableSize t"
  shows "due (t\<lparr>tTimerCircularTable := (tTimerCircularTable t)[(currentIndex t + i) mod tTimerCircularTableSize t := xs]\<rparr>)
     = (due t)(i := mset xs)"
proof
  fix d
  have "(currentIndex t + i) mod tTimerCircularTableSize t < length (tTimerCircularTable t)"
    using assms by (simp add: timer_wf_def)
  then show "due (t\<lparr>tTimerCircularTable := (tTimerCircularTable t)[(currentIndex t + i) mod tTimerCircularTableSize t := xs]\<rparr>) d
     = ((due t)(i := mset xs)) d"
    using assms(2) by (auto simp: due_def mod_add_inj nth_list_update)
qed

lemma sleeping_update:
  "i < length (tTimerCircularTable t) \<Longrightarrow>
     sleeping (t\<lparr>tTimerCircularTable := (tTimerCircularTable t)[i := xs]\<rparr>) + mset (tTimerCircularTable t ! i)
     = sleeping t + mset xs"
  by (simp add: sleeping_def sum_list_mset_update)

lemma timer_wf_update [simp]:
  "timer_wf (t\<lparr>tTimerCircularTable := (tTimerCircularTable t)[i := xs]\<rparr>) = timer_wf t"
  by (simp add: timer_wf_def)

text \<open>Putting a context to sleep and resuming one, on the abstraction.\<close>

lemma push_spec:
  assumes "timer_wf t" "0 \<le> d" "d < int (tTimerCircularTableSize t)"
  obtains t' where "timer_push True c d t = Inr (0, t')" "timer_wf t'"
    "due t' = (due t)(nat d := add_mset c (due t (nat d)))"
    "sleeping t' = add_mset c (sleeping t)"
    "tableClosed t' = tableClosed t" "tTimerCircularTableSize t' = tTimerCircularTableSize t"
    "currentIndex t' = currentIndex t"
proof -
  let ?i = "(currentIndex t + nat d) mod tTimerCircularTableSize t"
  let ?t = "t\<lparr>tTimerCircularTable := (tTimerCircularTable t)[?i := c # tTimerCircularTable t ! ?i]\<rparr>"
  have i: "?i < length (tTimerCircularTable t)" using assms(1) by (simp add: timer_wf_def)
  have "due ?t = (due t)(nat d := mset (c # tTimerCircularTable t ! ?i))"
    using assms by (intro due_update) auto
  moreover have "due t (nat d) = mset (tTimerCircularTable t ! ?i)"
    using assms(2,3) by (simp add: due_def nat_less_iff)
  moreover have "sleeping ?t = add_mset c (sleeping t)"
    using sleeping_update [OF i, of "c # tTimerCircularTable t ! ?i"] by simp
  ultimately show thesis
    using assms by (intro that [of ?t]) (simp_all add: timer_push_wf Let_def)
qed

lemma get_spec:
  assumes "timer_wf t"
  shows "(due t 0 = {#} \<and> tTimerGetUserToResume t = Inr (None, t))
    \<or> (\<exists>c t'. tTimerGetUserToResume t = Inr (Some c, t') \<and> timer_wf t' \<and> c \<in># due t 0
         \<and> due t' = (due t)(0 := due t 0 - {#c#}) \<and> sleeping t = add_mset c (sleeping t')
         \<and> tableClosed t' = tableClosed t \<and> tTimerCircularTableSize t' = tTimerCircularTableSize t
         \<and> currentIndex t' = currentIndex t)"
proof -
  have i: "currentIndex t < length (tTimerCircularTable t)"
    and n: "0 < tTimerCircularTableSize t" "currentIndex t < tTimerCircularTableSize t"
    using assms by (auto simp: timer_wf_def)
  have d0: "due t 0 = mset (tTimerCircularTable t ! currentIndex t)"
    using n by (simp add: due_def)
  show ?thesis
  proof (cases "tTimerCircularTable t ! currentIndex t")
    case Nil
    then show ?thesis using i d0 by (simp add: tTimerGetUserToResume_def)
  next
    case (Cons c rest)
    let ?t = "t\<lparr>tTimerCircularTable := (tTimerCircularTable t)[currentIndex t := rest]\<rparr>"
    have "due ?t = (due t)(0 := mset rest)"
      using due_update [OF assms n(1), of rest] n by simp
    moreover have "sleeping t = add_mset c (sleeping ?t)"
      using sleeping_update [OF i, of rest] Cons by simp
    moreover have "tTimerGetUserToResume t = Inr (Some c, ?t)"
      using Cons i by (simp add: tTimerGetUserToResume_def)
    ultimately show ?thesis
      using assms d0 Cons by (intro disjI2 exI [of _ c] exI [of _ ?t]) simp
  qed
qed

text \<open>
  The loop of \<^verbatim>\<open>tTimerTopTU\<close> on an open table of at least two slots with memory available: it
  ends after one round per context of the current slot, and moves them all to the next one.
\<close>

lemma top_loop_result:
  assumes "timer_wf t" "\<not> tableClosed t" "2 \<le> tTimerCircularTableSize t" "\<forall>k. alloc k"
  shows "\<exists>t'. top_loop alloc n t = Some (Inr (n + size (due t 0), t')) \<and> timer_wf t'
     \<and> due t' = (due t)(0 := {#}, 1 := due t 0 + due t 1) \<and> sleeping t' = sleeping t
     \<and> \<not> tableClosed t' \<and> tTimerCircularTableSize t' = tTimerCircularTableSize t
     \<and> currentIndex t' = currentIndex t"
  using assms(1-3)
proof (induction "size (due t 0)" arbitrary: t n)
  case 0
  then have "tTimerGetUserToResume t = Inr (None, t)"
    using get_spec [of t] by auto
  then show ?case
    using 0 by (subst top_loop.simps) (auto simp: tTimerSetUserToSleep_def fun_eq_iff)
next
  case (Suc m)
  then obtain c t1 where g: "tTimerGetUserToResume t = Inr (Some c, t1)" "timer_wf t1" "c \<in># due t 0"
      "due t1 = (due t)(0 := due t 0 - {#c#})" "sleeping t = add_mset c (sleeping t1)"
      "tableClosed t1 = tableClosed t" "tTimerCircularTableSize t1 = tTimerCircularTableSize t"
      "currentIndex t1 = currentIndex t"
    using get_spec [OF Suc.prems(1)] by auto
  obtain t2 where p: "timer_push True c 1 t1 = Inr (0, t2)" "timer_wf t2"
    "due t2 = (due t1)(nat 1 := add_mset c (due t1 (nat 1)))"
    "sleeping t2 = add_mset c (sleeping t1)"
    "tableClosed t2 = tableClosed t1" "tTimerCircularTableSize t2 = tTimerCircularTableSize t1"
    "currentIndex t2 = currentIndex t1"
    using Suc.prems g by (elim push_spec [where d = 1 and c = c and t = t1, rotated -1]) auto
  have "m = size (due t2 0)" using p(3) g(3,4) Suc.hyps(2) by (simp add: size_Diff_singleton)
  from Suc.hyps(1) [OF this p(2)] obtain t' where l:
    "top_loop alloc (Suc n) t2 = Some (Inr (Suc n + size (due t2 0), t'))" "timer_wf t'"
    "due t' = (due t2)(0 := {#}, 1 := due t2 0 + due t2 1)" "sleeping t' = sleeping t2"
    "\<not> tableClosed t'" "tTimerCircularTableSize t' = tTimerCircularTableSize t2"
    "currentIndex t' = currentIndex t2"
    using Suc.prems g p by fastforce
  have "top_loop alloc n t = Some (Inr (n + size (due t 0), t'))"
    using assms(4) g p l Suc.prems \<open>m = size (due t2 0)\<close> Suc.hyps(2)
    by (subst top_loop.simps) (simp add: tTimerSetUserToSleep_def sleep_delay_def)
  moreover have "due t' = (due t)(0 := {#}, 1 := due t 0 + due t 1)"
    using l(3) p(3) g(3,4) by (auto simp: fun_eq_iff)
  ultimately show ?case using l p g Suc.prems(2) by auto
qed

lemma advance_spec:
  assumes "timer_wf t" "\<not> tableClosed t" "due t 0 = {#}"
  obtains t' where "timer_advance t = Inr t'" "timer_wf t'" "due t' = (\<lambda>d. due t (Suc d))"
    "sleeping t' = sleeping t" "\<not> tableClosed t'"
    "tTimerCircularTableSize t' = tTimerCircularTableSize t"
proof -
  let ?n = "tTimerCircularTableSize t"
  let ?t = "t\<lparr>currentIndex := (currentIndex t + 1) mod ?n\<rparr>"
  have n: "0 < ?n" using assms(1) by (auto simp: timer_wf_def)
  have "due ?t d = due t (Suc d)" for d
  proof (cases "Suc d < ?n")
    case True
    then show ?thesis by (simp add: due_def mod_Suc_eq mod_add_left_eq)
  next
    case False
    moreover have "due ?t d = {#}" if "Suc d = ?n"
    proof -
      have "((currentIndex t + 1) mod ?n + d) mod ?n = (currentIndex t + Suc d) mod ?n"
        by (simp add: mod_add_left_eq)
      also have "\<dots> = currentIndex t" using that assms(1) by (simp add: timer_wf_def)
      finally show ?thesis
        using that assms(1,3) by (simp add: due_def timer_wf_def)
    qed
    ultimately show ?thesis by (cases "Suc d = ?n") (auto simp: due_def)
  qed
  then show thesis
    using assms n by (intro that [of ?t]) (auto simp: timer_advance_def timer_wf_def sleeping_def)
qed

subsection \<open>The interface of a sleep queue\<close>

text \<open>
  What the executor and the statistics thread rely on: \<open>pend q d\<close> are the contexts to resume in
  \<open>d\<close> time units; \<open>top\<close> brings every context one unit nearer and keeps the ones that are due.
\<close>

locale sleep_queue =
  fixes inv :: "'q \<Rightarrow> bool"
    and maxd :: "'q \<Rightarrow> nat"
    and pend :: "'q \<Rightarrow> nat \<Rightarrow> 'c multiset"
    and sleep :: "'c \<Rightarrow> nat \<Rightarrow> 'q \<Rightarrow> 'q option"
    and resume :: "'q \<Rightarrow> ('c \<times> 'q) option"
    and top :: "'q \<Rightarrow> 'q option"
  assumes sleep_law: "inv q \<Longrightarrow> d \<le> maxd q \<Longrightarrow>
      \<exists>q'. sleep c d q = Some q' \<and> inv q' \<and> maxd q' = maxd q \<and> pend q' = (pend q)(d := add_mset c (pend q d))"
    and resume_none: "inv q \<Longrightarrow> pend q 0 = {#} \<Longrightarrow> resume q = None"
    and resume_some: "inv q \<Longrightarrow> pend q 0 \<noteq> {#} \<Longrightarrow>
      \<exists>c q'. resume q = Some (c, q') \<and> inv q' \<and> maxd q' = maxd q \<and> c \<in># pend q 0
        \<and> pend q' = (pend q)(0 := pend q 0 - {#c#})"
    and top_law: "inv q \<Longrightarrow>
      \<exists>q'. top q = Some q' \<and> inv q' \<and> maxd q' = maxd q
        \<and> pend q' = (\<lambda>d. if d = 0 then pend q 0 + pend q 1 else pend q (Suc d))"
begin

lemma after_tops:
  "inv q \<Longrightarrow> \<exists>q'. iter_opt n top q = Some q' \<and> inv q' \<and> maxd q' = maxd q
      \<and> pend q' = (\<lambda>d. if d = 0 then (\<Sum>j\<le>n. pend q j) else pend q (d + n))"
proof (induction n arbitrary: q)
  case 0
  then show ?case by auto
next
  case (Suc n)
  obtain q1 where q1: "top q = Some q1" "inv q1" "maxd q1 = maxd q"
    "pend q1 = (\<lambda>d. if d = 0 then pend q 0 + pend q 1 else pend q (Suc d))"
    using top_law [OF Suc.prems] by blast
  from Suc.IH [OF q1(2)] obtain q' where q': "iter_opt n top q1 = Some q'" "inv q'" "maxd q' = maxd q1"
    "pend q' = (\<lambda>d. if d = 0 then (\<Sum>j\<le>n. pend q1 j) else pend q1 (d + n))"
    by blast
  have "(\<Sum>j\<le>n. pend q1 j) = (\<Sum>j\<le>Suc n. pend q j)"
    unfolding q1(4) by (induction n) (auto simp: ac_simps)
  then show ?case using q1 q' by (auto simp: fun_eq_iff)
qed

lemma sleep_then_due:
  assumes "inv q" "d \<le> maxd q"
  shows "\<exists>q1 q2. sleep c d q = Some q1 \<and> iter_opt n top q1 = Some q2 \<and> inv q2
      \<and> pend q2 0 = (\<Sum>j\<le>n. pend q j) + (if d \<le> n then {#c#} else {#})"
proof -
  obtain q1 where q1: "sleep c d q = Some q1" "inv q1" "pend q1 = (pend q)(d := add_mset c (pend q d))"
    using sleep_law [OF assms] by blast
  have "(\<Sum>j\<le>n. pend q1 j) = (\<Sum>j\<le>n. pend q j) + (if d \<le> n then {#c#} else {#})"
    unfolding q1(3) by (induction n) auto
  with after_tops [OF q1(2), of n] q1 show ?thesis by auto
qed

lemma resume_all:
  "inv q \<Longrightarrow> \<exists>cs q'. mset cs = pend q 0 \<and> inv q' \<and> pend q' = (pend q)(0 := {#}) \<and> resume q' = None
     \<and> iter_opt (length cs) (\<lambda>(l, q). map_option (\<lambda>(c, q). (l @ [c], q)) (resume q)) (l0, q) = Some (l0 @ cs, q')"
proof (induction "size (pend q 0)" arbitrary: q l0)
  case 0
  then have "pend q 0 = {#}" by simp
  with 0 show ?case
    by (intro exI [of _ "[]"] exI [of _ q]) (auto simp: resume_none fun_eq_iff)
next
  case (Suc m)
  then have "pend q 0 \<noteq> {#}" by auto
  then obtain c q1 where q1: "resume q = Some (c, q1)" "inv q1" "c \<in># pend q 0"
    "pend q1 = (pend q)(0 := pend q 0 - {#c#})"
    using resume_some [OF Suc.prems] by blast
  then have "m = size (pend q1 0)" using Suc.hyps(2) by (simp add: size_Diff_singleton)
  from Suc.hyps(1) [OF this q1(2), of "l0 @ [c]"] q1(1,3,4) show ?case
    by (elim exE conjE) (rule exI [of _ "c # cs" for cs], rule exI, auto simp: fun_eq_iff)
qed

end

definition timer_inv :: "'c timer \<Rightarrow> bool" where
  "timer_inv t \<longleftrightarrow> timer_wf t \<and> \<not> tableClosed t \<and> 2 \<le> tTimerCircularTableSize t"

definition timer_sleep :: "'c \<Rightarrow> nat \<Rightarrow> 'c timer \<Rightarrow> 'c timer option" where
  "timer_sleep c d t = (case tTimerSetUserToSleep True (Some c) (int d) t of
      Inr (rc, t') \<Rightarrow> if rc = 0 then Some t' else None | Inl e \<Rightarrow> None)"

definition timer_resume :: "'c timer \<Rightarrow> ('c \<times> 'c timer) option" where
  "timer_resume t = (case tTimerGetUserToResume t of
      Inr (Some c, t') \<Rightarrow> Some (c, t') | _ \<Rightarrow> None)"

definition timer_top :: "'c timer \<Rightarrow> 'c timer option" where
  "timer_top t = (case tTimerTopTU (\<lambda>_. True) t of Some (Inr t') \<Rightarrow> Some t' | _ \<Rightarrow> None)"

lemma timer_top_spec:
  assumes "timer_inv t"
  obtains t' where "tTimerTopTU (\<lambda>_. True) t = Some (Inr t')" "timer_inv t'"
    "tTimerCircularTableSize t' = tTimerCircularTableSize t" "sleeping t' = sleeping t"
    "due t' = (\<lambda>d. if d = 0 then due t 0 + due t 1 else due t (Suc d))"
proof -
  from assms obtain t1 where l: "top_loop (\<lambda>_. True) 0 t = Some (Inr (size (due t 0), t1))" "timer_wf t1"
      "due t1 = (due t)(0 := {#}, 1 := due t 0 + due t 1)" "sleeping t1 = sleeping t"
      "\<not> tableClosed t1" "tTimerCircularTableSize t1 = tTimerCircularTableSize t"
    using top_loop_result [of t "\<lambda>_. True" 0] by (auto simp: timer_inv_def)
  obtain t2 where a: "timer_advance t1 = Inr t2" "timer_wf t2" "due t2 = (\<lambda>d. due t1 (Suc d))"
    "sleeping t2 = sleeping t1" "\<not> tableClosed t2"
    "tTimerCircularTableSize t2 = tTimerCircularTableSize t1"
    using l by (elim advance_spec [rotated -1]) simp_all
  show thesis
    using assms l a by (intro that [of t2]) (auto simp: tTimerTopTU_def timer_inv_def fun_eq_iff)
qed

interpretation timer: sleep_queue timer_inv "\<lambda>t. tTimerCircularTableSize t - 1" due
  timer_sleep timer_resume timer_top
proof unfold_locales
  fix t :: "'c timer" and d c
  assume "timer_inv t" "d \<le> tTimerCircularTableSize t - 1"
  then have pre: "timer_wf t" "0 \<le> int d" "int d < int (tTimerCircularTableSize t)" "\<not> tableClosed t"
    unfolding timer_inv_def by linarith+
  obtain t' where p: "timer_push True c (int d) t = Inr (0, t')" "timer_wf t'"
    "due t' = (due t)(nat (int d) := add_mset c (due t (nat (int d))))"
    "tableClosed t' = tableClosed t" "tTimerCircularTableSize t' = tTimerCircularTableSize t"
    by (rule push_spec [OF pre(1-3), of c])
  have "timer_sleep c d t = Some t'"
    using p(1) pre(3,4) by (simp add: timer_sleep_def tTimerSetUserToSleep_def sleep_delay_def)
  moreover have "timer_inv t'"
    using p(2,4,5) \<open>timer_inv t\<close> by (simp add: timer_inv_def)
  ultimately show "\<exists>t'. timer_sleep c d t = Some t' \<and> timer_inv t'
      \<and> tTimerCircularTableSize t' - 1 = tTimerCircularTableSize t - 1
      \<and> due t' = (due t)(d := add_mset c (due t d))"
    using p(3,5) by (intro exI [of _ t']) (simp only: nat_int)
next
  fix t :: "'c timer"
  assume "timer_inv t" "due t 0 = {#}"
  then have "tTimerGetUserToResume t = Inr (None, t)"
    using get_spec [of t] by (auto simp: timer_inv_def)
  then show "timer_resume t = None" by (simp add: timer_resume_def)
next
  fix t :: "'c timer"
  assume inv: "timer_inv t" and "due t 0 \<noteq> {#}"
  then obtain c t' where g: "tTimerGetUserToResume t = Inr (Some c, t')" "timer_wf t'" "c \<in># due t 0"
      "due t' = (due t)(0 := due t 0 - {#c#})" "tableClosed t' = tableClosed t"
      "tTimerCircularTableSize t' = tTimerCircularTableSize t"
    using get_spec [of t] unfolding timer_inv_def by blast
  then have "timer_resume t = Some (c, t')" "timer_inv t'"
    using inv by (simp_all add: timer_resume_def timer_inv_def)
  with g show "\<exists>c t'. timer_resume t = Some (c, t') \<and> timer_inv t'
      \<and> tTimerCircularTableSize t' - 1 = tTimerCircularTableSize t - 1 \<and> c \<in># due t 0
      \<and> due t' = (due t)(0 := due t 0 - {#c#})"
    by (intro exI [of _ c] exI [of _ t']) simp
next
  fix t :: "'c timer"
  assume "timer_inv t"
  from timer_top_spec [OF this] obtain t' where t': "tTimerTopTU (\<lambda>_. True) t = Some (Inr t')" "timer_inv t'"
    "tTimerCircularTableSize t' = tTimerCircularTableSize t"
    "due t' = (\<lambda>d. if d = 0 then due t 0 + due t 1 else due t (Suc d))"
    by blast
  then have "timer_top t = Some t'" by (simp add: timer_top_def)
  with t' show "\<exists>t'. timer_top t = Some t' \<and> timer_inv t'
      \<and> tTimerCircularTableSize t' - 1 = tTimerCircularTableSize t - 1
      \<and> due t' = (\<lambda>d. if d = 0 then due t 0 + due t 1 else due t (Suc d))"
    by (intro exI [of _ t']) simp
qed

subsection \<open>Closing the table\<close>

lemma drain_slot_rev: "drain_slot xs first = rev xs @ first"
  by (induction xs first rule: drain_slot.induct) auto

lemma close_loop_result:
  "n \<le> length tab \<Longrightarrow>
     close_loop n tab first = (replicate n [] @ drop n tab, concat (map rev (take n tab)) @ first)"
proof (induction n arbitrary: tab first)
  case (Suc n)
  then have "close_loop n (tab[n := []]) (rev (tab ! n) @ first) =
      (replicate n [] @ drop n (tab[n := []]), concat (map rev (take n tab)) @ rev (tab ! n) @ first)"
    by simp
  moreover have "drop n (tab[n := []]) = [] # drop (Suc n) tab"
    using Suc.prems by (simp add: Cons_nth_drop_Suc [symmetric])
  moreover have "take (Suc n) tab = take n tab @ [tab ! n]"
    using Suc.prems by (simp add: take_Suc_conv_app_nth)
  ultimately show ?case
    by (simp add: drain_slot_rev replicate_append_same)
qed simp

lemma tTimerClose_result:
  assumes "timer_wf t"
  shows "tTimerClose t = Inr (t\<lparr>
      tTimerCircularTable := (replicate (tTimerCircularTableSize t) [])[0 := concat (map rev (tTimerCircularTable t))],
      currentIndex := 0, tableClosed := True\<rparr>)"
  using assms by (auto simp: tTimerClose_def close_loop_result timer_wf_def)

lemma mset_concat_rev: "mset (concat (map rev xss)) = sum_list (map mset xss)"
  by (induction xss) auto

lemma close_spec:
  assumes "timer_wf t"
  obtains t' where "tTimerClose t = Inr t'" "timer_wf t'" "tableClosed t'" "currentIndex t' = 0"
    "tTimerCircularTableSize t' = tTimerCircularTableSize t"
    "due t' = (\<lambda>d. if d = 0 then sleeping t else {#})" "sleeping t' = sleeping t"
proof -
  let ?n = "tTimerCircularTableSize t"
  let ?tab = "(replicate ?n [])[0 := concat (map rev (tTimerCircularTable t))]"
  let ?t = "t\<lparr>tTimerCircularTable := ?tab, currentIndex := 0, tableClosed := True\<rparr>"
  have n: "0 < ?n" using assms by (auto simp: timer_wf_def)
  have "due ?t = (\<lambda>d. if d = 0 then sleeping t else {#})"
    using n by (auto simp: due_def fun_eq_iff sleeping_def mset_concat_rev nth_list_update)
  moreover have "sleeping ?t = sleeping t"
    using sum_list_mset_update [of 0 "replicate ?n []" "concat (map rev (tTimerCircularTable t))"] n
    by (simp add: sleeping_def mset_concat_rev sum_list_replicate)
  ultimately show thesis
    using assms n by (intro that [of ?t]) (simp_all add: tTimerClose_result timer_wf_def)
qed

subsection \<open>Properties\<close>

abbreviation timer4 :: "nat timer" where
  "timer4 \<equiv> snd (tTimerInit True True 4 timer0)"

lemma timer4_inv: "timer_inv timer4"
  by (simp add: tTimerInit_def timer0_def timer_inv_def timer_wf_def)

definition resume_next :: "'c list \<times> 'c timer \<Rightarrow> ('c list \<times> 'c timer) option" where
  "resume_next = (\<lambda>(l, t). map_option (\<lambda>(c, t). (l @ [c], t)) (timer_resume t))"

lemma timer_sleep_SomeD:
  "timer_sleep c d t = Some t' \<Longrightarrow> tTimerSetUserToSleep True (Some c) (int d) t = Inr (0, t')"
  by (auto simp: timer_sleep_def split: sum.splits prod.splits if_splits)

text \<open>
  C4. A context put to sleep for \<open>d\<close> time units (\<open>d\<close> below the table size) on an open table is
  accepted; after \<open>n\<close> calls of \<^verbatim>\<open>tTimerTopTU\<close>, all of which return, the contexts that are due are
  exactly those that were to sleep at most \<open>n\<close> units, and the new context is one of them iff
  \<open>d \<le> n\<close>: no context is resumed early, none is late, none is lost.
\<close>

theorem sleeper_due_on_time:
  assumes "timer_inv t" "d < tTimerCircularTableSize t"
  shows "\<exists>t1 t2. tTimerSetUserToSleep True (Some c) (int d) t = Inr (0, t1)
     \<and> iter_opt n timer_top t1 = Some t2 \<and> timer_inv t2
     \<and> due t2 0 = (\<Sum>j\<le>n. due t j) + (if d \<le> n then {#c#} else {#})"
proof -
  have "d \<le> tTimerCircularTableSize t - 1" using assms(2) by simp
  from timer.sleep_then_due [OF assms(1) this, of c n] show ?thesis
    by (blast dest: timer_sleep_SomeD)
qed

theorem sleeper_due_on_time_witness:
  "timer_inv timer4 \<and> (3::nat) < tTimerCircularTableSize timer4
   \<and> (\<exists>t1 t2. tTimerSetUserToSleep True (Some 7) (int 3) timer4 = Inr (0, t1)
     \<and> iter_opt 3 timer_top t1 = Some t2 \<and> timer_inv t2
     \<and> due t2 0 = (\<Sum>j\<le>3. due timer4 j) + (if (3::nat) \<le> 3 then {#7#} else {#}))"
proof -
  have "3 < tTimerCircularTableSize timer4" by (simp add: tTimerInit_def timer0_def)
  from timer4_inv this sleeper_due_on_time [OF timer4_inv this, of 7 3] show ?thesis by blast
qed

text \<open>
  C30. \<^verbatim>\<open>tTimerTopTU\<close> returns on every well-formed open table of at least two slots: its loop
  runs once per context left in the current slot and stops. It implements the abstract step of a
  sleep queue: what was due stays due, and every other context is one unit nearer.
\<close>

theorem tTimerTopTU_returns:
  assumes "timer_inv t"
  shows "\<exists>t'. tTimerTopTU (\<lambda>_. True) t = Some (Inr t') \<and> timer_inv t' \<and> sleeping t' = sleeping t
     \<and> (\<exists>t1. top_loop (\<lambda>_. True) 0 t = Some (Inr (size (due t 0), t1)))
     \<and> due t' = (\<lambda>d. if d = 0 then due t 0 + due t 1 else due t (Suc d))"
proof -
  have "timer_wf t" "\<not> tableClosed t" "2 \<le> tTimerCircularTableSize t"
    using assms by (simp_all add: timer_inv_def)
  from top_loop_result [OF this, of "\<lambda>_. True" 0]
  have "\<exists>t1. top_loop (\<lambda>_. True) 0 t = Some (Inr (size (due t 0), t1))" by auto
  note l = this
  show ?thesis by (rule timer_top_spec [OF assms]) (use l in blast)
qed

theorem tTimerTopTU_returns_witness:
  "timer_inv timer4 \<and> (\<exists>t'. tTimerTopTU (\<lambda>_. True) timer4 = Some (Inr t') \<and> timer_inv t'
     \<and> sleeping t' = sleeping timer4
     \<and> (\<exists>t1. top_loop (\<lambda>_. True) 0 timer4 = Some (Inr (size (due timer4 0), t1)))
     \<and> due t' = (\<lambda>d. if d = 0 then due timer4 0 + due timer4 1 else due timer4 (Suc d)))"
  using timer4_inv tTimerTopTU_returns [OF timer4_inv] by blast

text \<open>
  Asking for contexts to resume until \<^verbatim>\<open>tTimerGetUserToResume\<close> answers \<^verbatim>\<open>NULL\<close> yields each
  context that is due exactly as often as it was put there, and leaves the others untouched.
\<close>

theorem resume_until_null:
  assumes "timer_inv t"
  shows "\<exists>cs t'. mset cs = due t 0 \<and> iter_opt (length cs) resume_next ([], t) = Some (cs, t')
     \<and> timer_inv t' \<and> due t' = (due t)(0 := {#}) \<and> timer_resume t' = None"
  using timer.resume_all [OF assms, of "[]"] unfolding resume_next_def by auto

theorem resume_until_null_witness:
  "timer_inv timer4 \<and> (\<exists>cs t'. mset cs = due timer4 0
     \<and> iter_opt (length cs) resume_next ([], timer4) = Some (cs, t')
     \<and> timer_inv t' \<and> due t' = (due timer4)(0 := {#}) \<and> timer_resume t' = None)"
  using timer4_inv resume_until_null [OF timer4_inv] by blast

text \<open>
  \<^verbatim>\<open>tTimerClose\<close> moves every sleeping context to slot 0 and closes the table. The order is
  the slot number counted from 0, whatever \<^verbatim>\<open>currentIndex\<close> is, and inside a slot the order of
  arrival (a slot is a stack, and it is reversed).
\<close>

theorem tTimerClose_order:
  assumes "timer_wf t"
  shows "\<exists>t'. tTimerClose t = Inr t' \<and> timer_wf t' \<and> tableClosed t' \<and> currentIndex t' = 0
     \<and> tTimerCircularTable t' ! 0 = concat (map rev (tTimerCircularTable t))
     \<and> due t' = (\<lambda>d. if d = 0 then sleeping t else {#})"
proof -
  obtain t' where t': "tTimerClose t = Inr t'" "timer_wf t'" "tableClosed t'" "currentIndex t' = 0"
    "due t' = (\<lambda>d. if d = 0 then sleeping t else {#})"
    by (rule close_spec [OF assms]) simp
  moreover have "tTimerCircularTable t' ! 0 = concat (map rev (tTimerCircularTable t))"
    using tTimerClose_result [OF assms] t'(1) assms by (auto simp: timer_wf_def)
  ultimately show ?thesis by blast
qed

abbreviation timer3 :: "nat timer" where
  "timer3 \<equiv> \<lparr>tTimerCircularTable = [[4, 3], [], [2]], tTimerCircularTableSize = 3, currentIndex = 2,
      tableClosed = False\<rparr>"

text \<open>Here \<open>currentIndex = 2\<close>: the context that is due first comes last.\<close>

theorem tTimerClose_order_witness:
  "timer_wf timer3 \<and> (\<exists>t'. tTimerClose timer3 = Inr t' \<and> tTimerCircularTable t' ! 0 = [3, 4, 2])"
  using tTimerClose_order [of timer3] by (auto simp: timer_wf_def)

end
