(* ===== verification/Tgen_TimerThreads.thy ===== *)
theory Tgen_TimerThreads
  imports Tgen_Timer
begin

section \<open>Threads sharing the sleep timer\<close>

text \<open>
  The interleavings of the threads that call \<^verbatim>\<open>ttimer.c\<close>. A step is a critical section of
  \<^verbatim>\<open>tTimerMutex\<close>, or what a thread reads before it takes the mutex: \<^verbatim>\<open>tTimerSetUserToSleep\<close>
  computes its delay from \<^verbatim>\<open>tableClosed\<close> before it locks, and \<^verbatim>\<open>tTimerTopTU\<close> releases the mutex
  between its test, each round of its loop and the final increment. Any number of workers
  (\<open>held\<close>, \<open>pushing\<close>), one thread in \<^verbatim>\<open>tTimerTopTU\<close> (\<open>tpc\<close>), and the main thread calling
  \<^verbatim>\<open>tTimerClose\<close>. Memory allocation succeeds.
\<close>

subsection \<open>Steps\<close>

datatype 'c top_pc = TIdle | TLoop | THold 'c | TPush 'c int | TAdv

record 'c tsys =
  tm :: "'c timer"
  held :: "'c multiset"
  pushing :: "('c \<times> int) multiset"
  tpc :: "'c top_pc"

definition top_ctx :: "'c top_pc \<Rightarrow> 'c multiset" where
  "top_ctx p = (case p of THold c \<Rightarrow> {#c#} | TPush c d \<Rightarrow> {#c#} | _ \<Rightarrow> {#})"

definition all_ctx :: "'c tsys \<Rightarrow> 'c multiset" where
  "all_ctx s = sleeping (tm s) + held s + image_mset fst (pushing s) + top_ctx (tpc s)"

inductive tstep :: "'c tsys \<Rightarrow> 'c tsys \<Rightarrow> bool" where
  w_new: "c \<notin># all_ctx s \<Longrightarrow> tstep s (s\<lparr>held := add_mset c (held s)\<rparr>)"
| w_free: "c \<in># held s \<Longrightarrow> tstep s (s\<lparr>held := held s - {#c#}\<rparr>)"
| w_resume: "tTimerGetUserToResume (tm s) = Inr (Some c, t) \<Longrightarrow>
    tstep s (s\<lparr>tm := t, held := add_mset c (held s)\<rparr>)"
| w_enter: "c \<in># held s \<Longrightarrow> 0 \<le> nb \<Longrightarrow> nb < int (tTimerCircularTableSize (tm s)) \<Longrightarrow>
    tstep s (s\<lparr>held := held s - {#c#}, pushing := add_mset (c, sleep_delay nb (tm s)) (pushing s)\<rparr>)"
| w_push: "(c, d) \<in># pushing s \<Longrightarrow> timer_push True c d (tm s) = Inr (0, t) \<Longrightarrow>
    tstep s (s\<lparr>tm := t, pushing := pushing s - {#(c, d)#}\<rparr>)"
| t_start: "tpc s = TIdle \<Longrightarrow> \<not> tableClosed (tm s) \<Longrightarrow> tstep s (s\<lparr>tpc := TLoop\<rparr>)"
| t_get: "tpc s = TLoop \<Longrightarrow> tTimerGetUserToResume (tm s) = Inr (Some c, t) \<Longrightarrow>
    tstep s (s\<lparr>tm := t, tpc := THold c\<rparr>)"
| t_end: "tpc s = TLoop \<Longrightarrow> tTimerGetUserToResume (tm s) = Inr (None, t) \<Longrightarrow>
    tstep s (s\<lparr>tm := t, tpc := TAdv\<rparr>)"
| t_enter: "tpc s = THold c \<Longrightarrow> 1 < tTimerCircularTableSize (tm s) \<Longrightarrow>
    tstep s (s\<lparr>tpc := TPush c (sleep_delay 1 (tm s))\<rparr>)"
| t_push: "tpc s = TPush c d \<Longrightarrow> timer_push True c d (tm s) = Inr (0, t) \<Longrightarrow>
    tstep s (s\<lparr>tm := t, tpc := TLoop\<rparr>)"
| t_adv: "tpc s = TAdv \<Longrightarrow> timer_advance (tm s) = Inr t \<Longrightarrow> tstep s (s\<lparr>tm := t, tpc := TIdle\<rparr>)"
| m_close: "tTimerClose (tm s) = Inr t \<Longrightarrow> tstep s (s\<lparr>tm := t\<rparr>)"

inductive_cases tstep_cases: "tstep s s'"

definition tsys0 :: "int \<Rightarrow> 'c tsys" where
  "tsys0 n = \<lparr>tm = snd (tTimerInit True True n timer0), held = {#}, pushing = {#}, tpc = TIdle\<rparr>"

definition delays_ok :: "'c tsys \<Rightarrow> bool" where
  "delays_ok s \<longleftrightarrow> (\<forall>(c, d) \<in># pushing s. 0 \<le> d \<and> d < int (tTimerCircularTableSize (tm s)))
     \<and> (case tpc s of TPush c d \<Rightarrow> 0 \<le> d \<and> d < int (tTimerCircularTableSize (tm s)) | _ \<Rightarrow> True)"

definition tsys_inv :: "'c tsys \<Rightarrow> bool" where
  "tsys_inv s \<longleftrightarrow> timer_wf (tm s) \<and> 2 \<le> tTimerCircularTableSize (tm s) \<and> delays_ok s
     \<and> (\<forall>c. count (all_ctx s) c \<le> 1)"

subsection \<open>The invariant\<close>

lemma get_Some_spec:
  assumes "timer_wf t" "tTimerGetUserToResume t = Inr (Some c, t')"
  shows "timer_wf t' \<and> sleeping t = add_mset c (sleeping t') \<and> tableClosed t' = tableClosed t
     \<and> tTimerCircularTableSize t' = tTimerCircularTableSize t \<and> currentIndex t' = currentIndex t
     \<and> due t' = (due t)(0 := due t 0 - {#c#}) \<and> c \<in># due t 0"
  using get_spec [OF assms(1)] assms(2) by auto

lemma get_None_spec:
  assumes "timer_wf t" "tTimerGetUserToResume t = Inr (None, t')"
  shows "t' = t \<and> due t 0 = {#}"
  using get_spec [OF assms(1)] assms(2) by auto

lemma push_Inr_spec:
  assumes "timer_wf t" "0 \<le> d" "d < int (tTimerCircularTableSize t)" "timer_push True c d t = Inr (0, t')"
  shows "timer_wf t' \<and> sleeping t' = add_mset c (sleeping t) \<and> tableClosed t' = tableClosed t
     \<and> tTimerCircularTableSize t' = tTimerCircularTableSize t \<and> currentIndex t' = currentIndex t
     \<and> due t' = (due t)(nat d := add_mset c (due t (nat d)))"
  by (rule push_spec [OF assms(1-3), of c]) (use assms(4) in auto)

lemma advance_Inr_spec:
  assumes "timer_wf t" "timer_advance t = Inr t'"
  shows "timer_wf t' \<and> sleeping t' = sleeping t \<and> tableClosed t' = tableClosed t
     \<and> tTimerCircularTableSize t' = tTimerCircularTableSize t"
  using assms by (auto simp: timer_advance_def timer_wf_def sleeping_def split: if_splits)

lemma close_Inr_spec:
  assumes "timer_wf t" "tTimerClose t = Inr t'"
  shows "timer_wf t' \<and> sleeping t' = sleeping t \<and> tableClosed t' \<and> currentIndex t' = 0
     \<and> tTimerCircularTableSize t' = tTimerCircularTableSize t
     \<and> due t' = (\<lambda>d. if d = 0 then sleeping t else {#})"
  by (rule close_spec [OF assms(1)]) (use assms(2) in auto)

lemmas timer_op_specs = get_Some_spec get_None_spec push_Inr_spec advance_Inr_spec close_Inr_spec

lemma sleep_delay_range:
  "0 \<le> nb \<Longrightarrow> nb < int n \<Longrightarrow> 0 \<le> sleep_delay nb t \<and> sleep_delay nb t < int n"
  by (auto simp: sleep_delay_def)

text \<open>Who owns which context: only \<open>w_new\<close> adds a context and only \<open>w_free\<close> removes one.\<close>

lemma delays_okD:
  "delays_ok s \<Longrightarrow> (c, d) \<in># pushing s \<Longrightarrow> 0 \<le> d \<and> d < int (tTimerCircularTableSize (tm s))"
  "delays_ok s \<Longrightarrow> tpc s = TPush c d \<Longrightarrow> 0 \<le> d \<and> d < int (tTimerCircularTableSize (tm s))"
  by (auto simp: delays_ok_def)

lemma delays_ok_tm:
  "tTimerCircularTableSize t = tTimerCircularTableSize (tm s) \<Longrightarrow> delays_ok (s\<lparr>tm := t\<rparr>) = delays_ok s"
  by (auto simp: delays_ok_def split: top_pc.splits)

lemma delays_ok_remove: "delays_ok s \<Longrightarrow> delays_ok (s\<lparr>pushing := pushing s - M\<rparr>)"
  by (auto simp: delays_ok_def split: top_pc.splits dest: in_diffD)

lemma tstep_all_ctx:
  assumes "tstep s s'" "timer_wf (tm s)" "delays_ok s"
  shows "all_ctx s' = all_ctx s \<or> (\<exists>c. c \<notin># all_ctx s \<and> all_ctx s' = add_mset c (all_ctx s))
     \<or> (\<exists>c. all_ctx s = add_mset c (all_ctx s'))"
  using assms(1)
proof (cases rule: tstep.cases)
  case (w_new c)
  then show ?thesis by (simp add: all_ctx_def)
next
  case (w_free c)
  then show ?thesis by (auto simp: all_ctx_def dest!: multi_member_split)
next
  case (w_resume c t)
  then show ?thesis using get_Some_spec [OF assms(2), of c t] by (simp add: all_ctx_def)
next
  case (w_enter c nb)
  then show ?thesis by (auto simp: all_ctx_def dest!: multi_member_split)
next
  case (w_push c d t)
  then have "sleeping t = add_mset c (sleeping (tm s))"
    using assms push_Inr_spec [of "tm s" d c t] delays_okD(1) [of s c d] by auto
  with w_push show ?thesis by (auto simp: all_ctx_def dest!: multi_member_split)
next
  case (t_get c t)
  then show ?thesis using get_Some_spec [OF assms(2), of c t] by (simp add: all_ctx_def top_ctx_def)
next
  case (t_end t)
  then show ?thesis using get_None_spec [OF assms(2), of t] by (simp add: all_ctx_def top_ctx_def)
next
  case (t_push c d t)
  then have "sleeping t = add_mset c (sleeping (tm s))"
    using assms push_Inr_spec [of "tm s" d c t] delays_okD(2) [of s c d] by auto
  with t_push show ?thesis by (simp add: all_ctx_def top_ctx_def)
next
  case (t_adv t)
  then show ?thesis using advance_Inr_spec [OF assms(2), of t] by (simp add: all_ctx_def top_ctx_def)
next
  case (m_close t)
  then show ?thesis using close_Inr_spec [OF assms(2), of t] by (simp add: all_ctx_def top_ctx_def)
qed (simp_all add: all_ctx_def top_ctx_def)

lemma tstep_tm:
  assumes "tstep s s'" "timer_wf (tm s)" "delays_ok s"
  shows "timer_wf (tm s') \<and> tTimerCircularTableSize (tm s') = tTimerCircularTableSize (tm s)"
  using assms(1)
proof (cases rule: tstep.cases)
  case (w_push c d t)
  then show ?thesis
    using assms push_Inr_spec [of "tm s" d c t] delays_okD(1) [of s c d] by auto
next
  case (t_push c d t)
  then show ?thesis
    using assms push_Inr_spec [of "tm s" d c t] delays_okD(2) [of s c d] by auto
qed (use assms(2) in \<open>auto dest: get_Some_spec get_None_spec advance_Inr_spec close_Inr_spec\<close>)

lemma tstep_delays:
  assumes "tstep s s'" "timer_wf (tm s)" "delays_ok s" "2 \<le> tTimerCircularTableSize (tm s)"
  shows "delays_ok s'"
  using assms(1)
proof (cases rule: tstep.cases)
  case (w_push c d t)
  have "tTimerCircularTableSize t = tTimerCircularTableSize (tm s)"
    using tstep_tm [OF assms(1-3)] w_push by simp
  then have "delays_ok (s\<lparr>tm := t\<rparr>)" using assms(3) by (simp add: delays_ok_tm)
  from delays_ok_remove [OF this, of "{#(c, d)#}"] w_push show ?thesis by simp
next
  case (w_enter c nb)
  then show ?thesis using assms(3) sleep_delay_range [of nb "tTimerCircularTableSize (tm s)" "tm s"]
    by (auto simp: delays_ok_def split: top_pc.splits)
next
  case (t_enter c)
  then show ?thesis using assms(3) sleep_delay_range [of 1 "tTimerCircularTableSize (tm s)" "tm s"]
    by (auto simp: delays_ok_def)
qed (use assms(3) tstep_tm [OF assms(1-3)] in \<open>auto simp: delays_ok_def split: top_pc.splits\<close>)

lemma tsys_inv_step:
  assumes "tsys_inv s" "tstep s s'"
  shows "tsys_inv s'"
proof -
  have wf: "timer_wf (tm s)" "delays_ok s" "2 \<le> tTimerCircularTableSize (tm s)"
    and c1: "\<And>c. count (all_ctx s) c \<le> 1"
    using assms(1) by (auto simp: tsys_inv_def)
  have "count (all_ctx s') c \<le> 1" for c
    using tstep_all_ctx [OF assms(2) wf(1,2)]
  proof (elim disjE exE conjE)
    fix c' assume "c' \<notin># all_ctx s" "all_ctx s' = add_mset c' (all_ctx s)"
    then show ?thesis using c1 [of c] by (auto simp: not_in_iff)
  next
    fix c' assume "all_ctx s = add_mset c' (all_ctx s')"
    then show ?thesis using c1 [of c] by (auto split: if_splits)
  qed (use c1 in auto)
  then show ?thesis
    using tstep_tm [OF assms(2) wf(1,2)] tstep_delays [OF assms(2) wf] wf(3) by (auto simp: tsys_inv_def)
qed

lemma tsys_inv_init: "2 \<le> n \<Longrightarrow> tsys_inv (tsys0 n)"
  by (auto simp: tsys_inv_def tsys0_def tTimerInit_def timer0_def timer_wf_def delays_ok_def
      all_ctx_def sleeping_def top_ctx_def)

lemma tsys_inv_reachable: "tstep\<^sup>*\<^sup>* (tsys0 n) s \<Longrightarrow> 2 \<le> n \<Longrightarrow> tsys_inv s"
  by (induction rule: rtranclp_induct) (auto intro: tsys_inv_init tsys_inv_step)

subsection \<open>A table closed while no thread is inside a timer operation\<close>

definition closed_ok :: "'c tsys \<Rightarrow> bool" where
  "closed_ok s \<longleftrightarrow> tableClosed (tm s) \<and> tpc s = TIdle \<and> (\<forall>(c, d) \<in># pushing s. d = 0)
     \<and> timer_wf (tm s) \<and> due (tm s) 0 = sleeping (tm s)"

lemma closed_ok_step:
  assumes "closed_ok s" "tstep s s'"
  shows "closed_ok s'"
  using assms(2,1)
proof (cases rule: tstep.cases)
  case (w_push c d t)
  then have "d = 0" "0 < tTimerCircularTableSize (tm s)"
    using assms(1) by (auto simp: closed_ok_def timer_wf_def)
  then show ?thesis
    using assms(1) w_push push_Inr_spec [of "tm s" d c t] by (auto simp: closed_ok_def dest: in_diffD)
next
  case (w_resume c t)
  then show ?thesis
    using assms(1) get_Some_spec [of "tm s" c t] by (auto simp: closed_ok_def)
next
  case (m_close t)
  then show ?thesis
    using assms(1) close_Inr_spec [of "tm s" t] by (auto simp: closed_ok_def)
qed (auto simp: closed_ok_def sleep_delay_def)

lemma closed_ok_reachable: "tstep\<^sup>*\<^sup>* s s' \<Longrightarrow> closed_ok s \<Longrightarrow> closed_ok s'"
  by (induction rule: rtranclp_induct) (auto intro: closed_ok_step)

lemma resume_when_due:
  "timer_wf t \<Longrightarrow> due t 0 = sleeping t \<Longrightarrow> sleeping t \<noteq> {#} \<Longrightarrow>
     \<exists>c t'. tTimerGetUserToResume t = Inr (Some c, t')"
  using get_spec [of t] by auto

subsection \<open>Properties\<close>



text \<open>
  C29. If the table is closed while no thread is inside \<^verbatim>\<open>tTimerSetUserToSleep\<close> or
  \<^verbatim>\<open>tTimerTopTU\<close>, then in every later state every sleeping context is due now: as long as one
  sleeps, \<^verbatim>\<open>tTimerGetUserToResume\<close> returns a context.
\<close>

theorem quiescent_close_resumes_all:
  assumes "timer_wf (tm s)" "pushing s = {#}" "tpc s = TIdle" "tTimerClose (tm s) = Inr t"
    and "tstep\<^sup>*\<^sup>* (s\<lparr>tm := t\<rparr>) s'" "sleeping (tm s') \<noteq> {#}"
  shows "due (tm s') 0 = sleeping (tm s') \<and> (\<exists>c t'. tTimerGetUserToResume (tm s') = Inr (Some c, t'))"
proof -
  have "closed_ok (s\<lparr>tm := t\<rparr>)"
    using assms(2,3) close_Inr_spec [OF assms(1,4)] by (simp add: closed_ok_def)
  with assms(5) have "closed_ok s'" by (rule closed_ok_reachable)
  with assms(6) show ?thesis using resume_when_due [of "tm s'"] by (simp add: closed_ok_def)
qed

abbreviation sys1 :: "nat tsys" where
  "sys1 \<equiv> \<lparr>tm = \<lparr>tTimerCircularTable = [[], [5]], tTimerCircularTableSize = 2, currentIndex = 0,
      tableClosed = False\<rparr>, held = {#}, pushing = {#}, tpc = TIdle\<rparr>"

abbreviation tab1 :: "nat timer" where
  "tab1 \<equiv> \<lparr>tTimerCircularTable = [[5], []], tTimerCircularTableSize = 2, currentIndex = 0, tableClosed = True\<rparr>"

theorem quiescent_close_resumes_all_witness:
  "timer_wf (tm sys1) \<and> tTimerClose (tm sys1) = Inr tab1 \<and> sleeping (tm (sys1\<lparr>tm := tab1\<rparr>)) \<noteq> {#}
   \<and> (\<exists>c t'. tTimerGetUserToResume (tm (sys1\<lparr>tm := tab1\<rparr>)) = Inr (Some c, t'))"
proof -
  have a: "timer_wf (tm sys1)" "tTimerClose (tm sys1) = Inr tab1" "sleeping (tm (sys1\<lparr>tm := tab1\<rparr>)) \<noteq> {#}"
    by (simp_all add: timer_wf_def tTimerClose_def numeral_2_eq_2 sleeping_def)
  with quiescent_close_resumes_all [OF a(1) _ _ a(2) _ a(3)] show ?thesis by simp
qed

abbreviation sleeper_sys :: "nat timer \<Rightarrow> nat top_pc \<Rightarrow> nat tsys" where
  "sleeper_sys t p \<equiv> \<lparr>tm = t, held = {#}, pushing = {#}, tpc = p\<rparr>"

abbreviation tab2 :: "nat list list \<Rightarrow> nat \<Rightarrow> bool \<Rightarrow> nat timer" where
  "tab2 tab i c \<equiv> \<lparr>tTimerCircularTable = tab, tTimerCircularTableSize = 2, currentIndex = i, tableClosed = c\<rparr>"

lemma sleeper_reached: "tstep\<^sup>*\<^sup>* (tsys0 2) (sleeper_sys (tab2 [[], [5]] 0 False) TIdle)"
proof -
  let ?t0 = "tab2 [[], []] 0 False"
  have s0: "tsys0 2 = sleeper_sys ?t0 TIdle"
    by (simp add: tsys0_def tTimerInit_def timer0_def numeral_2_eq_2)
  have "tstep (tsys0 2) \<lparr>tm = ?t0, held = {#5#}, pushing = {#}, tpc = TIdle\<rparr>"
    using w_new [of "5::nat" "tsys0 2"] by (simp add: s0 all_ctx_def sleeping_def top_ctx_def)
  moreover have "tstep \<dots> \<lparr>tm = ?t0, held = {#}, pushing = {#(5, 1)#}, tpc = TIdle\<rparr>"
    using w_enter [of 5 "\<lparr>tm = ?t0, held = {#5#}, pushing = {#}, tpc = TIdle\<rparr>" 1]
    by (simp add: sleep_delay_def)
  moreover have "tstep \<dots> (sleeper_sys (tab2 [[], [5]] 0 False) TIdle)"
    using w_push [of 5 1 "\<lparr>tm = ?t0, held = {#}, pushing = {#(5, 1)#}, tpc = TIdle\<rparr>" "tab2 [[], [5]] 0 False"]
    by (simp add: timer_push_def Let_def)
  ultimately show ?thesis by (meson converse_rtranclp_into_rtranclp rtranclp.rtrancl_refl)
qed

lemma stranding_steps:
  "tstep\<^sup>*\<^sup>* (sleeper_sys (tab2 [[], [5]] 0 False) TIdle) (sleeper_sys (tab2 [[5], []] 1 True) TIdle)"
proof -
  have "tstep (sleeper_sys (tab2 [[], [5]] 0 False) TIdle) (sleeper_sys (tab2 [[], [5]] 0 False) TLoop)"
    using t_start [of "sleeper_sys (tab2 [[], [5]] 0 False) TIdle"] by simp
  moreover have "tstep \<dots> (sleeper_sys (tab2 [[], [5]] 0 False) TAdv)"
    using t_end [of "sleeper_sys (tab2 [[], [5]] 0 False) TLoop"] by (simp add: tTimerGetUserToResume_def)
  moreover have "tstep \<dots> (sleeper_sys (tab2 [[5], []] 0 True) TAdv)"
    using m_close [of "sleeper_sys (tab2 [[], [5]] 0 False) TAdv"] by (simp add: tTimerClose_def numeral_2_eq_2)
  moreover have "tstep \<dots> (sleeper_sys (tab2 [[5], []] 1 True) TIdle)"
    using t_adv [of "sleeper_sys (tab2 [[5], []] 0 True) TAdv"] by (simp add: timer_advance_def)
  ultimately show ?thesis by (meson converse_rtranclp_into_rtranclp rtranclp.rtrancl_refl)
qed

text \<open>
  C38. Without that condition a context can be stranded. \<^verbatim>\<open>tTimerTopTU\<close> tests \<^verbatim>\<open>tableClosed\<close>,
  releases the mutex, and increments \<^verbatim>\<open>currentIndex\<close> later: with \<^verbatim>\<open>tTimerClose\<close> in between, the
  table is closed, no thread is inside a timer operation, the context sleeps in slot 0, and
  \<^verbatim>\<open>tTimerGetUserToResume\<close> finds nothing in the current slot 1, now and after any number of
  \<^verbatim>\<open>tTimerTopTU\<close>.
\<close>

theorem close_race_strands_context:
  "\<exists>s. tstep\<^sup>*\<^sup>* (tsys0 2 :: nat tsys) s \<and> tableClosed (tm s) \<and> tpc s = TIdle \<and> pushing s = {#} \<and> held s = {#}
     \<and> sleeping (tm s) = {#5#} \<and> tTimerGetUserToResume (tm s) = Inr (None, tm s)
     \<and> iter_opt n timer_top (tm s) = Some (tm s)"
proof (intro exI conjI)
  show "tstep\<^sup>*\<^sup>* (tsys0 2) (sleeper_sys (tab2 [[5], []] 1 True) TIdle)"
    using sleeper_reached stranding_steps by (rule rtranclp_trans)
  show "iter_opt n timer_top (tm (sleeper_sys (tab2 [[5], []] 1 True) TIdle))
      = Some (tm (sleeper_sys (tab2 [[5], []] 1 True) TIdle))"
    by (induction n) (simp_all add: timer_top_def tTimerTopTU_def)
qed (simp_all add: sleeping_def tTimerGetUserToResume_def)

end
