(* ===== verification/Tgen_Profile.thy ===== *)
theory Tgen_Profile
  imports Tgen_Prelude
begin

section \<open>The configuration reader (Src/profile.c)\<close>

text \<open>
  Reading of \<^verbatim>\<open>.ini\<close> files: line stripping, inclusion of other files, the cache of the last file
  read, lookup of a key in a section, and the typed accessors. The file system (file name to
  contents) and the environment are parameters. The depth of nested inclusions is bounded by a
  fuel that stands for the stack: running out of it is \<^const>\<open>StackOverflow\<close>.
\<close>

subsection \<open>Lines\<close>

definition MAX_LINE_LENGTH :: nat where "MAX_LINE_LENGTH = 8192"

definition MAX_FIELNAME_LENGTH :: nat where "MAX_FIELNAME_LENGTH = 128"

definition is_comment :: "char \<Rightarrow> bool" where
  "is_comment c \<longleftrightarrow> c = CHR '';'' \<or> c = CHR ''#''"

definition StripWS :: "string \<Rightarrow> string" where
  "StripWS line = rstrip (takeWhile (\<lambda>c. \<not> is_comment c) (lstrip line))"

text \<open>The buffer \<^verbatim>\<open>line\<close> itself after \<^verbatim>\<open>StripWS(line)\<close>: the blanks before the result are still there.\<close>

definition strip_buffer :: "string \<Rightarrow> string" where
  "strip_buffer line = takeWhile isspace line @ StripWS line"

definition StripClose :: "string \<Rightarrow> string" where
  "StripClose line = rev (dropWhile (\<lambda>c. c = CHR '']'') (rev line))"

text \<open>\<^verbatim>\<open>fgets(line, n + 1, fp)\<close> on the unread part of a file, and a loop of such calls up to the end.\<close>

definition fgets :: "nat \<Rightarrow> string \<Rightarrow> string \<times> string" where
  "fgets n s =
     (let l = takeWhile (\<lambda>c. c \<noteq> nl) s;
          len = (if length l < length s then length l + 1 else length l)
      in (take (min n len) s, drop (min n len) s))"

lemma fgets_shorter: "s \<noteq> [] \<Longrightarrow> 0 < n \<Longrightarrow> length (snd (fgets n s)) < length s"
proof -
  assume a: "s \<noteq> []" "0 < n"
  define len where "len = (if length (takeWhile (\<lambda>c. c \<noteq> nl) s) < length s
    then length (takeWhile (\<lambda>c. c \<noteq> nl) s) + 1 else length (takeWhile (\<lambda>c. c \<noteq> nl) s))"
  have "0 < length s" using a(1) by simp
  then have "0 < len" unfolding len_def by (auto simp: not_less)
  moreover have "snd (fgets n s) = drop (min n len) s" by (simp add: fgets_def Let_def len_def)
  ultimately show ?thesis using a by simp
qed

function fgets_all :: "nat \<Rightarrow> string \<Rightarrow> string list" where
  "fgets_all n s = (if s = [] \<or> n = 0 then [] else fst (fgets n s) # fgets_all n (snd (fgets n s)))"
  by pat_completeness auto
termination
  by (relation "measure (\<lambda>(n, s). length s)") (auto simp: fgets_shorter)

declare fgets_all.simps [simp del]

subsection \<open>File names\<close>

text \<open>\<^verbatim>\<open>expenv\<close>: \<^verbatim>\<open>$NAME\<close> up to the next \<^verbatim>\<open>/\<close> is replaced by the environment variable; \<open>tmp\<close> has 256 bytes.\<close>

function expenv_loop :: "(string \<Rightarrow> string option) \<Rightarrow> string \<Rightarrow> string \<Rightarrow> string result" where
  "expenv_loop getenv p out =
     (if CHR ''$'' \<notin> set p then Inr (out @ p)
      else (let r = dropWhile (\<lambda>c. c \<noteq> CHR ''$'') p;
                name = takeWhile (\<lambda>c. c \<noteq> CHR ''/'') (tl r);
                q = dropWhile (\<lambda>c. c \<noteq> CHR ''/'') (tl r);
                out1 = out @ takeWhile (\<lambda>c. c \<noteq> CHR ''$'') p
            in if 256 \<le> length name then Inl BufferOverflow
               else expenv_loop getenv q (case getenv name of None \<Rightarrow> out1 | Some v \<Rightarrow> out1 @ v)))"
  by pat_completeness auto

lemma after_dollar_shorter:
  "CHR ''$'' \<in> set p \<Longrightarrow>
     length (dropWhile (\<lambda>c. c \<noteq> CHR ''/'') (tl (dropWhile (\<lambda>c. c \<noteq> CHR ''$'') p))) < length p"
proof -
  assume "CHR ''$'' \<in> set p"
  then have "dropWhile (\<lambda>c. c \<noteq> CHR ''$'') p \<noteq> []" by (auto simp: dropWhile_eq_Nil_conv)
  then have "length (tl (dropWhile (\<lambda>c. c \<noteq> CHR ''$'') p)) < length (dropWhile (\<lambda>c. c \<noteq> CHR ''$'') p)"
    by simp
  also have "\<dots> \<le> length p" by (rule length_dropWhile_le)
  finally show ?thesis using length_dropWhile_le le_less_trans by blast
qed

termination expenv_loop
  by (relation "measure (\<lambda>(g, p, out). length p)") (auto simp: after_dollar_shorter)

declare expenv_loop.simps [simp del]

definition expenv :: "(string \<Rightarrow> string option) \<Rightarrow> string \<Rightarrow> string result" where
  "expenv getenv inp = expenv_loop getenv inp []"

text \<open>The outside world: the contents of the readable files and the environment variables.\<close>

record world =
  files :: "string \<Rightarrow> string option"
  getenv :: "string \<Rightarrow> string option"

definition fopenexp :: "world \<Rightarrow> string \<Rightarrow> string option result" where
  "fopenexp w fname =
     rbind (expenv (getenv w) fname)
       (\<lambda>exp_fname. if length exp_fname < 1024 then Inr (files w exp_fname) else Inl BufferOverflow)"

definition ProfileIniExist :: "world \<Rightarrow> string \<Rightarrow> bool result" where
  "ProfileIniExist w ini = rbind (fopenexp w ini) (\<lambda>f. Inr (f \<noteq> None))"

text \<open>\<^verbatim>\<open>dirname\<close> of the C library.\<close>

definition strip_slashes :: "string \<Rightarrow> string" where
  "strip_slashes s = rev (dropWhile (\<lambda>c. c = CHR ''/'') (rev s))"

definition dirname :: "string \<Rightarrow> string" where
  "dirname s =
     (let t = strip_slashes s
      in if t = [] then (if s = [] then ''.'' else ''/'')
         else if CHR ''/'' \<notin> set t then ''.''
         else (let d = strip_slashes (rev (dropWhile (\<lambda>c. c \<noteq> CHR ''/'') (rev t)))
               in if d = [] then ''/'' else d))"

subsection \<open>Loading a file\<close>

text \<open>The growing buffer \<^verbatim>\<open>buf\<close>: \<^verbatim>\<open>NULL\<close> until a line is stored.\<close>

definition store_line :: "string option \<Rightarrow> string \<Rightarrow> string option" where
  "store_line buf p = Some ((case buf of None \<Rightarrow> [] | Some b \<Rightarrow> b) @ p @ [nl])"

definition is_include :: "string \<Rightarrow> bool" where
  "is_include line \<longleftrightarrow> StripWS line \<noteq> [] \<and> hd (StripWS line) = CHR ''$''
     \<and> has_prefix ''$include '' (strip_buffer line)"

text \<open>
  The loop of \<^verbatim>\<open>GetIncludedFile\<close>. \<^verbatim>\<open>dirname(fname)\<close> overwrites \<open>fname\<close>, so the next inclusion of the
  same file starts from the shortened name.
\<close>

fun included_loop :: "(string \<Rightarrow> string \<Rightarrow> string option result) \<Rightarrow> string \<Rightarrow> string list \<Rightarrow> string option
    \<Rightarrow> string option result" where
  "included_loop inc fname [] buf = Inr buf"
| "included_loop inc fname (line # rest) buf =
     (if StripWS line = [] then included_loop inc fname rest buf
      else if is_include line then
        rbind (inc (dirname fname) (drop 9 (strip_buffer line)))
          (\<lambda>p. case p of None \<Rightarrow> Inl NullDeref
             | Some p \<Rightarrow> included_loop inc (dirname fname) rest (store_line buf p))
      else included_loop inc fname rest (store_line buf (StripWS line)))"

fun GetIncludedFile :: "nat \<Rightarrow> world \<Rightarrow> string \<Rightarrow> string \<Rightarrow> string option result" where
  "GetIncludedFile 0 w dir file = Inl StackOverflow"
| "GetIncludedFile (Suc depth) w dir file =
     (let fname = dir @ ''/'' @ file
      in if MAX_FIELNAME_LENGTH \<le> length fname then Inl BufferOverflow
         else rbind (fopenexp w fname)
           (\<lambda>fp. case fp of None \<Rightarrow> Inl (Exit 1)
              | Some contents \<Rightarrow>
                  included_loop (GetIncludedFile depth w) fname (fgets_all (MAX_LINE_LENGTH - 2) contents) None))"

text \<open>The loop of \<^verbatim>\<open>GetIniFile\<close>, which works on a copy of \<open>fname\<close>.\<close>

fun inifile_loop :: "(string \<Rightarrow> string \<Rightarrow> string option result) \<Rightarrow> string \<Rightarrow> string list \<Rightarrow> string option
    \<Rightarrow> string option result" where
  "inifile_loop inc fname [] buf = Inr buf"
| "inifile_loop inc fname (line # rest) buf =
     (if StripWS line = [] then inifile_loop inc fname rest buf
      else if is_include line then
        rbind (inc (dirname fname) (drop 9 (strip_buffer line)))
          (\<lambda>p. case p of None \<Rightarrow> Inl NullDeref
             | Some p \<Rightarrow> inifile_loop inc fname rest (store_line buf p))
      else inifile_loop inc fname rest (store_line buf (StripWS line)))"

definition load_ini :: "nat \<Rightarrow> world \<Rightarrow> string \<Rightarrow> string option result" where
  "load_ini depth w fname =
     rbind (fopenexp w fname)
       (\<lambda>fp. case fp of None \<Rightarrow> Inr None
          | Some contents \<Rightarrow>
              inifile_loop (GetIncludedFile depth w) fname (fgets_all (MAX_LINE_LENGTH - 2) contents) None)"

record ini_cache =
  ls_previousFile :: "string option"
  ls_cachedFile :: "string option"

definition GetIniFile :: "nat \<Rightarrow> world \<Rightarrow> string option \<Rightarrow> ini_cache \<Rightarrow> (string option \<times> ini_cache) result" where
  "GetIniFile depth w fname c =
     (case fname of
        None \<Rightarrow> Inr (None, c)
      | Some f \<Rightarrow>
          if ls_previousFile c = Some f then Inr (ls_cachedFile c, c)
          else rbind (load_ini depth w f)
            (\<lambda>d. Inr (d, \<lparr>ls_previousFile = Some f, ls_cachedFile = d\<rparr>)))"

subsection \<open>Lookup\<close>

text \<open>The next line of \<open>data\<close> and what follows it.\<close>

definition next_line :: "string \<Rightarrow> string \<times> string" where
  "next_line data = (takeWhile (\<lambda>c. c \<noteq> nl) data, tl (dropWhile (\<lambda>c. c \<noteq> nl) data))"

lemma next_line_shorter: "data \<noteq> [] \<Longrightarrow> length (snd (next_line data)) < length data"
  using length_dropWhile_le [of "\<lambda>c. c \<noteq> nl" data]
  by (cases data) (simp_all add: next_line_def less_Suc_eq_le split: if_splits)

text \<open>The loop of \<^verbatim>\<open>FindKey\<close>; \<open>Inr None\<close> is \<^verbatim>\<open>FALSE\<close>.\<close>

function find_key_loop :: "string \<Rightarrow> string \<Rightarrow> bool \<Rightarrow> string \<Rightarrow> string option result" where
  "find_key_loop section_test key inside_section data =
     (if data = [] then Inr None
      else (let line = fst (next_line data); rest = snd (next_line data); p = StripWS line
            in if MAX_LINE_LENGTH \<le> length line then Inl AssertFail
               else if p = [] then find_key_loop section_test key inside_section rest
               else if \<not> inside_section then
                 find_key_loop section_test key (hd p = CHR ''['' \<and> stricmp_eq p section_test) rest
               else if hd p = CHR ''['' then Inr None
               else (case strchr p (CHR ''='') of
                       None \<Rightarrow> find_key_loop section_test key inside_section rest
                     | Some test \<Rightarrow>
                         if stricmp_eq key (StripWS (takeWhile (\<lambda>c. c \<noteq> CHR ''='') p))
                         then Inr (Some (StripWS (tl test)))
                         else find_key_loop section_test key inside_section rest)))"
  by pat_completeness auto
termination
  by (relation "measure (\<lambda>(s, k, i, d). length d)") (auto simp: next_line_shorter)

declare find_key_loop.simps [simp del]

definition FindKey :: "string \<Rightarrow> string \<Rightarrow> string \<Rightarrow> string option result" where
  "FindKey data section_name key =
     (let section_test = ''['' @ section_name @ '']''
      in if MAX_LINE_LENGTH \<le> length section_test then Inl BufferOverflow
         else find_key_loop section_test key False data)"

definition GetString :: "nat \<Rightarrow> world \<Rightarrow> string option \<Rightarrow> string \<Rightarrow> string \<Rightarrow> ini_cache
    \<Rightarrow> (string option \<times> ini_cache) result" where
  "GetString depth w ini section_name key c =
     rbind (GetIniFile depth w ini c)
       (\<lambda>(data, c'). case data of None \<Rightarrow> Inr (None, c')
          | Some d \<Rightarrow> rbind (FindKey d section_name key) (\<lambda>v. Inr (v, c')))"

text \<open>
  The typed accessors, over the result of \<^verbatim>\<open>GetString\<close> for their file: \<open>ini section key\<close> is the
  value, or \<^term>\<open>None\<close> when \<^verbatim>\<open>GetString\<close> is \<^verbatim>\<open>FALSE\<close>.
\<close>

type_synonym ini = "string \<Rightarrow> string \<Rightarrow> string option"

definition ProfileGetString :: "ini \<Rightarrow> string \<Rightarrow> string \<Rightarrow> string option \<Rightarrow> nat \<Rightarrow> string option" where
  "ProfileGetString ini section_name key defvalue len =
     (case ini section_name key of
        Some v \<Rightarrow> Some (strncpy_buf len v)
      | None \<Rightarrow> map_option (strncpy_buf len) defvalue)"

definition ProfileGetInt :: "ini \<Rightarrow> string \<Rightarrow> string \<Rightarrow> int \<Rightarrow> int" where
  "ProfileGetInt ini section_name key defvalue =
     (case ini section_name key of
        Some v \<Rightarrow> if map tolower (take 2 v) = ''0x'' then to_int32 (strtol16 v) else atoi v
      | None \<Rightarrow> defvalue)"

definition ProfileGetShort :: "ini \<Rightarrow> string \<Rightarrow> string \<Rightarrow> int \<Rightarrow> int" where
  "ProfileGetShort ini section_name key defvalue =
     (ProfileGetInt ini section_name key defvalue + 2 ^ 15) mod 2 ^ 16 - 2 ^ 15"

definition ProfileGetBool :: "ini \<Rightarrow> string \<Rightarrow> string \<Rightarrow> bool \<Rightarrow> bool" where
  "ProfileGetBool ini section_name key defvalue =
     (case ini section_name key of
        Some v \<Rightarrow> stricmp_eq v ''true'' \<or> stricmp_eq v ''yes'' \<or> stricmp_eq v ''1''
      | None \<Rightarrow> defvalue)"

subsection \<open>Internet addresses\<close>

text \<open>
  One component of a dotted address: up to four characters before a dot or the end; \<^term>\<open>None\<close> when
  a character is not a digit.
\<close>

fun ip_component :: "string \<Rightarrow> string \<Rightarrow> (string \<times> string) option" where
  "ip_component buf [] = Some (buf, [])"
| "ip_component buf (c # s) =
     (if c = CHR ''.'' \<or> 4 \<le> length buf then Some (buf, c # s)
      else if \<not> isdigit c then None
      else ip_component (buf @ [c]) s)"

text \<open>
  The \<^verbatim>\<open>for\<close> loop; the string is \<^term>\<open>None\<close> once \<^verbatim>\<open>ip_str++\<close> has stepped over the terminating NUL,
  and what is read from there is indeterminate.
\<close>

fun ip_loop :: "nat \<Rightarrow> string option \<Rightarrow> 32 word \<Rightarrow> 32 word result" where
  "ip_loop 0 ip_str ipaddr = Inr ipaddr"
| "ip_loop (Suc n) None ipaddr = Inl Uninit"
| "ip_loop (Suc n) (Some ip_str) ipaddr =
     (case ip_component [] ip_str of
        None \<Rightarrow> Inr 0
      | Some (buf, rest) \<Rightarrow>
          if 4 \<le> length buf \<or> buf = [] then Inr 0
          else if atoi buf < 0 \<or> 255 < atoi buf then Inr 0
          else ip_loop n (case rest of [] \<Rightarrow> None | _ # t \<Rightarrow> Some t)
                 (or (push_bit 8 ipaddr) (word_of_int (atoi buf))))"

definition NetWorkIpAddrToUINT32 :: "string \<Rightarrow> 32 word result" where
  "NetWorkIpAddrToUINT32 ip_str = ip_loop 4 (Some ip_str) 0"

definition ProfileGetIpAddr :: "ini \<Rightarrow> string \<Rightarrow> string \<Rightarrow> string \<Rightarrow> 32 word result" where
  "ProfileGetIpAddr ini section_name key defvalue =
     NetWorkIpAddrToUINT32 (case ini section_name key of Some v \<Rightarrow> v | None \<Rightarrow> defvalue)"

subsection \<open>Enumeration of the sections\<close>

function enum_loop :: "(string \<Rightarrow> 'p \<Rightarrow> bool \<times> 'p) \<Rightarrow> string \<Rightarrow> 'p \<Rightarrow> (bool \<times> 'p) result" where
  "enum_loop enumproc data param =
     (if data = [] then Inr (True, param)
      else (let line = fst (next_line data); rest = snd (next_line data); p = StripWS line
            in if MAX_LINE_LENGTH \<le> length line then Inl AssertFail
               else if p = [] then enum_loop enumproc rest param
               else if hd p = CHR ''['' then
                 (let (ok, param') = enumproc (tl (StripClose p)) param
                  in if ok then enum_loop enumproc rest param' else Inr (False, param'))
               else enum_loop enumproc rest param))"
  by pat_completeness auto
termination
  by (relation "measure (\<lambda>(e, d, p). length d)") (auto simp: next_line_shorter)

declare enum_loop.simps [simp del]

definition ProfileEnumSections :: "nat \<Rightarrow> world \<Rightarrow> string option \<Rightarrow> (string \<Rightarrow> 'p \<Rightarrow> bool \<times> 'p) \<Rightarrow> 'p
    \<Rightarrow> ini_cache \<Rightarrow> ((bool \<times> 'p) \<times> ini_cache) result" where
  "ProfileEnumSections depth w ini enumproc param c =
     rbind (GetIniFile depth w ini c)
       (\<lambda>(data, c'). case data of None \<Rightarrow> Inr ((True, param), c')
          | Some d \<Rightarrow> rbind (enum_loop enumproc d param) (\<lambda>r. Inr (r, c')))"

subsection \<open>Reference semantics of a lookup\<close>

text \<open>
  What a lookup is meant to return: of the stripped non-empty lines, those after the first header
  of the section up to the next header; of these the first one with that key.
\<close>

function lines_of :: "string \<Rightarrow> string list" where
  "lines_of s = (if s = [] then [] else fst (next_line s) # lines_of (snd (next_line s)))"
  by pat_completeness auto
termination
  by (relation "measure length") (auto simp: next_line_shorter)

declare lines_of.simps [simp del]

definition clean_lines :: "string \<Rightarrow> string list" where
  "clean_lines data = filter (\<lambda>p. p \<noteq> []) (map StripWS (lines_of data))"

definition is_header :: "string \<Rightarrow> bool" where
  "is_header p \<longleftrightarrow> hd p = CHR ''[''"

definition header_of :: "string \<Rightarrow> string \<Rightarrow> bool" where
  "header_of section_name p \<longleftrightarrow> is_header p \<and> stricmp_eq p (''['' @ section_name @ '']'')"

definition line_has_key :: "string \<Rightarrow> string \<Rightarrow> bool" where
  "line_has_key key p \<longleftrightarrow> CHR ''='' \<in> set p \<and> stricmp_eq key (StripWS (takeWhile (\<lambda>c. c \<noteq> CHR ''='') p))"

definition line_value :: "string \<Rightarrow> string" where
  "line_value p = StripWS (tl (dropWhile (\<lambda>c. c \<noteq> CHR ''='') p))"

definition section_body :: "string \<Rightarrow> string list \<Rightarrow> string list" where
  "section_body section_name ls =
     takeWhile (\<lambda>p. \<not> is_header p) (drop 1 (dropWhile (\<lambda>p. \<not> header_of section_name p) ls))"

definition lookup_spec :: "string list \<Rightarrow> string \<Rightarrow> string \<Rightarrow> string option" where
  "lookup_spec ls section_name key =
     map_option line_value (List.find (line_has_key key) (section_body section_name ls))"

definition lines_ok :: "string \<Rightarrow> bool" where
  "lines_ok data \<longleftrightarrow> (\<forall>l \<in> set (lines_of data). length l < MAX_LINE_LENGTH)"

lemma lines_of_Nil [simp]: "lines_of [] = []"
  by (simp add: lines_of.simps)

lemma clean_lines_Nil [simp]: "clean_lines [] = []"
  by (simp add: clean_lines_def)

lemma lines_of_step:
  "data \<noteq> [] \<Longrightarrow> lines_of data = fst (next_line data) # lines_of (snd (next_line data))"
  by (subst lines_of.simps) simp

lemma lines_ok_step:
  "data \<noteq> [] \<Longrightarrow> lines_ok data \<longleftrightarrow> length (fst (next_line data)) < MAX_LINE_LENGTH \<and> lines_ok (snd (next_line data))"
  by (simp add: lines_ok_def lines_of_step)

lemma clean_lines_step:
  "data \<noteq> [] \<Longrightarrow> clean_lines data =
     (if StripWS (fst (next_line data)) = [] then [] else [StripWS (fst (next_line data))])
     @ clean_lines (snd (next_line data))"
  by (simp add: clean_lines_def lines_of_step)

lemma find_key_step:
  assumes "data \<noteq> []" "length (fst (next_line data)) < MAX_LINE_LENGTH"
  shows "find_key_loop st key inside data =
     (let p = StripWS (fst (next_line data)); rest = snd (next_line data)
      in if p = [] then find_key_loop st key inside rest
         else if \<not> inside then find_key_loop st key (is_header p \<and> stricmp_eq p st) rest
         else if is_header p then Inr None
         else if line_has_key key p then Inr (Some (line_value p))
         else find_key_loop st key inside rest)"
  using assms
  by (subst find_key_loop.simps) (simp add: Let_def is_header_def line_has_key_def line_value_def strchr_def)

lemma find_key_inside:
  "lines_ok data \<Longrightarrow> find_key_loop st key True data =
     Inr (map_option line_value (List.find (line_has_key key) (takeWhile (\<lambda>p. \<not> is_header p) (clean_lines data))))"
proof (induction data rule: lines_of.induct)
  case (1 data)
  show ?case
  proof (cases "data = []")
    case False
    then have "lines_ok (snd (next_line data))" "length (fst (next_line data)) < MAX_LINE_LENGTH"
      using 1(2) by (simp_all add: lines_ok_step)
    then show ?thesis
      using 1(1) False by (simp add: find_key_step clean_lines_step Let_def)
  qed (simp add: find_key_loop.simps)
qed

lemma find_key_outside:
  "lines_ok data \<Longrightarrow> find_key_loop (''['' @ section_name @ '']'') key False data =
     Inr (lookup_spec (clean_lines data) section_name key)"
proof (induction data rule: lines_of.induct)
  case (1 data)
  note IH = 1(1)
  show ?case
  proof (cases "data = []")
    case False
    let ?p = "StripWS (fst (next_line data))" and ?rest = "snd (next_line data)"
    have ok: "lines_ok ?rest" "length (fst (next_line data)) < MAX_LINE_LENGTH"
      using 1(2) False by (simp_all add: lines_ok_step)
    note step = find_key_step [OF False ok(2), of "''['' @ section_name @ '']''" key False]
    consider "?p = []" | "?p \<noteq> []" "header_of section_name ?p" | "?p \<noteq> []" "\<not> header_of section_name ?p"
      by blast
    then show ?thesis
    proof cases
      case 1
      then show ?thesis using step IH [OF False ok(1)] False by (simp add: clean_lines_step)
    next
      case 2
      then show ?thesis
        using step find_key_inside [OF ok(1)] False
        by (simp add: clean_lines_step header_of_def lookup_spec_def section_body_def)
    next
      case 3
      then have "\<not> (is_header ?p \<and> stricmp_eq ?p (''['' @ section_name @ '']''))"
        by (simp add: header_of_def)
      then have "find_key_loop (''['' @ section_name @ '']'') key False data
          = find_key_loop (''['' @ section_name @ '']'') key False ?rest"
        using step 3(1) by (simp only: Let_def if_False if_True not_False_eq_True)
      then show ?thesis
        using IH [OF False ok(1)] False 3
        by (simp add: clean_lines_step lookup_spec_def section_body_def)
    qed
  qed (simp add: find_key_loop.simps lookup_spec_def section_body_def)
qed

subsection \<open>What loading a file stores\<close>

text \<open>The buffer is a sequence of lines, each followed by a newline and short enough for \<^verbatim>\<open>FindKey\<close>.\<close>

definition line_ok :: "string \<Rightarrow> bool" where
  "line_ok l \<longleftrightarrow> nl \<notin> set l \<and> length l < MAX_LINE_LENGTH"

definition unlines :: "string list \<Rightarrow> string" where
  "unlines ls = concat (map (\<lambda>l. l @ [nl]) ls)"

lemma unlines_simps [simp]:
  "unlines [] = []" "unlines (l # ls) = l @ nl # unlines ls" "unlines (ls @ ls') = unlines ls @ unlines ls'"
  by (simp_all add: unlines_def)

lemma next_line_app [simp]: "nl \<notin> set l \<Longrightarrow> next_line (l @ nl # rest) = (l, rest)"
proof -
  assume "nl \<notin> set l"
  then have "\<And>x. x \<in> set l \<Longrightarrow> x \<noteq> nl" by auto
  then show ?thesis
    by (simp add: next_line_def takeWhile_append2 dropWhile_append2)
qed

lemma lines_of_unlines: "list_all (\<lambda>l. nl \<notin> set l) ls \<Longrightarrow> lines_of (unlines ls) = ls"
  by (induction ls) (simp_all add: lines_of_step)

lemma lines_ok_unlines: "list_all line_ok ls \<Longrightarrow> lines_ok (unlines ls)"
proof -
  assume a: "list_all line_ok ls"
  then have "list_all (\<lambda>l. nl \<notin> set l) ls" by (auto simp: list_all_iff line_ok_def)
  with a show ?thesis by (auto simp: lines_ok_def lines_of_unlines list_all_iff line_ok_def)
qed

definition buf_ok :: "string option \<Rightarrow> bool" where
  "buf_ok buf \<longleftrightarrow> (case buf of None \<Rightarrow> True | Some b \<Rightarrow> \<exists>ls. b = unlines ls \<and> list_all line_ok ls)"

lemma set_StripWS: "set (StripWS l) \<subseteq> set l"
  using set_rstrip [of "takeWhile (\<lambda>c. \<not> is_comment c) (lstrip l)"]
  unfolding StripWS_def lstrip_def by (auto dest: set_takeWhileD set_dropWhileD)

lemma length_StripWS: "length (StripWS l) \<le> length l"
  unfolding StripWS_def
  by (meson length_lstrip length_rstrip length_takeWhile_le order_trans)

lemma fgets_bounds: "length (fst (fgets n s)) \<le> n" "nl \<notin> set (butlast (fst (fgets n s)))"
proof -
  let ?l = "takeWhile (\<lambda>c. c \<noteq> nl) s"
  show "length (fst (fgets n s)) \<le> n" by (simp add: fgets_def Let_def)
  obtain m where m: "fst (fgets n s) = take m s" "m \<le> length ?l + 1" "m \<le> length s"
  proof
    let ?m = "min n (if length ?l < length s then length ?l + 1 else length ?l)"
    show "fst (fgets n s) = take ?m s" by (simp add: fgets_def Let_def)
    show "?m \<le> length ?l + 1" by (simp add: min.coboundedI2)
    show "?m \<le> length s" using length_takeWhile_le [of "\<lambda>c. c \<noteq> nl" s] by (simp add: min.coboundedI2)
  qed
  have "take (m - 1) s = take (m - 1) (?l @ dropWhile (\<lambda>c. c \<noteq> nl) s)" by simp
  also have "\<dots> = take (m - 1) ?l" using m(2) by (simp del: takeWhile_dropWhile_id)
  finally have "butlast (fst (fgets n s)) = take (m - 1) ?l"
    using m by (simp add: butlast_take)
  then show "nl \<notin> set (butlast (fst (fgets n s)))"
    by (metis (mono_tags, lifting) in_set_takeD set_takeWhileD)
qed

lemma strip_chunk_ok:
  assumes "length c \<le> n" "n < MAX_LINE_LENGTH" "nl \<notin> set (butlast c)"
  shows "line_ok (StripWS c)"
proof -
  have "nl \<notin> set (StripWS c)"
  proof (cases "StripWS c = []")
    case False
    obtain w where w: "takeWhile (\<lambda>c. \<not> is_comment c) (lstrip c) = StripWS c @ w" "list_all isspace w"
      using rstrip_decomp unfolding StripWS_def by blast
    have nlast: "\<not> isspace (last (StripWS c))" using False unfolding StripWS_def by (rule rstrip_last)
    have "last (StripWS c) \<noteq> nl" using nlast by (auto simp: isspace_def)
    moreover have "nl \<notin> set (butlast (StripWS c))"
    proof
      assume "nl \<in> set (butlast (StripWS c))"
      then obtain xs ys where "butlast (StripWS c) = xs @ nl # ys" by (meson split_list)
      then have sc: "StripWS c = xs @ nl # ys @ [last (StripWS c)]"
        using False by (metis append.assoc append_Cons append_butlast_last_id)
      have "c = takeWhile isspace c @ lstrip c" unfolding lstrip_def by simp
      also have "lstrip c = (StripWS c @ w) @ dropWhile (\<lambda>c. \<not> is_comment c) (lstrip c)"
        by (simp add: w(1) [symmetric])
      finally obtain pre post where "c = pre @ StripWS c @ post" by auto
      also have "\<dots> = pre @ (xs @ nl # ys @ [last (StripWS c)]) @ post"
        using arg_cong [OF sc, of "\<lambda>x. pre @ x @ post"] .
      finally obtain a z b where "c = a @ nl # z # b"
        by (cases ys) (metis append.assoc append_Cons append_Nil)+
      then have "nl \<in> set (butlast c)" by (simp add: butlast_append)
      with assms(3) show False by simp
    qed
    ultimately show ?thesis
      using False by (metis append_butlast_last_id in_set_conv_decomp in_set_butlastD
          rotate1.simps(2) set_ConsD set_rotate1)
  qed simp
  then show ?thesis
    using assms(1,2) length_StripWS [of c] by (simp add: line_ok_def)
qed

lemma fgets_all_chunks:
  "list_all (\<lambda>c. length c \<le> n \<and> nl \<notin> set (butlast c)) (fgets_all n s)"
proof (induction n s rule: fgets_all.induct)
  case (1 n s)
  then show ?case by (subst fgets_all.simps) (simp add: fgets_bounds)
qed

lemma buf_ok_store: "buf_ok buf \<Longrightarrow> line_ok l \<Longrightarrow> buf_ok (store_line buf l)"
proof -
  assume a: "buf_ok buf" "line_ok l"
  then obtain ls where "(case buf of None \<Rightarrow> [] | Some b \<Rightarrow> b) = unlines ls" "list_all line_ok ls"
    by (cases buf) (auto simp: buf_ok_def intro: that [of "[]"])
  with a show ?thesis
    by (auto simp: buf_ok_def store_line_def intro!: exI [of _ "ls @ [l]"])
qed

lemma buf_ok_store_included: "buf_ok buf \<Longrightarrow> buf_ok (Some p) \<Longrightarrow> buf_ok (store_line buf p)"
proof -
  assume a: "buf_ok buf" "buf_ok (Some p)"
  then obtain ls where ls: "(case buf of None \<Rightarrow> [] | Some b \<Rightarrow> b) = unlines ls" "list_all line_ok ls"
    by (cases buf) (auto simp: buf_ok_def intro: that [of "[]"])
  from a obtain ls' where "p = unlines ls'" "list_all line_ok ls'" by (auto simp: buf_ok_def)
  with ls show ?thesis
    by (auto simp: buf_ok_def store_line_def line_ok_def MAX_LINE_LENGTH_def intro!: exI [of _ "ls @ ls' @ [[]]"])
qed

definition chunks_ok :: "string list \<Rightarrow> bool" where
  "chunks_ok cs \<longleftrightarrow> list_all (\<lambda>c. line_ok (StripWS c)) cs"

lemma chunks_ok_fgets: "chunks_ok (fgets_all (MAX_LINE_LENGTH - 2) s)"
  using fgets_all_chunks [of "MAX_LINE_LENGTH - 2" s]
  by (auto simp: chunks_ok_def list_all_iff MAX_LINE_LENGTH_def intro: strip_chunk_ok [of _ 8190])

lemma included_loop_ok:
  assumes "\<And>d f p. inc d f = Inr p \<Longrightarrow> buf_ok p"
  shows "included_loop inc fname cs buf = Inr r \<Longrightarrow> chunks_ok cs \<Longrightarrow> buf_ok buf \<Longrightarrow> buf_ok r"
proof (induction cs arbitrary: fname buf)
  case (Cons line rest)
  then show ?case
    by (auto simp: chunks_ok_def buf_ok_store buf_ok_store_included split: if_splits option.splits dest!: assms)
qed simp

lemma inifile_loop_ok:
  assumes "\<And>d f p. inc d f = Inr p \<Longrightarrow> buf_ok p"
  shows "inifile_loop inc fname cs buf = Inr r \<Longrightarrow> chunks_ok cs \<Longrightarrow> buf_ok buf \<Longrightarrow> buf_ok r"
proof (induction cs arbitrary: fname buf)
  case (Cons line rest)
  then show ?case
    by (auto simp: chunks_ok_def buf_ok_store buf_ok_store_included split: if_splits option.splits dest!: assms)
qed simp

lemma GetIncludedFile_ok: "GetIncludedFile depth w d f = Inr r \<Longrightarrow> buf_ok r"
proof (induction depth arbitrary: d f r)
  case (Suc depth)
  then show ?case
    by (auto simp: Let_def buf_ok_def [of None] chunks_ok_fgets split: if_splits option.splits
        elim!: included_loop_ok [rotated])
qed simp

lemma load_ini_ok: "load_ini depth w fname = Inr r \<Longrightarrow> buf_ok r"
  by (auto simp: load_ini_def buf_ok_def [of None] chunks_ok_fgets split: option.splits
      elim!: inifile_loop_ok [rotated] dest: GetIncludedFile_ok)

subsection \<open>Printed configurations\<close>

text \<open>A configuration as sections of keys with values, and its text.\<close>

type_synonym config = "(string \<times> (string \<times> string) list) list"

definition header_line :: "string \<Rightarrow> string" where
  "header_line sec = ''['' @ sec @ '']''"

definition key_line :: "string \<times> string \<Rightarrow> string" where
  "key_line kv = fst kv @ ''='' @ snd kv"

definition config_lines :: "config \<Rightarrow> string list" where
  "config_lines cfg = concat (map (\<lambda>(sec, kvs). header_line sec # map key_line kvs) cfg)"

definition plain :: "string \<Rightarrow> bool" where
  "plain t \<longleftrightarrow> list_all (\<lambda>c. c \<noteq> nl \<and> \<not> is_comment c) t
     \<and> (t = [] \<or> (\<not> isspace (hd t) \<and> \<not> isspace (last t)))"

definition entry_ok :: "string \<times> string \<Rightarrow> bool" where
  "entry_ok kv \<longleftrightarrow> plain (fst kv) \<and> plain (snd kv) \<and> fst kv \<noteq> [] \<and> CHR ''='' \<notin> set (fst kv)
     \<and> hd (fst kv) \<noteq> CHR ''['' \<and> hd (fst kv) \<noteq> CHR ''$'' \<and> length (key_line kv) < MAX_LINE_LENGTH - 3"

definition config_ok :: "config \<Rightarrow> bool" where
  "config_ok cfg \<longleftrightarrow> list_all (\<lambda>(sec, kvs). list_all (\<lambda>c. c \<noteq> nl \<and> \<not> is_comment c) sec
     \<and> length (header_line sec) < MAX_LINE_LENGTH - 3 \<and> list_all entry_ok kvs) cfg"

definition config_lookup :: "config \<Rightarrow> string \<Rightarrow> string \<Rightarrow> string option" where
  "config_lookup cfg sec key =
     (case List.find (\<lambda>(s, kvs). stricmp_eq s sec) cfg of
        None \<Rightarrow> None
      | Some (s, kvs) \<Rightarrow> map_option snd (List.find (\<lambda>(k, v). stricmp_eq key k) kvs))"

text \<open>Lines that loading stores as they are.\<close>

definition stored_asis :: "string \<Rightarrow> bool" where
  "stored_asis l \<longleftrightarrow> l \<noteq> [] \<and> list_all (\<lambda>c. c \<noteq> nl \<and> \<not> is_comment c) l \<and> \<not> isspace (hd l)
     \<and> \<not> isspace (last l) \<and> length l < MAX_LINE_LENGTH - 3 \<and> hd l \<noteq> CHR ''$''"

lemma StripWS_plain:
  assumes "t \<noteq> []" "list_all (\<lambda>c. \<not> is_comment c) t" "\<not> isspace (hd t)" "\<not> isspace (last t)"
  shows "StripWS t = t"
proof -
  have "takeWhile (\<lambda>c. \<not> is_comment c) t = t"
    using assms(2) by (simp add: takeWhile_eq_all_conv list_all_iff)
  then show ?thesis
    unfolding StripWS_def lstrip_id [OF assms(1,3)] by (simp only: rstrip_id [OF assms(1,4)])
qed

lemma StripWS_Nil [simp]: "StripWS [] = []"
  by (simp add: StripWS_def)

lemma plain_StripWS: "plain t \<Longrightarrow> StripWS t = t"
proof (cases "t = []")
  case False
  moreover assume "plain t"
  ultimately show ?thesis
    by (intro StripWS_plain) (simp_all add: plain_def list_all_iff)
qed simp

lemma header_line_asis:
  "list_all (\<lambda>c. c \<noteq> nl \<and> \<not> is_comment c) sec \<Longrightarrow> length (header_line sec) < MAX_LINE_LENGTH - 3
     \<Longrightarrow> stored_asis (header_line sec)"
  by (simp add: stored_asis_def header_line_def) (simp add: isspace_def is_comment_def)

lemma key_line_asis:
  assumes "entry_ok kv"
  shows "stored_asis (key_line kv)"
proof -
  obtain k v where kv: "kv = (k, v)" by (cases kv)
  have "\<not> isspace (last (key_line kv))"
    using assms by (cases "v = []") (auto simp: kv key_line_def entry_ok_def plain_def isspace_def)
  with assms show ?thesis
    by (auto simp: kv stored_asis_def key_line_def entry_ok_def plain_def is_comment_def)
qed

lemma stored_asis_StripWS: "stored_asis l \<Longrightarrow> StripWS l = l"
  by (rule StripWS_plain) (simp_all add: stored_asis_def list_all_iff)

lemma config_lines_asis: "config_ok cfg \<Longrightarrow> list_all stored_asis (config_lines cfg)"
  by (induction cfg)
    (auto simp: config_ok_def config_lines_def header_line_asis list_all_iff key_line_asis)

lemma fgets_all_line:
  assumes "nl \<notin> set l" "length l < n"
  shows "fgets_all n (l @ nl # rest) = (l @ [nl]) # fgets_all n rest"
proof -
  have "takeWhile (\<lambda>c. c \<noteq> nl) (l @ nl # rest) = l"
    using next_line_app [OF assms(1), of rest] by (simp add: next_line_def)
  then have "fgets n (l @ nl # rest) = (l @ [nl], rest)"
    using assms(2) by (simp add: fgets_def Let_def min_absorb2 Suc_leI)
  then show ?thesis
    using assms(2) by (subst fgets_all.simps) simp
qed

lemma fgets_all_unlines:
  "list_all (\<lambda>l. nl \<notin> set l \<and> length l < n) ls \<Longrightarrow> fgets_all n (unlines ls) = map (\<lambda>l. l @ [nl]) ls"
  by (induction ls) (simp_all add: fgets_all_line fgets_all.simps [of n "[]"])

lemma StripWS_line_nl: "stored_asis l \<Longrightarrow> StripWS (l @ [nl]) = l"
proof -
  assume a: "stored_asis l"
  then have "takeWhile (\<lambda>c. \<not> is_comment c) (l @ [nl]) = l @ [nl]"
    by (auto simp: takeWhile_eq_all_conv stored_asis_def list_all_iff is_comment_def)
  moreover have "lstrip (l @ [nl]) = l @ [nl]"
    using a by (intro lstrip_id) (auto simp: stored_asis_def)
  moreover have "rstrip (l @ [nl]) = l"
    using a by (subst rstrip_append_space) (auto simp: stored_asis_def isspace_def intro: rstrip_id)
  ultimately show ?thesis by (simp add: StripWS_def)
qed

lemma load_asis:
  assumes "list_all stored_asis ls"
  shows "inifile_loop inc fname (fgets_all (MAX_LINE_LENGTH - 2) (unlines ls)) buf =
     Inr (if ls = [] then buf else Some ((case buf of None \<Rightarrow> [] | Some b \<Rightarrow> b) @ unlines ls))"
  using assms
proof (induction ls arbitrary: buf)
  case Nil
  then show ?case by (simp add: fgets_all.simps)
next
  case (Cons l ls)
  then have l: "nl \<notin> set l" "length l < MAX_LINE_LENGTH - 2" "StripWS (l @ [nl]) = l" "l \<noteq> []" "hd l \<noteq> CHR ''$''"
    by (auto simp: StripWS_line_nl) (auto simp: stored_asis_def list_all_iff)
  then have "\<not> is_include (l @ [nl])" by (simp add: is_include_def)
  with l Cons show ?case
    by (simp add: fgets_all_line store_line_def)
qed

lemma clean_lines_asis: "list_all stored_asis ls \<Longrightarrow> clean_lines (unlines ls) = ls"
proof -
  assume a: "list_all stored_asis ls"
  then have "lines_of (unlines ls) = ls"
    by (intro lines_of_unlines) (auto simp: list_all_iff stored_asis_def)
  moreover have "map StripWS ls = ls" "filter (\<lambda>p. p \<noteq> []) ls = ls"
    using a by (auto simp: list_all_iff stored_asis_StripWS intro!: map_idI) (auto simp: stored_asis_def)
  ultimately show ?thesis by (simp add: clean_lines_def)
qed

lemma stricmp_header: "stricmp_eq (header_line a) (CHR ''['' # b @ '']'') \<longleftrightarrow> stricmp_eq a b"
  by (simp add: stricmp_eq_def header_line_def)

lemma is_header_lines: "is_header (header_line s)" "entry_ok kv \<Longrightarrow> \<not> is_header (key_line kv)"
  by (auto simp: is_header_def header_line_def key_line_def entry_ok_def)

lemma key_line_lookup:
  assumes "entry_ok (k, v)"
  shows "line_has_key key (key_line (k, v)) \<longleftrightarrow> stricmp_eq key k" "line_value (key_line (k, v)) = v"
proof -
  have "\<And>x. x \<in> set k \<Longrightarrow> x \<noteq> CHR ''=''" using assms by (auto simp: entry_ok_def)
  then have "takeWhile (\<lambda>c. c \<noteq> CHR ''='') (key_line (k, v)) = k"
    "dropWhile (\<lambda>c. c \<noteq> CHR ''='') (key_line (k, v)) = CHR ''='' # v"
    by (simp_all add: key_line_def takeWhile_append2 dropWhile_append2)
  with assms show "line_has_key key (key_line (k, v)) \<longleftrightarrow> stricmp_eq key k" "line_value (key_line (k, v)) = v"
    by (simp_all add: line_has_key_def line_value_def plain_StripWS entry_ok_def) (simp add: key_line_def)
qed

lemma find_key_line:
  "list_all entry_ok kvs \<Longrightarrow> map_option line_value (List.find (line_has_key key) (map key_line kvs))
     = map_option snd (List.find (\<lambda>(k, v). stricmp_eq key k) kvs)"
  by (induction kvs) (auto simp: key_line_lookup)

lemma takeWhile_body:
  "list_all entry_ok kvs \<Longrightarrow>
     takeWhile (\<lambda>p. \<not> is_header p) (map key_line kvs @ config_lines cfg) = map key_line kvs"
proof (induction kvs)
  case Nil
  show ?case
    by (cases cfg) (auto simp: config_lines_def is_header_lines)
qed (simp add: is_header_lines)

lemma dropWhile_body:
  "list_all entry_ok kvs \<Longrightarrow>
     dropWhile (\<lambda>p. \<not> header_of sec p) (map key_line kvs @ ls) = dropWhile (\<lambda>p. \<not> header_of sec p) ls"
  by (induction kvs) (simp_all add: header_of_def is_header_lines)

lemma lookup_config:
  "config_ok cfg \<Longrightarrow> lookup_spec (config_lines cfg) sec key = config_lookup cfg sec key"
proof (induction cfg)
  case Nil
  then show ?case by (simp add: lookup_spec_def section_body_def config_lines_def config_lookup_def)
next
  case (Cons c cfg)
  obtain s kvs where c: "c = (s, kvs)" by (cases c)
  have kvs: "list_all entry_ok kvs" and cfg: "config_ok cfg" using Cons.prems by (auto simp: c config_ok_def)
  have lines: "config_lines ((s, kvs) # cfg) = header_line s # map key_line kvs @ config_lines cfg"
    by (simp add: config_lines_def)
  show ?case
  proof (cases "stricmp_eq s sec")
    case True
    then have "header_of sec (header_line s)" by (simp add: header_of_def is_header_lines stricmp_header)
    then show ?thesis
      using True kvs by (simp add: lookup_spec_def section_body_def lines takeWhile_body find_key_line config_lookup_def c)
  next
    case False
    then have "\<not> header_of sec (header_line s)" by (simp add: header_of_def stricmp_header)
    then have "lookup_spec (config_lines ((s, kvs) # cfg)) sec key = lookup_spec (config_lines cfg) sec key"
      using kvs by (simp add: lookup_spec_def section_body_def lines dropWhile_body)
    with Cons.IH [OF cfg] False show ?thesis by (simp add: config_lookup_def c)
  qed
qed

subsection \<open>The cache\<close>

definition cache_ok :: "nat \<Rightarrow> world \<Rightarrow> ini_cache \<Rightarrow> bool" where
  "cache_ok depth w c \<longleftrightarrow>
     (case ls_previousFile c of None \<Rightarrow> True | Some f \<Rightarrow> load_ini depth w f = Inr (ls_cachedFile c))"

lemma cache_ok_empty: "cache_ok depth w \<lparr>ls_previousFile = None, ls_cachedFile = None\<rparr>"
  by (simp add: cache_ok_def)

lemma GetIniFile_cache:
  assumes "cache_ok depth w c"
  shows "(\<exists>c'. GetIniFile depth w (Some f) c = rbind (load_ini depth w f) (\<lambda>d. Inr (d, c')) \<and> cache_ok depth w c')
     \<or> (\<exists>e. GetIniFile depth w (Some f) c = Inl e \<and> load_ini depth w f = Inl e)"
proof (cases "load_ini depth w f")
  case (Inl e)
  with assms have "ls_previousFile c \<noteq> Some f" by (auto simp: cache_ok_def)
  with Inl show ?thesis by (simp add: GetIniFile_def)
next
  case (Inr d)
  then show ?thesis
    using assms by (cases "ls_previousFile c = Some f") (auto simp: GetIniFile_def cache_ok_def)
qed

lemma GetString_ok:
  assumes "cache_ok depth w c" "load_ini depth w f = Inr d" "length sec + 2 < MAX_LINE_LENGTH"
  shows "\<exists>c'. cache_ok depth w c' \<and> GetString depth w (Some f) sec key c =
     Inr (case d of None \<Rightarrow> None | Some data \<Rightarrow> lookup_spec (clean_lines data) sec key, c')"
proof -
  from GetIniFile_cache [OF assms(1), of f] assms(2) obtain c' where
    c': "GetIniFile depth w (Some f) c = Inr (d, c')" "cache_ok depth w c'" by auto
  show ?thesis
  proof (cases d)
    case None
    with c' show ?thesis by (simp add: GetString_def)
  next
    case (Some data)
    from load_ini_ok [OF assms(2)] have "lines_ok data"
      by (auto simp: Some buf_ok_def lines_ok_unlines)
    with assms(3) have "FindKey data sec key = Inr (lookup_spec (clean_lines data) sec key)"
      using find_key_outside [of data sec key] by (simp add: FindKey_def Let_def)
    with c' Some show ?thesis by (simp add: GetString_def)
  qed
qed

subsection \<open>Dotted addresses\<close>

lemma length_show_nat: "n < 10 ^ k \<Longrightarrow> 0 < k \<Longrightarrow> length (show_nat n) \<le> k"
proof (induction k arbitrary: n)
  case (Suc k)
  show ?case
  proof (cases "n < 10")
    case False
    with Suc.prems have "n div 10 < 10 ^ k" "0 < k" by (auto intro: Nat.gr0I)
    with Suc.IH [of "n div 10"] False show ?thesis by (subst show_nat.simps) simp
  qed (simp add: show_nat.simps)
qed simp

lemma ip_component_digits:
  "list_all isdigit ds \<Longrightarrow> length buf + length ds < 4 \<Longrightarrow>
     (case rest of [] \<Rightarrow> True | c # _ \<Rightarrow> c = CHR ''.'') \<Longrightarrow>
     ip_component buf (ds @ rest) = Some (buf @ ds, rest)"
proof (induction ds arbitrary: buf)
  case Nil
  then show ?case by (cases rest) auto
next
  case (Cons d ds)
  then have "d \<noteq> CHR ''.''" by (auto simp: isdigit_def)
  with Cons show ?case by simp
qed

lemma atoi_show_nat: "n < 2 ^ 31 \<Longrightarrow> atoi (show_nat n) = int n"
  using atoi_show_int [of "int n"] by (simp add: show_int_def)

lemma not_bit_small: "(d::nat) < 256 \<Longrightarrow> 8 \<le> n \<Longrightarrow> \<not> bit d n"
proof -
  assume a: "d < 256" "8 \<le> n"
  have "(2::nat) ^ 8 \<le> 2 ^ n" using a(2) by (intro power_increasing) auto
  with a(1) have "d < 2 ^ n" by simp
  then show ?thesis by (simp add: bit_iff_odd)
qed

lemma shift_or_byte:
  "d < 256 \<Longrightarrow> or (push_bit 8 x) (of_nat d) = x * 256 + (of_nat d :: 32 word)"
proof -
  assume d: "d < 256"
  have "push_bit 8 x + (of_nat d :: 32 word) = or (push_bit 8 x) (of_nat d)"
  proof (rule disjunctive_add)
    fix n show "\<not> bit (push_bit 8 x) n \<or> \<not> bit (of_nat d :: 32 word) n"
      using not_bit_small [OF d, of n] by (cases "n < 8") (auto simp: bit_push_bit_iff bit_of_nat_iff)
  qed
  then show ?thesis by (simp add: push_bit_eq_mult)
qed

lemma ip_loop_step:
  assumes "d < 256" "case rest of [] \<Rightarrow> True | c # _ \<Rightarrow> c = CHR ''.''"
  shows "ip_loop (Suc n) (Some (show_nat d @ rest)) x =
     ip_loop n (case rest of [] \<Rightarrow> None | _ # t \<Rightarrow> Some t) (x * 256 + of_nat d)"
proof -
  have "length (show_nat d) \<le> 3" using assms(1) by (intro length_show_nat) auto
  then have "ip_component [] (show_nat d @ rest) = Some (show_nat d, rest)"
    using ip_component_digits [OF show_nat_digits, of "[]" d rest] assms(2) by simp
  with assms(1) \<open>length (show_nat d) \<le> 3\<close> show ?thesis
    by (simp add: atoi_show_nat shift_or_byte)
qed

lemma ip_loop_dot:
  "d < 256 \<Longrightarrow> ip_loop (Suc n) (Some (show_nat d @ CHR ''.'' # t)) x = ip_loop n (Some t) (x * 256 + of_nat d)"
  using ip_loop_step [of d "CHR ''.'' # t" n x] by (simp del: ip_loop.simps)

lemma ip_loop_end:
  "d < 256 \<Longrightarrow> ip_loop (Suc n) (Some (show_nat d)) x = ip_loop n None (x * 256 + of_nat d)"
  using ip_loop_step [of d "[]" n x] by (simp del: ip_loop.simps)

lemma NetWorkIpAddrToUINT32_Suc: "NetWorkIpAddrToUINT32 s = ip_loop (Suc (Suc (Suc (Suc 0)))) (Some s) 0"
  by (simp only: NetWorkIpAddrToUINT32_def numeral_eq_Suc pred_numeral_simps BitM.simps eval_nat_numeral)

subsection \<open>Properties\<close>

text \<open>
  C9. \<^verbatim>\<open>FindKey\<close> implements the reference lookup: on any text whose lines fit its buffer it
  returns the value of the first matching key of the first matching section (names compared
  without case), and \<^verbatim>\<open>FALSE\<close> when there is none.
\<close>

theorem FindKey_refines_lookup:
  assumes "lines_ok data" "length sec + 2 < MAX_LINE_LENGTH"
  shows "FindKey data sec key = Inr (lookup_spec (clean_lines data) sec key)"
  using assms find_key_outside [of data sec key] by (simp add: FindKey_def Let_def)

theorem FindKey_refines_lookup_witness:
  "lines_ok (''[a]'' @ [nl] @ ''k = v ; c'' @ [nl]) \<and> length ''A'' + 2 < MAX_LINE_LENGTH
   \<and> FindKey (''[a]'' @ [nl] @ ''k = v ; c'' @ [nl]) ''A'' ''K''
     = Inr (lookup_spec (clean_lines (''[a]'' @ [nl] @ ''k = v ; c'' @ [nl])) ''A'' ''K'')"
proof -
  have "lines_ok (unlines [''[a]'', ''k = v ; c''])"
    by (rule lines_ok_unlines) (simp add: line_ok_def MAX_LINE_LENGTH_def)
  then have a: "lines_ok (''[a]'' @ [nl] @ ''k = v ; c'' @ [nl])" by simp
  have b: "length ''A'' + 2 < MAX_LINE_LENGTH" by (simp add: MAX_LINE_LENGTH_def)
  from a b FindKey_refines_lookup [OF a b, of "''K''"] show ?thesis by blast
qed

text \<open>
  C11. Whatever the files contain, and however they include each other, a file that loads can be
  searched: the assertion of \<^verbatim>\<open>FindKey\<close> on the line length cannot fail, and through the cache
  \<^verbatim>\<open>GetString\<close> answers what the freshly loaded file says, after any history of calls (the cache
  state is only known to be consistent).
\<close>

theorem GetString_cached_is_fresh:
  assumes "cache_ok depth w c" "load_ini depth w f = Inr d" "length sec + 2 < MAX_LINE_LENGTH"
  shows "\<exists>c'. cache_ok depth w c' \<and> GetString depth w (Some f) sec key c =
     Inr (case d of None \<Rightarrow> None | Some data \<Rightarrow> lookup_spec (clean_lines data) sec key, c')"
  using assms by (rule GetString_ok)

abbreviation empty_cache :: ini_cache where
  "empty_cache \<equiv> \<lparr>ls_previousFile = None, ls_cachedFile = None\<rparr>"

abbreviation no_files :: world where
  "no_files \<equiv> \<lparr>files = (\<lambda>_. None), getenv = (\<lambda>_. None)\<rparr>"

theorem GetString_cached_is_fresh_witness:
  "cache_ok 1 no_files empty_cache \<and> load_ini 1 no_files ''f'' = Inr None \<and> length ''S'' + 2 < MAX_LINE_LENGTH
   \<and> (\<exists>c'. cache_ok 1 no_files c' \<and> GetString 1 no_files (Some ''f'') ''S'' ''k'' empty_cache = Inr (None, c'))"
proof -
  have l: "load_ini 1 no_files ''f'' = Inr None"
    by (simp add: load_ini_def fopenexp_def expenv_def expenv_loop.simps)
  have s: "length ''S'' + 2 < MAX_LINE_LENGTH" by (simp add: MAX_LINE_LENGTH_def)
  from cache_ok_empty l s GetString_cached_is_fresh [OF cache_ok_empty l s, of "''k''"] show ?thesis by simp
qed

text \<open>
  C10. Round trip: a configuration printed to a file (sections of \<^verbatim>\<open>key=value\<close> lines) is read back
  exactly; every lookup through \<^verbatim>\<open>GetIniFile\<close> and \<^verbatim>\<open>FindKey\<close> finds the value of the configuration.
\<close>

theorem config_roundtrip:
  assumes "config_ok cfg" "files w f = Some (unlines (config_lines cfg))" "CHR ''$'' \<notin> set f" "length f < 1024"
    and "length sec + 2 < MAX_LINE_LENGTH"
  shows "\<exists>c'. GetString depth w (Some f) sec key \<lparr>ls_previousFile = None, ls_cachedFile = None\<rparr>
     = Inr (config_lookup cfg sec key, c')"
proof -
  let ?ls = "config_lines cfg"
  have asis: "list_all stored_asis ?ls" using assms(1) by (rule config_lines_asis)
  have "fopenexp w f = Inr (Some (unlines ?ls))"
    using assms(2-4) by (simp add: fopenexp_def expenv_def expenv_loop.simps)
  then have l: "load_ini depth w f = Inr (if ?ls = [] then None else Some (unlines ?ls))"
    by (simp add: load_ini_def load_asis [OF asis])
  from GetString_ok [OF cache_ok_empty l assms(5), of key] obtain c' where
    "GetString depth w (Some f) sec key \<lparr>ls_previousFile = None, ls_cachedFile = None\<rparr> =
      Inr (lookup_spec ?ls sec key, c')"
    by (cases "?ls = []") (auto simp: clean_lines_asis [OF asis] lookup_spec_def section_body_def)
  then show ?thesis by (simp add: lookup_config [OF assms(1)])
qed

abbreviation cfg1 :: config where
  "cfg1 \<equiv> [(''Global'', [(''nb_threads'', ''4'')])]"

abbreviation world1 :: world where
  "world1 \<equiv> \<lparr>files = (\<lambda>f. if f = ''t.ini'' then Some (unlines (config_lines cfg1)) else None), getenv = (\<lambda>_. None)\<rparr>"

theorem config_roundtrip_witness:
  "config_ok cfg1 \<and> (\<exists>c'. GetString 8 world1 (Some ''t.ini'') ''GLOBAL'' ''nb_threads'' empty_cache
     = Inr (config_lookup cfg1 ''GLOBAL'' ''nb_threads'', c'))"
proof -
  have a: "config_ok cfg1"
    by (simp add: config_ok_def entry_ok_def plain_def header_line_def key_line_def is_comment_def
        isspace_def MAX_LINE_LENGTH_def)
  have b: "files world1 ''t.ini'' = Some (unlines (config_lines cfg1))" by simp
  from a config_roundtrip [OF a b, of "''GLOBAL''" 8 "''nb_threads''"] show ?thesis
    by (simp add: MAX_LINE_LENGTH_def)
qed

text \<open>
  Round trip of addresses: \<^verbatim>\<open>NetWorkIpAddrToUINT32\<close> reads the dotted form of four bytes as
  the 32-bit number with these bytes, first byte highest; what follows after a further dot is
  ignored.
\<close>

theorem ip_roundtrip:
  assumes "a < 256" "b < 256" "c < 256" "d < 256" "tail = [] \<or> hd tail = CHR ''.''"
  shows "NetWorkIpAddrToUINT32 (show_nat a @ ''.'' @ show_nat b @ ''.'' @ show_nat c @ ''.'' @ show_nat d @ tail)
     = Inr (of_nat (((a * 256 + b) * 256 + c) * 256 + d))"
proof -
  have t: "case tail of [] \<Rightarrow> True | x # _ \<Rightarrow> x = CHR ''.''" using assms(5) by (cases tail) auto
  have "ip_loop (Suc 0) (Some (show_nat d @ tail)) x = Inr (x * 256 + of_nat d)" for x
    using ip_loop_step [OF assms(4) t, of 0 x] by simp
  then show ?thesis
    using assms(1-3) by (simp del: ip_loop.simps add: NetWorkIpAddrToUINT32_Suc ip_loop_dot)
qed

theorem ip_roundtrip_witness:
  "(135::nat) < 256 \<and> NetWorkIpAddrToUINT32 (show_nat 135 @ ''.'' @ show_nat 10 @ ''.'' @ show_nat 0 @ ''.'' @ show_nat 1 @ [])
     = Inr (of_nat (((135 * 256 + 10) * 256 + 0) * 256 + 1))"
  using ip_roundtrip [of 135 10 0 1 "[]"] by simp

text \<open>
  An address with fewer than four components makes the code step over the end of the string
  and read what is behind it: the result depends on indeterminate memory.
\<close>

theorem ip_short_reads_past_end:
  assumes "a < 256" "b < 256" "c < 256"
  shows "NetWorkIpAddrToUINT32 (show_nat a) = Inl Uninit
    \<and> NetWorkIpAddrToUINT32 (show_nat a @ ''.'' @ show_nat b) = Inl Uninit
    \<and> NetWorkIpAddrToUINT32 (show_nat a @ ''.'' @ show_nat b @ ''.'' @ show_nat c) = Inl Uninit"
  using assms
  by (simp del: ip_loop.simps add: NetWorkIpAddrToUINT32_Suc ip_loop_dot ip_loop_end) simp

theorem ip_short_reads_past_end_witness:
  "(127::nat) < 256 \<and> NetWorkIpAddrToUINT32 (show_nat 127) = Inl Uninit"
  using ip_short_reads_past_end [of 127 0 0] by simp

text \<open>
  The directory \<^verbatim>\<open>d/e\<close> has the files \<^verbatim>\<open>m\<close>, which includes \<^verbatim>\<open>x\<close> twice, \<^verbatim>\<open>x\<close> with one key, \<^verbatim>\<open>z\<close> with a
  comment only, and \<^verbatim>\<open>n\<close>, which includes \<^verbatim>\<open>z\<close>.
\<close>

definition include_world :: world where
  "include_world = \<lparr>files = (\<lambda>f.
       if f = ''d/e/m'' then Some (unlines [''$include x'', ''$include x''])
       else if f = ''d/e/x'' then Some (unlines [''k=1''])
       else if f = ''d/e/z'' then Some (unlines ['';nothing''])
       else if f = ''d/e/n'' then Some (unlines [''$include z''])
       else None), getenv = (\<lambda>_. None)\<rparr>"

lemmas strip_eval = StripWS_def lstrip_def rstrip_def isspace_def is_comment_def

lemma include_lines:
  "StripWS (''$include x'' @ [nl]) = ''$include x''" "is_include (''$include x'' @ [nl])"
  "StripWS (''$include z'' @ [nl]) = ''$include z''" "is_include (''$include z'' @ [nl])"
  "strip_buffer (''$include x'' @ [nl]) = ''$include x''" "strip_buffer (''$include z'' @ [nl]) = ''$include z''"
  "StripWS (''k=1'' @ [nl]) = ''k=1''" "\<not> is_include (''k=1'' @ [nl])" "StripWS ('';nothing'' @ [nl]) = []"
  by (simp_all add: strip_eval is_include_def strip_buffer_def has_prefix_def)

lemma include_files:
  "fopenexp include_world ''d/e/m'' = Inr (Some (unlines [''$include x'', ''$include x'']))"
  "fopenexp include_world ''d/e/x'' = Inr (Some (unlines [''k=1'']))"
  "fopenexp include_world ''d/e/z'' = Inr (Some (unlines ['';nothing'']))"
  "fopenexp include_world ''d/e/n'' = Inr (Some (unlines [''$include z'']))"
  "fopenexp include_world ''d/x'' = Inr None"
  by (simp_all add: fopenexp_def expenv_def expenv_loop.simps include_world_def)

lemma include_chunks:
  "fgets_all (MAX_LINE_LENGTH - 2) (unlines [''$include x'', ''$include x'']) = [''$include x'' @ [nl], ''$include x'' @ [nl]]"
  "fgets_all (MAX_LINE_LENGTH - 2) (unlines [''k=1'']) = [''k=1'' @ [nl]]"
  "fgets_all (MAX_LINE_LENGTH - 2) (unlines ['';nothing'']) = ['';nothing'' @ [nl]]"
  "fgets_all (MAX_LINE_LENGTH - 2) (unlines [''$include z'']) = [''$include z'' @ [nl]]"
  by (subst fgets_all_unlines; simp add: MAX_LINE_LENGTH_def)+

lemma include_dirs: "dirname ''d/e/m'' = ''d/e''" "dirname ''d/e/n'' = ''d/e''" "dirname ''d/e'' = ''d''"
  by (simp_all add: dirname_def strip_slashes_def)

text \<open>
  An included file can include only once: \<^verbatim>\<open>dirname(fname)\<close> overwrites \<^verbatim>\<open>fname\<close>, and the second
  inclusion is looked up in the parent directory. The same two lines load as a main file, and end
  the program with status 1 as an included file.
\<close>

theorem second_nested_include_fails:
  "load_ini (Suc (Suc depth)) include_world ''d/e/m'' = Inr (Some (unlines [''k=1'', [], ''k=1'', []]))
   \<and> GetIncludedFile (Suc (Suc depth)) include_world ''d/e'' ''m'' = Inl (Exit 1)"
  unfolding load_ini_def include_files
  by (simp add: Let_def include_files [simplified] include_chunks [simplified] include_lines [simplified]
      include_dirs [simplified] MAX_FIELNAME_LENGTH_def store_line_def)

text \<open>
  Including a file that has no line besides comments dereferences the null pointer.
\<close>

theorem empty_include_crashes:
  "load_ini (Suc (Suc depth)) include_world ''d/e/n'' = Inl NullDeref"
  unfolding load_ini_def include_files
  by (simp add: Let_def include_files [simplified] include_chunks [simplified] include_lines [simplified]
      include_dirs [simplified] MAX_FIELNAME_LENGTH_def store_line_def)

end
