(* ===== verification/Tgen_Types.thy ===== *)
theory Tgen_Types
  imports Tgen_Prelude
begin

section \<open>The structures the components share (Inc/texec.h, taction.h, tsce.h, tuser.h)\<close>

text \<open>
  Requests, actions, scenarios and users. A \<^verbatim>\<open>char *\<close> field is a \<^typ>\<open>string option\<close>, an array of two
  indexed by the relocation flag is a function from \<^typ>\<open>bool\<close>, and a pointer to a scenario is its
  index in the table of the registered scenarios.
\<close>

datatype request =
    SCE_Begin
  | LDAP_Bind_Rq | LDAP_UnBind_Rq | LDAP_Search_Rq | LDAP_Modify_Rq | LDAP_Add_Rq | LDAP_Delete_Rq
  | LDAP_Search_Resp | LDAP_Bind_Resp
  | RADIUS_AuthWP_Rq | RADIUS_Auth_Rq
  | RADIUS_AccessEapId_Rq | RADIUS_AccessEapStart_Rq | RADIUS_AccessEapChal_Rq
  | RADIUS_AccessEapCliErr_Rq | RADIUS_AccessEapNotif_Rq | RADIUS_AccessEapFast_Rq
  | RADIUS_AccessEapTtls_Rq | RADIUS_AccessEapTls_Rq
  | RADIUS_AccessEapAKAIdentity_Rq | RADIUS_AccessEapAKAChal_Rq | RADIUS_AccessEapAKARej_Rq
  | RADIUS_AccessEapAKASynfail_Rq
  | RADIUS_AccountStart_Rq | RADIUS_AccountInterim_Rq | RADIUS_AccountStop_Rq
  | RADIUS_AccountOn_Rq | RADIUS_AccountOff_Rq
  | SCE_Wait | SCE_End

text \<open>The numbering of the enumeration, in the order of the declaration.\<close>

definition request_list :: "request list" where
  "request_list =
    [SCE_Begin, LDAP_Bind_Rq, LDAP_UnBind_Rq, LDAP_Search_Rq, LDAP_Modify_Rq, LDAP_Add_Rq, LDAP_Delete_Rq,
     LDAP_Search_Resp, LDAP_Bind_Resp, RADIUS_AuthWP_Rq, RADIUS_Auth_Rq, RADIUS_AccessEapId_Rq,
     RADIUS_AccessEapStart_Rq, RADIUS_AccessEapChal_Rq, RADIUS_AccessEapCliErr_Rq, RADIUS_AccessEapNotif_Rq,
     RADIUS_AccessEapFast_Rq, RADIUS_AccessEapTtls_Rq, RADIUS_AccessEapTls_Rq,
     RADIUS_AccessEapAKAIdentity_Rq, RADIUS_AccessEapAKAChal_Rq, RADIUS_AccessEapAKARej_Rq,
     RADIUS_AccessEapAKASynfail_Rq, RADIUS_AccountStart_Rq, RADIUS_AccountInterim_Rq, RADIUS_AccountStop_Rq,
     RADIUS_AccountOn_Rq, RADIUS_AccountOff_Rq, SCE_Wait, SCE_End]"

definition request_num :: "request \<Rightarrow> nat" where
  "request_num r = length (takeWhile (\<lambda>x. x \<noteq> r) request_list)"

lemma request_list_complete: "r \<in> set request_list"
  by (cases r) (simp_all add: request_list_def)

lemma request_num_less: "request_num r < 30"
  by (cases r) (simp_all add: request_num_def request_list_def)

lemma nth_request_num: "request_list ! request_num r = r"
proof -
  have "request_num r < length request_list"
    using request_num_less [of r] by (simp add: request_list_def)
  then show ?thesis
    unfolding request_num_def using nth_length_takeWhile [of "\<lambda>x. x \<noteq> r" request_list] by blast
qed

lemma request_num_inject [simp]: "request_num a = request_num b \<longleftrightarrow> a = b"
  by (metis nth_request_num)

instantiation request :: linorder
begin

definition less_eq_request :: "request \<Rightarrow> request \<Rightarrow> bool" where
  "less_eq_request a b \<longleftrightarrow> request_num a \<le> request_num b"

definition less_request :: "request \<Rightarrow> request \<Rightarrow> bool" where
  "less_request a b \<longleftrightarrow> request_num a < request_num b"

instance
  by standard (auto simp: less_eq_request_def less_request_def)

end

record tAction =
  requestId :: request
  cmds :: "string option"
  attrs :: "string option"
  unLimitSize :: int

record tCmdRes =
  cr_base :: "string option"
  cr_filter :: "string option"

record tSce =
  sce_name :: string
  sce_action :: "tAction list"
  sce_cnt :: int
  sce_ko :: int
  sce_timeout :: int
  exclusion :: int
  populMin :: int
  populNb :: int

record tLdapEntry =
  dn :: string
  base :: string
  filter_str :: string
  scope :: int

record tAuth =
  nai :: string
  passwd :: string
  authType :: int
  stateAttrib :: "bool \<Rightarrow> string"
  stateAttribLength :: "bool \<Rightarrow> int"
  K_aut :: string
  K_encr :: string
  frId :: "string option"
  aaa_session_id :: string
  aaa_session_idLength :: int
  ppaq :: string
  ppaqLength :: int

record tSess =
  sessionId :: "bool \<Rightarrow> string"
  sessionIdLength :: "bool \<Rightarrow> int"
  startTime :: "bool \<Rightarrow> int"
  classAttrib :: "bool \<Rightarrow> string"
  classAttribLength :: "bool \<Rightarrow> int"
  portNb :: int

datatype exe_state = exeState_IDLE | exeState_RUNNING | exeState_ABORT

record tPrivate =
  priv_id :: int
  priv_cnt :: int
  lastTime :: int
  exeState :: exe_state
  lastSce :: "nat option"

record tUser =
  priv :: tPrivate
  ldapE :: "tLdapEntry option"
  cmdRes :: "tCmdRes option"
  auth :: "tAuth option"
  sess :: "tSess option"

text \<open>A pointer to a user: an element of one of the two tables of the population.\<close>

datatype user_ptr = Popul nat | Popul1 nat

subsection \<open>Threads (Inc/tthread.h)\<close>

datatype tThreadState = SUSPEND | RUNNING | ENDING | FINISHED | ENDING2

definition MAINTHR :: nat where "MAINTHR = 0"
definition STATTHR :: nat where "STATTHR = 1"
definition SLCTTHR :: nat where "SLCTTHR = 2"
definition WORKTHR :: nat where "WORKTHR = 12"

text \<open>A \<^verbatim>\<open>struct timeval\<close> is the pair of its seconds and microseconds.\<close>

type_synonym timeval = "int \<times> int"

record tThreadConf =
  radSockFd :: int
  thr_state :: tThreadState
  timeBeg :: "nat \<Rightarrow> timeval"
  timeEnd :: "nat \<Rightarrow> timeval"

subsection \<open>Pending LDAP requests (Inc/tldap.h, texec.h)\<close>

text \<open>
  The context of a request, the context that is kept while a scenario sleeps, and a node of the
  lists of pending requests and of responses. A pointer is the address of an object, or \<^term>\<open>None\<close>.
\<close>

record tLdapReqCtx =
  rq_attrs :: "(string \<times> string option \<times> int) list"
  rq_cmds :: "(string \<times> string option \<times> int) list"
  ctrls :: "nat option"
  res :: "nat option"
  ctx_rc :: int
  ctx_time :: timeval

record tSleep =
  sl_req :: "nat option"
  sl_user :: "user_ptr option"
  sl_sce :: nat
  sl_action :: nat

record tLdapList =
  next_ptr :: "nat option"
  last_ptr :: "nat option"
  msgid :: int
  sleepCtx :: nat

record tLdapLd =
  ld :: "nat option"
  ldReq :: "nat option"
  ldResp :: "nat option"
  serverHost :: "nat option"
  serverPort :: int
  KeyThead :: int
  rebind :: int

subsection \<open>Results of commands (Src/taction.c)\<close>

definition tAction_mallocCmdRes :: tCmdRes where
  "tAction_mallocCmdRes = \<lparr>cr_base = None, cr_filter = None\<rparr>"

definition tAction_freeCmdRes :: "tCmdRes option \<Rightarrow> tCmdRes option" where
  "tAction_freeCmdRes cmd_res = None"

end
