(* ===== verification/Tgen_User.thy ===== *)
theory Tgen_User
  imports Tgen_Types Tgen_Profile
begin

section \<open>The user population (Src/tuser.c)\<close>

text \<open>
  The population tables and their loading from the configuration, the accessors of a user, and
  the reservation of users by the scenarios. The two memory blocks \<^verbatim>\<open>tUserPopul\<close> and \<^verbatim>\<open>tUserPopul1\<close>
  are lists; a \<^verbatim>\<open>tUser *\<close> is a block and an offset. Fresh memory has an unknown content, which is a
  parameter (\<open>junk\<close>), as are the outcomes of the allocations.
\<close>

subsection \<open>State\<close>

record userdb =
  tUserPopul :: "tUser list"
  tUserPopul1 :: "tUser list"
  MaxUsrMemory :: int
  tcUserNb :: int
  tcUserNb1 :: int
  tcUserNb2 :: int
  tUserCurrentIndex :: int
  tUseri :: int
  radAuthTypeTab :: "int list"
  tcRadiusNasIdBase :: "bool \<Rightarrow> string"
  tcRadiusNasIpAddBase :: "bool \<Rightarrow> string"

definition userdb0 :: userdb where
  "userdb0 = \<lparr>tUserPopul = [], tUserPopul1 = [], MaxUsrMemory = 25000000, tcUserNb = 0, tcUserNb1 = 0,
     tcUserNb2 = 0, tUserCurrentIndex = 0, tUseri = -1, radAuthTypeTab = replicate 100 0,
     tcRadiusNasIdBase = (\<lambda>_. []), tcRadiusNasIpAddBase = (\<lambda>_. [])\<rparr>"

definition tUserGet :: "int \<Rightarrow> userdb \<Rightarrow> user_ptr result" where
  "tUserGet userIndex db =
     (if userIndex \<le> MaxUsrMemory db then
        (if 0 \<le> userIndex \<and> userIndex < int (length (tUserPopul db))
         then Inr (Popul (nat userIndex)) else Inl OutOfBounds)
      else (let userIndex1 = userIndex - MaxUsrMemory db
            in if userIndex1 < int (length (tUserPopul1 db))
               then Inr (Popul1 (nat userIndex1)) else Inl OutOfBounds))"

fun user_at :: "userdb \<Rightarrow> user_ptr \<Rightarrow> tUser" where
  "user_at db (Popul i) = tUserPopul db ! i"
| "user_at db (Popul1 i) = tUserPopul1 db ! i"

fun set_user :: "user_ptr \<Rightarrow> tUser \<Rightarrow> userdb \<Rightarrow> userdb" where
  "set_user (Popul i) u db = db\<lparr>tUserPopul := (tUserPopul db)[i := u]\<rparr>"
| "set_user (Popul1 i) u db = db\<lparr>tUserPopul1 := (tUserPopul1 db)[i := u]\<rparr>"

subsection \<open>Loading a population\<close>

definition LDAP_SCOPE_BASE :: int where [simp]: "LDAP_SCOPE_BASE = 0"
definition LDAP_SCOPE_ONELEVEL :: int where [simp]: "LDAP_SCOPE_ONELEVEL = 1"
definition LDAP_SCOPE_SUBTREE :: int where [simp]: "LDAP_SCOPE_SUBTREE = 2"
definition AUTHTYPE_EAPSIM :: int where [simp]: "AUTHTYPE_EAPSIM = 6"

text \<open>
  The environment of the loading functions: the configuration, the options of the command line,
  the free memory, the size of \<^verbatim>\<open>tUser\<close> on the platform, what fresh memory contains and which
  allocations succeed.
\<close>

record uenv =
  u_ini :: ini
  sameUserPasswd :: bool
  u_trafficInfo :: int
  u_frmkb :: nat
  u_sizeof :: int
  junkUser :: tUser
  junkEntry :: tLdapEntry
  junkAuth :: tAuth
  junkSess :: tSess
  reallocOk :: bool
  mallocOk :: "int \<Rightarrow> bool"

definition make_entry :: "int \<Rightarrow> string \<Rightarrow> string \<Rightarrow> string \<Rightarrow> tLdapEntry result" where
  "make_entry scp pdn rdn flt =
     rbind (strcpy_buf 256 (rdn @ '','' @ pdn))
       (\<lambda>b. rbind (strcpy_buf 256 b)
         (\<lambda>d. rbind (strcpy_buf 128 flt)
           (\<lambda>f. Inr \<lparr>dn = d, base = b, filter_str = f, scope = scp\<rparr>)))"

definition make_auth :: "uenv \<Rightarrow> string \<Rightarrow> string \<Rightarrow> int \<Rightarrow> tAuth result" where
  "make_auth e nai_s passwd_s authtype =
     rbind (strcpy_buf 64 nai_s)
       (\<lambda>n. rbind (strcpy_buf 32 (if sameUserPasswd e \<and> authtype \<noteq> AUTHTYPE_EAPSIM then ''jean'' else passwd_s))
         (\<lambda>p. Inr ((junkAuth e)\<lparr>frId := None, nai := n, authType := authtype, passwd := p\<rparr>)))"

definition tUserPopulFillIn :: "uenv \<Rightarrow> int \<Rightarrow> string \<Rightarrow> string \<Rightarrow> string \<Rightarrow> string \<Rightarrow> string \<Rightarrow> int \<Rightarrow> int
    \<Rightarrow> userdb \<Rightarrow> (int \<times> userdb) result" where
  "tUserPopulFillIn e scp pdn rdn flt nai_s passwd_s authtype idx db =
     rbind (tUserGet idx db)
       (\<lambda>p. let u0 = user_at db p;
                u1 = u0\<lparr>priv := (priv u0)\<lparr>priv_id := idx, priv_cnt := 0, lastSce := None\<rparr>\<rparr>
            in if rdn \<noteq> [] \<and> \<not> mallocOk e idx then Inr (1, set_user p (u1\<lparr>ldapE := None\<rparr>) db)
               else if rdn \<noteq> [] \<and> scp \<noteq> LDAP_SCOPE_BASE \<and> scp \<noteq> LDAP_SCOPE_ONELEVEL \<and> scp \<noteq> LDAP_SCOPE_SUBTREE
               then Inr (1, set_user p (u1\<lparr>ldapE := Some (junkEntry e)\<rparr>) db)
               else rbind (if rdn \<noteq> [] then rbind (make_entry scp pdn rdn flt) (\<lambda>l. Inr (u1\<lparr>ldapE := Some l\<rparr>))
                           else Inr u1)
                 (\<lambda>u2. let u3 = u2\<lparr>cmdRes := None\<rparr>
                       in if nai_s = [] then Inr (0, set_user p u3 db)
                          else if \<not> mallocOk e idx then Inr (1, set_user p (u3\<lparr>auth := None\<rparr>) db)
                          else rbind (make_auth e nai_s passwd_s authtype)
                            (\<lambda>a. Inr (0, set_user p (u3\<lparr>auth := Some a, sess := Some (junkSess e)\<rparr>) db))))"

text \<open>\<^verbatim>\<open>realloc\<close> of a block to \<open>n\<close> users: the old users stay, the new cells are unknown.\<close>

definition realloc_users :: "uenv \<Rightarrow> int \<Rightarrow> tUser list \<Rightarrow> tUser list option" where
  "realloc_users e n old =
     (if reallocOk e \<and> 0 \<le> n
      then Some (take (nat n) old @ replicate (nat n - length old) (junkUser e)) else None)"

definition alloc_popul :: "uenv \<Rightarrow> userdb \<Rightarrow> (bool \<times> userdb)" where
  "alloc_popul e db =
     (if tcUserNb db \<le> MaxUsrMemory db then
        (case realloc_users e (tcUserNb db) (tUserPopul db) of
           None \<Rightarrow> (False, db\<lparr>tUserPopul := []\<rparr>) | Some l \<Rightarrow> (True, db\<lparr>tUserPopul := l\<rparr>))
      else
        (let db1 = db\<lparr>tcUserNb1 := tcUserNb db - MaxUsrMemory db, tcUserNb2 := MaxUsrMemory db\<rparr>
         in case realloc_users e (tcUserNb2 db1) (tUserPopul db1) of
              None \<Rightarrow> (False, db1\<lparr>tUserPopul := []\<rparr>)
            | Some l \<Rightarrow>
                (case realloc_users e (tcUserNb1 db1) (tUserPopul1 db1) of
                   None \<Rightarrow> (False, db1\<lparr>tUserPopul := l, tUserPopul1 := []\<rparr>)
                 | Some l1 \<Rightarrow> (True, db1\<lparr>tUserPopul := l, tUserPopul1 := l1\<rparr>))))"

text \<open>The parameters of a population in the configuration file.\<close>

record popul_conf =
  pc_scope :: int
  pc_pdn :: string
  pc_rdn_i :: string
  pc_filter_i :: string
  pc_nai_i :: string
  pc_passwd_i :: string
  pc_authtype :: int

definition get_str :: "ini \<Rightarrow> string \<Rightarrow> string \<Rightarrow> string \<Rightarrow> nat \<Rightarrow> string" where
  "get_str ini sec key def len = (case ProfileGetString ini sec key (Some def) len of Some s \<Rightarrow> s | None \<Rightarrow> [])"

definition read_popul :: "ini \<Rightarrow> string \<Rightarrow> popul_conf" where
  "read_popul ini sec =
     \<lparr>pc_scope = ProfileGetInt ini sec ''scope'' LDAP_SCOPE_BASE,
      pc_pdn = get_str ini sec ''pdn'' [] 128,
      pc_rdn_i = get_str ini sec ''rdn_i'' [] 128,
      pc_filter_i = get_str ini sec ''filter_i'' ''(objectclass=*)'' 128,
      pc_nai_i = get_str ini sec ''nai_i'' [] 128,
      pc_passwd_i = get_str ini sec ''passwd_i'' [] 128,
      pc_authtype = ProfileGetInt ini sec ''authtype'' AUTHTYPE_EAPSIM\<rparr>"

text \<open>The loop that fills the table, for the users \<open>i, ..., i + n - 1\<close>, until an error.\<close>

fun fill_loop :: "uenv \<Rightarrow> popul_conf \<Rightarrow> nat \<Rightarrow> int \<Rightarrow> userdb \<Rightarrow> (int \<times> userdb) result" where
  "fill_loop e pc 0 i db = Inr (0, db)"
| "fill_loop e pc (Suc n) i db =
     rbind (sprintf_buf 128 (pc_rdn_i pc) i) (\<lambda>rdn.
     rbind (sprintf_buf 128 (pc_filter_i pc) i) (\<lambda>flt.
     rbind (sprintf_buf 128 (pc_nai_i pc) i) (\<lambda>nai_s.
     rbind (sprintf_buf 128 (pc_passwd_i pc) i) (\<lambda>passwd_s.
     rbind (tUserPopulFillIn e (pc_scope pc) (pc_pdn pc) rdn flt nai_s passwd_s (pc_authtype pc)
              (tUserCurrentIndex db) (db\<lparr>tUserCurrentIndex := tUserCurrentIndex db + 1\<rparr>)) (\<lambda>(rc, db').
       if rc \<noteq> 0 then Inr (rc, db') else fill_loop e pc n (i + 1) db')))))"

definition popul_section :: "int \<Rightarrow> string" where
  "popul_section populIndex = ''Popul_'' @ show_int populIndex"

definition tUserPopulInit :: "uenv \<Rightarrow> int \<Rightarrow> userdb \<Rightarrow> (int \<times> userdb) result" where
  "tUserPopulInit e populIndex db =
     (let sec = popul_section populIndex
      in if get_str (u_ini e) sec ''description'' [] 256 = [] then Inr (1, db)
         else
           (let db1 = db\<lparr>tcRadiusNasIdBase := (\<lambda>r. (if r then ''WAC_'' else ''NAS_'') @ sec @ ''_''),
                         tcRadiusNasIpAddBase := (\<lambda>r. if r then ''127.1.1.'' else ''127.0.0.'')\<rparr>;
                userMin = ProfileGetInt (u_ini e) sec ''min'' 0;
                userMax0 = ProfileGetInt (u_ini e) sec ''max'' 0
            in if userMax0 \<le> userMin then Inl (Exit 1)
               else
                 (let userNbMax = to_int32 (userMax0 - userMin + 1);
                      userNb0 = ProfileGetInt (u_ini e) sec ''nb'' userNbMax;
                      userNb = (if userNbMax < userNb0 then userNbMax else userNb0);
                      userMax = (if userNb < userNbMax then to_int32 (userMin + userNb - 1) else userMax0);
                      db2 = db1\<lparr>tcUserNb := to_int32 (tcUserNb db1 + userNb)\<rparr>
                  in if u_trafficInfo e = 1 then Inr (0, db2)
                     else if int (u_frmkb e) < (u_sizeof e * (tcUserNb db2 sdiv 100)) mod 2 ^ 64 then Inr (1, db2)
                     else (case alloc_popul e db2 of
                             (False, db3) \<Rightarrow> Inr (1, db3)
                           | (True, db3) \<Rightarrow>
                               fill_loop e (read_popul (u_ini e) sec) (nat (userMax - userMin + 1)) userMin db3))))"

subsection \<open>Initialisation\<close>

text \<open>The loop over the list of populations.\<close>

fun popul_list :: "uenv \<Rightarrow> string list \<Rightarrow> userdb \<Rightarrow> (int \<times> userdb) result" where
  "popul_list e [] db = Inr (0, db)"
| "popul_list e (pch # rest) db =
     rbind (tUserPopulInit e (atoi pch) db) (\<lambda>(rc, db').
       if rc \<noteq> 0 then Inr (1, db') else popul_list e rest db')"

text \<open>The loop that fills \<^verbatim>\<open>radAuthTypeTab\<close>; \<open>codes\<close> are the codes still to read.\<close>

definition fill_rate :: "int \<Rightarrow> int \<Rightarrow> int \<Rightarrow> int list \<Rightarrow> int list" where
  "fill_rate i rate code tab = map (\<lambda>k. if i \<le> int k \<and> int k < i + rate then code else tab ! k) [0..<length tab]"

definition authtype_rate :: "ini \<Rightarrow> nat \<Rightarrow> int" where
  "authtype_rate ini code = ProfileGetInt ini ''Radius'' (''authtype_distrib_'' @ show_nat code) 0"

fun authtype_loop :: "ini \<Rightarrow> nat list \<Rightarrow> int \<Rightarrow> int list \<Rightarrow> (int \<times> int list) result" where
  "authtype_loop ini [] i tab = Inr (0, tab)"
| "authtype_loop ini (code # rest) i tab =
     (let rate = authtype_rate ini code
      in if 100 < i + rate then Inr (1, tab)
         else if 0 < rate \<and> i < 0 then Inl OutOfBounds
         else authtype_loop ini rest (i + rate) (fill_rate i rate (int code) tab))"

definition tUserInit :: "uenv \<Rightarrow> string option \<Rightarrow> userdb \<Rightarrow> (int \<times> userdb) result" where
  "tUserInit e populationList db =
     (case populationList of
        None \<Rightarrow> Inr (0, db)
      | Some l \<Rightarrow>
          if strtok l '','' = None then Inr (1, db)
          else rbind (popul_list e (strtok_all l '','') db) (\<lambda>(rc, db1).
                 if rc \<noteq> 0 then Inr (1, db1)
                 else rbind (authtype_loop (u_ini e) [0..<20] 0 (radAuthTypeTab db1)) (\<lambda>(rc2, tab).
                        Inr (rc2, db1\<lparr>radAuthTypeTab := tab\<rparr>))))"

text \<open>\<^verbatim>\<open>tUserPopulInfo\<close> prints the populations and ends the program; the codes of \<^verbatim>\<open>tUserPopulInit\<close> are ignored.\<close>

fun popul_info_loop :: "uenv \<Rightarrow> int list \<Rightarrow> userdb \<Rightarrow> userdb result" where
  "popul_info_loop e [] db = Inr db"
| "popul_info_loop e (p # ps) db = rbind (tUserPopulInit e p db) (\<lambda>(rc, db'). popul_info_loop e ps db')"

definition tUserPopulInfo :: "uenv \<Rightarrow> string \<Rightarrow> userdb \<Rightarrow> unit result" where
  "tUserPopulInfo e populationList db =
     (let e' = e\<lparr>u_trafficInfo := 1\<rparr>
      in if atoi populationList = 0 then rbind (popul_info_loop e' [1..9999] db) (\<lambda>_. Inl (Exit 0))
         else if strtok populationList '','' = None then Inl (Exit 1)
         else rbind (popul_info_loop e' (map atoi (strtok_all populationList '','')) db) (\<lambda>_. Inl (Exit 0)))"

subsection \<open>Accessors\<close>

text \<open>A dereference of a null pointer field is a fault.\<close>

definition deref :: "'a option \<Rightarrow> 'a result" where
  "deref p = (case p of None \<Rightarrow> Inl NullDeref | Some x \<Rightarrow> Inr x)"

lemma deref_simps [simp]: "deref None = Inl NullDeref" "deref (Some x) = Inr x"
  by (simp_all add: deref_def)

definition tUserGetId :: "tUser \<Rightarrow> int" where
  "tUserGetId u = priv_id (priv u)"

definition tUserGetExclusion :: "tSce list \<Rightarrow> tUser \<Rightarrow> int" where
  "tUserGetExclusion sces u = (case lastSce (priv u) of Some s \<Rightarrow> exclusion (sces ! s) | None \<Rightarrow> 0)"

definition tUserGetBaseIsThereACmd :: "tUser \<Rightarrow> bool" where
  "tUserGetBaseIsThereACmd u \<longleftrightarrow> cmdRes u \<noteq> None"

definition tUserGetBaseFromCmdRes :: "tUser \<Rightarrow> string option" where
  "tUserGetBaseFromCmdRes u = (case cmdRes u of Some c \<Rightarrow> cr_base c | None \<Rightarrow> None)"

definition tUserGetFilterFromCmdRes :: "tUser \<Rightarrow> string option" where
  "tUserGetFilterFromCmdRes u = (case cmdRes u of Some c \<Rightarrow> cr_filter c | None \<Rightarrow> None)"

definition tUserGetDN :: "tUser \<Rightarrow> string option result" where
  "tUserGetDN u = (if tUserGetBaseIsThereACmd u then Inr (tUserGetBaseFromCmdRes u)
     else rbind (deref (ldapE u)) (\<lambda>l. Inr (Some (dn l))))"

definition tUserGetBase :: "tUser \<Rightarrow> string option result" where
  "tUserGetBase u = (if tUserGetBaseIsThereACmd u then Inr (tUserGetBaseFromCmdRes u)
     else rbind (deref (ldapE u)) (\<lambda>l. Inr (Some (base l))))"

definition tUserGetFilter :: "tUser \<Rightarrow> string option result" where
  "tUserGetFilter u = (if tUserGetBaseIsThereACmd u then Inr (tUserGetFilterFromCmdRes u)
     else rbind (deref (ldapE u)) (\<lambda>l. Inr (Some (filter_str l))))"

definition tUserGetScope :: "tUser \<Rightarrow> int result" where
  "tUserGetScope u = rbind (deref (ldapE u)) (\<lambda>l. Inr (scope l))"

definition tUserGetNAI :: "tUser \<Rightarrow> string result" where
  "tUserGetNAI u = rbind (deref (auth u)) (\<lambda>a. Inr (nai a))"

definition tUserGetAuthType :: "tUser \<Rightarrow> int result" where
  "tUserGetAuthType u = rbind (deref (auth u)) (\<lambda>a. Inr (authType a))"

definition upd_auth :: "(tAuth \<Rightarrow> tAuth result) \<Rightarrow> tUser \<Rightarrow> tUser result" where
  "upd_auth f u = rbind (deref (auth u)) (\<lambda>a. rbind (f a) (\<lambda>a'. Inr (u\<lparr>auth := Some a'\<rparr>)))"

definition upd_sess :: "(tSess \<Rightarrow> tSess result) \<Rightarrow> tUser \<Rightarrow> tUser result" where
  "upd_sess f u = rbind (deref (sess u)) (\<lambda>a. rbind (f a) (\<lambda>a'. Inr (u\<lparr>sess := Some a'\<rparr>)))"

definition tUserSetAuthType :: "int \<Rightarrow> tUser \<Rightarrow> tUser result" where
  "tUserSetAuthType t = upd_auth (\<lambda>a. Inr (a\<lparr>authType := t\<rparr>))"

definition tUserGetPasswd :: "tUser \<Rightarrow> string result" where
  "tUserGetPasswd u = rbind (deref (auth u)) (\<lambda>a. Inr (passwd a))"

definition tUserSetPasswd :: "string \<Rightarrow> tUser \<Rightarrow> tUser result" where
  "tUserSetPasswd p = upd_auth (\<lambda>a. rbind (strcpy_buf 32 p) (\<lambda>b. Inr (a\<lparr>passwd := b\<rparr>)))"

definition tUserGetIMSI :: "tUser \<Rightarrow> string result" where
  "tUserGetIMSI u = rbind (deref (auth u)) (\<lambda>a. Inr (passwd a))"

definition tUserSetIMSI :: "string \<Rightarrow> tUser \<Rightarrow> tUser result" where
  "tUserSetIMSI p = upd_auth (\<lambda>a. rbind (strcpy_buf 32 p) (\<lambda>b. Inr (a\<lparr>passwd := b\<rparr>)))"

text \<open>
  \<^verbatim>\<open>memcpy(buf, data, n)\<close> into a buffer of the user, for the length \<open>n\<close> that the setters clamp: a
  negative length is a huge \<^verbatim>\<open>size_t\<close>, and reading more than the source has is out of bounds.
\<close>

definition clamp :: "int \<Rightarrow> int \<Rightarrow> int" where
  "clamp m len = (if m < len then m else len)"

definition memcpy_buf :: "string \<Rightarrow> string \<Rightarrow> int \<Rightarrow> string result" where
  "memcpy_buf buf data n =
     (if n < 0 \<or> int (length data) < n \<or> int (length buf) < n then Inl OutOfBounds
      else Inr (take (nat n) data @ drop (nat n) buf))"

definition tUserGetSessionId :: "bool \<Rightarrow> tUser \<Rightarrow> string result" where
  "tUserGetSessionId reloc u = rbind (deref (sess u)) (\<lambda>s. Inr (sessionId s reloc))"

definition tUserGetSessionIdLength :: "bool \<Rightarrow> tUser \<Rightarrow> int result" where
  "tUserGetSessionIdLength reloc u = rbind (deref (sess u)) (\<lambda>s. Inr (sessionIdLength s reloc))"

definition tUserSetSessionId :: "string \<Rightarrow> int \<Rightarrow> bool \<Rightarrow> tUser \<Rightarrow> tUser result" where
  "tUserSetSessionId data len reloc =
     upd_sess (\<lambda>s. rbind (memcpy_buf (sessionId s reloc) data (clamp 32 len))
       (\<lambda>b. Inr (s\<lparr>sessionIdLength := (sessionIdLength s)(reloc := clamp 32 len),
                   sessionId := (sessionId s)(reloc := b)\<rparr>)))"

definition tUserGetSessionStartTime :: "bool \<Rightarrow> tUser \<Rightarrow> int result" where
  "tUserGetSessionStartTime reloc u = rbind (deref (sess u)) (\<lambda>s. Inr (startTime s reloc))"

definition tUserSetSessionStartTime :: "int \<Rightarrow> bool \<Rightarrow> tUser \<Rightarrow> tUser result" where
  "tUserSetSessionStartTime date reloc =
     upd_sess (\<lambda>s. Inr (s\<lparr>startTime := (startTime s)(reloc := date)\<rparr>))"

definition tUserGetClassAttrib :: "bool \<Rightarrow> tUser \<Rightarrow> string result" where
  "tUserGetClassAttrib reloc u = rbind (deref (sess u)) (\<lambda>s. Inr (classAttrib s reloc))"

definition tUserGetClassAttribLength :: "bool \<Rightarrow> tUser \<Rightarrow> int result" where
  "tUserGetClassAttribLength reloc u = rbind (deref (sess u)) (\<lambda>s. Inr (classAttribLength s reloc))"

definition tUserSetClassAttrib :: "string \<Rightarrow> int \<Rightarrow> bool \<Rightarrow> tUser \<Rightarrow> tUser result" where
  "tUserSetClassAttrib data len reloc =
     upd_sess (\<lambda>s. rbind (memcpy_buf (classAttrib s reloc) data (clamp 160 len))
       (\<lambda>b. Inr (s\<lparr>classAttribLength := (classAttribLength s)(reloc := clamp 160 len),
                   classAttrib := (classAttrib s)(reloc := b)\<rparr>)))"

definition tUserGetStateAttrib :: "bool \<Rightarrow> tUser \<Rightarrow> string result" where
  "tUserGetStateAttrib reloc u = rbind (deref (auth u)) (\<lambda>a. Inr (stateAttrib a reloc))"

definition tUserGetStateAttribLength :: "bool \<Rightarrow> tUser \<Rightarrow> int result" where
  "tUserGetStateAttribLength reloc u = rbind (deref (auth u)) (\<lambda>a. Inr (stateAttribLength a reloc))"

definition tUserSetStateAttrib :: "string \<Rightarrow> int \<Rightarrow> bool \<Rightarrow> tUser \<Rightarrow> tUser result" where
  "tUserSetStateAttrib data len reloc =
     upd_auth (\<lambda>a. rbind (memcpy_buf (stateAttrib a reloc) data (clamp 160 len))
       (\<lambda>b. Inr (a\<lparr>stateAttribLength := (stateAttribLength a)(reloc := clamp 160 len),
                   stateAttrib := (stateAttrib a)(reloc := b)\<rparr>)))"

definition tUserGetPortNb :: "tUser \<Rightarrow> int result" where
  "tUserGetPortNb u = rbind (deref (sess u)) (\<lambda>s. Inr (portNb s))"

definition tUserSetPortNb :: "int \<Rightarrow> tUser \<Rightarrow> tUser result" where
  "tUserSetPortNb p = upd_sess (\<lambda>s. Inr (s\<lparr>portNb := p\<rparr>))"

definition tUserGetAAASessionId :: "tUser \<Rightarrow> string result" where
  "tUserGetAAASessionId u = rbind (deref (auth u)) (\<lambda>a. Inr (aaa_session_id a))"

definition tUserGetAAASessionIdLength :: "tUser \<Rightarrow> int result" where
  "tUserGetAAASessionIdLength u = rbind (deref (auth u)) (\<lambda>a. Inr (aaa_session_idLength a))"

definition tUserSetAAASessionId :: "string \<Rightarrow> int \<Rightarrow> tUser \<Rightarrow> tUser result" where
  "tUserSetAAASessionId data len =
     upd_auth (\<lambda>a. rbind (memcpy_buf (aaa_session_id a) data (clamp 32 len))
       (\<lambda>b. Inr (a\<lparr>aaa_session_idLength := clamp 32 len, aaa_session_id := b\<rparr>)))"

definition tUserGetPPAQ :: "tUser \<Rightarrow> string result" where
  "tUserGetPPAQ u = rbind (deref (auth u)) (\<lambda>a. Inr (ppaq a))"

definition tUserGetPPAQLength :: "tUser \<Rightarrow> int result" where
  "tUserGetPPAQLength u = rbind (deref (auth u)) (\<lambda>a. Inr (ppaqLength a))"

definition tUserSetPPAQ :: "string \<Rightarrow> int \<Rightarrow> tUser \<Rightarrow> tUser result" where
  "tUserSetPPAQ data len =
     upd_auth (\<lambda>a. rbind (memcpy_buf (ppaq a) data (clamp 128 len))
       (\<lambda>b. Inr (a\<lparr>ppaqLength := clamp 128 len, ppaq := b\<rparr>)))"

text \<open>Fast re-authentication data: the keys and the identity; \<^verbatim>\<open>frId\<close> is the flag that they are there.\<close>

record eapsim_keys =
  ek_K_aut :: string
  ek_K_encr :: string

definition tUserGetFastAuthData :: "tUser \<Rightarrow> (eapsim_keys \<times> string) option result" where
  "tUserGetFastAuthData u =
     rbind (deref (auth u)) (\<lambda>a. Inr (case frId a of None \<Rightarrow> None
       | Some f \<Rightarrow> Some (\<lparr>ek_K_aut = K_aut a, ek_K_encr = K_encr a\<rparr>, f)))"

definition tUserSetFastAuthData :: "eapsim_keys \<Rightarrow> string option \<Rightarrow> tUser \<Rightarrow> tUser result" where
  "tUserSetFastAuthData mk fr_id =
     upd_auth (\<lambda>a. case fr_id of
         Some (c # s) \<Rightarrow> Inr (a\<lparr>K_aut := take 16 (ek_K_aut mk), K_encr := take 16 (ek_K_encr mk), frId := Some (c # s)\<rparr>)
       | _ \<Rightarrow> Inr (a\<lparr>frId := None\<rparr>))"

subsection \<open>Reservation\<close>

text \<open>The condition of the \<^verbatim>\<open>while\<close> of \<^verbatim>\<open>tUserCheckExclusion\<close>: the user may not be taken now.\<close>

definition excluded :: "tSce list \<Rightarrow> int \<Rightarrow> tUser \<Rightarrow> bool" where
  "excluded sces now u \<longleftrightarrow> exeState (priv u) \<noteq> exeState_IDLE \<or> now - lastTime (priv u) < tUserGetExclusion sces u"

partial_function (option) exclusion_loop ::
  "tSce list \<Rightarrow> int \<Rightarrow> userdb \<Rightarrow> int \<Rightarrow> int \<Rightarrow> int \<Rightarrow> int \<Rightarrow> int result option" where
  [code]: "exclusion_loop sces now db nbPopul MinPopul init i =
     (case tUserGet i db of
        Inl e \<Rightarrow> Some (Inl e)
      | Inr p \<Rightarrow>
          if excluded sces now (user_at db p) then
            (if nbPopul = 0 then Some (Inl DivByZero)
             else (let j = ((i + 1) smod nbPopul) + MinPopul
                   in if j = init then Some (Inr (-1))
                      else exclusion_loop sces now db nbPopul MinPopul init j))
          else Some (Inr i))"

definition tUserCheckExclusion :: "tSce list \<Rightarrow> int \<Rightarrow> userdb \<Rightarrow> int \<Rightarrow> int \<Rightarrow> int \<Rightarrow> int result option" where
  "tUserCheckExclusion sces now db userIndex nbPopul MinPopul =
     (case tUserGet userIndex db of
        Inl e \<Rightarrow> Some (Inl e)
      | Inr p \<Rightarrow>
          if tUserGetExclusion sces (user_at db p) \<noteq> 0
          then exclusion_loop sces now db nbPopul MinPopul userIndex userIndex
          else Some (Inr userIndex))"

text \<open>
  The choice of the next index by \<^verbatim>\<open>tcUserGetPolicy\<close>; \<open>rnd\<close> is the value of \<^verbatim>\<open>rand()\<close>. The second
  component tells whether the policy ended the run with \<^verbatim>\<open>SIGINT\<close>.
\<close>

definition popul_of :: "tSce list \<Rightarrow> nat option \<Rightarrow> (int \<times> int) option" where
  "popul_of sces sce = (case sce of
      Some s \<Rightarrow> if populNb (sces ! s) \<noteq> 0 then Some (populNb (sces ! s), populMin (sces ! s)) else None
    | None \<Rightarrow> None)"

definition choose_user :: "int \<Rightarrow> int \<Rightarrow> int \<Rightarrow> bool \<Rightarrow> tSce list \<Rightarrow> nat option \<Rightarrow> userdb \<Rightarrow> (int \<times> bool) result option" where
  "choose_user policy rnd now killcalled sces sce db =
     (let ok = (\<lambda>r. case r of None \<Rightarrow> None | Some (Inl e) \<Rightarrow> Some (Inl e) | Some (Inr i) \<Rightarrow> Some (Inr (i, False)))
      in if policy = 0 then
           (case popul_of sces sce of
              Some (nb, mn) \<Rightarrow> ok (tUserCheckExclusion sces now db (rnd smod nb + mn) nb mn)
            | None \<Rightarrow> if tcUserNb db = 0 then Some (Inl DivByZero)
                      else ok (tUserCheckExclusion sces now db (rnd smod tcUserNb db) (tcUserNb db) 0))
         else if policy = 1 then
           (if tUseri db = -2 then Some (Inr (-2, False))
            else if tcUserNb db \<le> tUseri db + 1 then Some (Inr (-2, \<not> killcalled))
            else Some (Inr (tUseri db + 1, False)))
         else if policy = 2 then
           (case popul_of sces sce of
              Some (nb, mn) \<Rightarrow> ok (tUserCheckExclusion sces now db (((tUseri db + 1) smod nb) + mn) nb mn)
            | None \<Rightarrow> if tcUserNb db = 0 then Some (Inl DivByZero)
                      else ok (tUserCheckExclusion sces now db ((tUseri db + 1) smod tcUserNb db) (tcUserNb db) 0))
         else Some (Inr (policy, False)))"

definition reserve :: "nat option \<Rightarrow> user_ptr \<Rightarrow> userdb \<Rightarrow> userdb" where
  "reserve sce p db =
     (let u = user_at db p
      in set_user p (u\<lparr>priv := (priv u)\<lparr>exeState := exeState_RUNNING, lastSce := sce\<rparr>\<rparr>) db)"

definition tUserGetRandomly :: "int \<Rightarrow> int \<Rightarrow> int \<Rightarrow> bool \<Rightarrow> tSce list \<Rightarrow> nat option \<Rightarrow> userdb
    \<Rightarrow> (user_ptr option \<times> bool \<times> userdb) result option" where
  "tUserGetRandomly policy rnd now killcalled sces sce db =
     (case choose_user policy rnd now killcalled sces sce db of
        None \<Rightarrow> None
      | Some (Inl e) \<Rightarrow> Some (Inl e)
      | Some (Inr (i, sigint)) \<Rightarrow>
          (let db1 = db\<lparr>tUseri := i\<rparr>
           in if i < 0 then Some (Inr (None, sigint, db1))
              else Some (rbind (tUserGet i db1) (\<lambda>p. Inr (Some p, sigint, reserve sce p db1)))))"

definition set_state :: "exe_state \<Rightarrow> int \<Rightarrow> int \<Rightarrow> userdb \<Rightarrow> userdb result" where
  "set_state st now i db =
     rbind (tUserGet i db) (\<lambda>p. let u = user_at db p
       in Inr (set_user p (u\<lparr>priv := (priv u)\<lparr>exeState := st, lastTime := now\<rparr>\<rparr>) db))"

definition tUserFree :: "int \<Rightarrow> int \<Rightarrow> userdb \<Rightarrow> userdb result" where
  "tUserFree now i db = set_state exeState_IDLE now i db"

definition tUserAbort :: "int \<Rightarrow> int \<Rightarrow> userdb \<Rightarrow> userdb result" where
  "tUserAbort now i db = set_state exeState_ABORT now i db"

definition tUserIsAborted :: "int \<Rightarrow> userdb \<Rightarrow> bool result" where
  "tUserIsAborted i db = rbind (tUserGet i db) (\<lambda>p. Inr (exeState (priv (user_at db p)) = exeState_ABORT))"

text \<open>
  \<^verbatim>\<open>read_meminfo\<close>: the lines of \<^verbatim>\<open>/proc/meminfo\<close>; the amounts in kB. \<^verbatim>\<open>sscanf\<close> with \<^verbatim>\<open>%lu\<close> leaves the field
  unchanged when there is no number.
\<close>

record stats_memory =
  frmkb :: nat
  bufkb :: nat
  camkb :: nat
  tlmkb :: nat
  frskb :: nat
  tlskb :: nat
  caskb :: nat
  comkb :: nat
  activekb :: nat
  inactkb :: nat

definition scan_lu :: "string \<Rightarrow> nat \<Rightarrow> nat" where
  "scan_lu s old = (let ds = takeWhile isdigit (lstrip s) in if ds = [] then old else min (num_val ds) (2 ^ 64 - 1))"

definition meminfo_line :: "string \<Rightarrow> stats_memory \<Rightarrow> stats_memory" where
  "meminfo_line line m =
     (if has_prefix ''MemTotal:'' line then m\<lparr>tlmkb := scan_lu (drop 9 line) (tlmkb m)\<rparr>
      else if has_prefix ''MemFree:'' line then m\<lparr>frmkb := scan_lu (drop 8 line) (frmkb m)\<rparr>
      else if has_prefix ''Buffers:'' line then m\<lparr>bufkb := scan_lu (drop 8 line) (bufkb m)\<rparr>
      else if has_prefix ''Cached:'' line then m\<lparr>camkb := scan_lu (drop 7 line) (camkb m)\<rparr>
      else if has_prefix ''SwapCached:'' line then m\<lparr>caskb := scan_lu (drop 11 line) (caskb m)\<rparr>
      else if has_prefix ''Active:'' line then m\<lparr>activekb := scan_lu (drop 7 line) (activekb m)\<rparr>
      else if has_prefix ''Inactive:'' line then m\<lparr>inactkb := scan_lu (drop 9 line) (inactkb m)\<rparr>
      else if has_prefix ''SwapTotal:'' line then m\<lparr>tlskb := scan_lu (drop 10 line) (tlskb m)\<rparr>
      else if has_prefix ''SwapFree:'' line then m\<lparr>frskb := scan_lu (drop 9 line) (frskb m)\<rparr>
      else if has_prefix ''Committed_AS:'' line then m\<lparr>comkb := scan_lu (drop 13 line) (comkb m)\<rparr>
      else m)"

definition read_meminfo :: "string option \<Rightarrow> stats_memory \<Rightarrow> stats_memory" where
  "read_meminfo meminfo m =
     (case meminfo of None \<Rightarrow> m | Some contents \<Rightarrow> foldl (\<lambda>m line. meminfo_line line m) m (fgets_all 127 contents))"

definition read_proc_meminfo :: "string option \<Rightarrow> nat \<times> nat" where
  "read_proc_meminfo meminfo =
     (let m = read_meminfo meminfo \<lparr>frmkb = 0, bufkb = 0, camkb = 0, tlmkb = 0, frskb = 0, tlskb = 0,
                caskb = 0, comkb = 0, activekb = 0, inactkb = 0\<rparr>
      in (tlmkb m, frmkb m))"

subsection \<open>The table of users\<close>

definition valid_ptr :: "userdb \<Rightarrow> user_ptr \<Rightarrow> bool" where
  "valid_ptr db p = (case p of Popul i \<Rightarrow> i < length (tUserPopul db) | Popul1 i \<Rightarrow> i < length (tUserPopul1 db))"

interpretation users: cells valid_ptr user_at "\<lambda>p u db. set_user p u db"
proof unfold_locales
  fix db p q u
  show "valid_ptr db p \<Longrightarrow> user_at (set_user p u db) p = u"
    by (cases p) (simp_all add: valid_ptr_def)
  show "q \<noteq> p \<Longrightarrow> user_at (set_user p u db) q = user_at db q"
    by (cases p; cases q) simp_all
  show "valid_ptr (set_user p u db) q = valid_ptr db q"
    by (cases p; cases q) (simp_all add: valid_ptr_def)
qed

lemma set_user_fields [simp]:
  "MaxUsrMemory (set_user p u db) = MaxUsrMemory db" "tcUserNb (set_user p u db) = tcUserNb db"
  "tUserCurrentIndex (set_user p u db) = tUserCurrentIndex db" "tUseri (set_user p u db) = tUseri db"
  "length (tUserPopul (set_user p u db)) = length (tUserPopul db)"
  "length (tUserPopul1 (set_user p u db)) = length (tUserPopul1 db)"
  "radAuthTypeTab (set_user p u db) = radAuthTypeTab db"
  by (cases p; simp)+

lemma tUserGet_set_user [simp]: "tUserGet i (set_user p u db) = tUserGet i db"
  by (simp add: tUserGet_def)

lemma user_state_simps [simp]:
  "tUserGet i (db\<lparr>tUseri := x\<rparr>) = tUserGet i db" "tUserGet i (db\<lparr>tUserCurrentIndex := x\<rparr>) = tUserGet i db"
  "valid_ptr (db\<lparr>tUseri := x\<rparr>) p = valid_ptr db p" "valid_ptr (db\<lparr>tUserCurrentIndex := x\<rparr>) p = valid_ptr db p"
  "user_at (db\<lparr>tUseri := x\<rparr>) p = user_at db p" "user_at (db\<lparr>tUserCurrentIndex := x\<rparr>) p = user_at db p"
  by (simp_all add: tUserGet_def valid_ptr_def split: user_ptr.split) (cases p; simp)+

lemma tUserGet_valid: "tUserGet i db = Inr p \<Longrightarrow> valid_ptr db p"
  by (auto simp: tUserGet_def valid_ptr_def Let_def split: if_splits)

lemma tUserGet_inj: "tUserGet i db = Inr p \<Longrightarrow> tUserGet j db = Inr p \<Longrightarrow> i = j"
  by (auto simp: tUserGet_def Let_def split: if_splits)

definition popul_wf :: "userdb \<Rightarrow> bool" where
  "popul_wf db \<longleftrightarrow> 0 \<le> MaxUsrMemory db \<and> 0 \<le> tcUserNb db
     \<and> length (tUserPopul db) = nat (min (tcUserNb db) (MaxUsrMemory db))
     \<and> length (tUserPopul1 db) = nat (tcUserNb db - MaxUsrMemory db)"

lemma tUserGet_ok:
  assumes "popul_wf db" "0 \<le> i" "i < tcUserNb db" "i \<noteq> MaxUsrMemory db"
  shows "\<exists>p. tUserGet i db = Inr p"
  using assms by (auto simp: popul_wf_def tUserGet_def Let_def min_def split: if_splits)

lemma tUserGet_boundary:
  assumes "popul_wf db" "MaxUsrMemory db < tcUserNb db"
  shows "tUserGet (MaxUsrMemory db) db = Inl OutOfBounds"
  using assms by (simp add: popul_wf_def tUserGet_def min_def)

subsection \<open>The search for a free user\<close>

definition user_excluded :: "tSce list \<Rightarrow> int \<Rightarrow> userdb \<Rightarrow> int \<Rightarrow> bool" where
  "user_excluded sces now db i = (case tUserGet i db of Inl e \<Rightarrow> False | Inr p \<Rightarrow> excluded sces now (user_at db p))"

text \<open>The index after \<open>j\<close> steps from \<open>init\<close>.\<close>

definition search_index :: "int \<Rightarrow> int \<Rightarrow> int \<Rightarrow> nat \<Rightarrow> int" where
  "search_index nb mn init j = (init - mn + int j * (mn + 1)) mod nb + mn"

lemma search_index_0: "mn \<le> init \<Longrightarrow> init < mn + nb \<Longrightarrow> search_index nb mn init 0 = init"
  by (simp add: search_index_def)

lemma search_index_range: "0 < nb \<Longrightarrow> mn \<le> search_index nb mn init j \<and> search_index nb mn init j < mn + nb"
  by (simp add: search_index_def)

lemma search_index_Suc:
  assumes "0 < nb" "0 \<le> mn"
  shows "((search_index nb mn init j + 1) smod nb) + mn = search_index nb mn init (Suc j)"
proof -
  have "0 \<le> search_index nb mn init j + 1" using search_index_range [OF assms(1), of mn init j] assms(2) by linarith
  then have "(search_index nb mn init j + 1) smod nb = ((init - mn + int j * (mn + 1)) mod nb + (mn + 1)) mod nb"
    using assms(1) by (simp add: signed_modulo_int_def signed_divide_int_def minus_mult_div_eq_mod
        mult.commute search_index_def add.assoc sgn_if)
  also have "\<dots> = (init - mn + int j * (mn + 1) + (mn + 1)) mod nb" by (rule mod_add_left_eq)
  also have "init - mn + int j * (mn + 1) + (mn + 1) = init - mn + int (Suc j) * (mn + 1)"
    by (simp add: algebra_simps)
  finally show ?thesis by (simp add: search_index_def)
qed

lemma search_index_period:
  assumes "0 < nb" "mn \<le> init" "init < mn + nb"
  shows "search_index nb mn init (nat nb) = init"
  using assms by (simp add: search_index_def)

lemma search_index_return:
  assumes "0 < nb" "mn \<le> init" "init < mn + nb" "coprime (mn + 1) nb" "search_index nb mn init k = init"
  shows "nb dvd int k"
proof -
  have "(init - mn + int k * (mn + 1)) mod nb = (init - mn) mod nb"
    using assms by (simp add: search_index_def)
  then have "nb dvd int k * (mn + 1)"
    by (metis add_diff_cancel_left' mod_eq_dvd_iff)
  with assms(4) show ?thesis
    by (simp add: coprime_commute coprime_dvd_mult_left_iff)
qed

lemma search_index_onto:
  assumes "0 < nb" "mn \<le> init" "init < mn + nb" "coprime (mn + 1) nb" "mn \<le> i" "i < mn + nb"
  shows "\<exists>j < nat nb. search_index nb mn init j = i"
proof -
  let ?f = "search_index nb mn init"
  have inj: "inj_on ?f {..<nat nb}"
  proof (rule inj_onI)
    fix a b assume ab: "a \<in> {..<nat nb}" "b \<in> {..<nat nb}" "?f a = ?f b"
    then have "nb dvd (int a - int b) * (mn + 1)"
      by (simp add: search_index_def mod_eq_dvd_iff left_diff_distrib)
    then have "nb dvd int a - int b"
      using assms(4) by (simp add: coprime_commute coprime_dvd_mult_left_iff)
    moreover have "\<bar>int a - int b\<bar> < nb" using ab(1,2) assms(1) by auto
    ultimately have "int a - int b = 0" using zdvd_not_zless [of "\<bar>int a - int b\<bar>" nb] by auto
    then show "a = b" by simp
  qed
  have "?f ` {..<nat nb} \<subseteq> {mn..<mn + nb}" using search_index_range [OF assms(1)] by auto
  moreover have "card (?f ` {..<nat nb}) = card {mn..<mn + nb}" using card_image [OF inj] by simp
  ultimately have "?f ` {..<nat nb} = {mn..<mn + nb}" by (intro card_subset_eq) auto
  moreover have "i \<in> {mn..<mn + nb}" using assms(5,6) by simp
  ultimately show ?thesis by (metis imageE lessThan_iff)
qed

lemma exclusion_loop_result:
  assumes "0 < nb" "0 \<le> mn" "mn \<le> init" "init < mn + nb"
    and "\<And>i. mn \<le> i \<Longrightarrow> i < mn + nb \<Longrightarrow> \<exists>p. tUserGet i db = Inr p"
    and "j < nat nb" "\<forall>k < j. user_excluded sces now db (search_index nb mn init k)"
  shows "(\<exists>k < nat nb. let r = search_index nb mn init k in
            exclusion_loop sces now db nb mn init (search_index nb mn init j) = Some (Inr r)
            \<and> \<not> user_excluded sces now db r)
     \<or> (\<exists>k \<le> nat nb. 0 < k \<and> search_index nb mn init k = init
          \<and> (\<forall>l < k. user_excluded sces now db (search_index nb mn init l))
          \<and> exclusion_loop sces now db nb mn init (search_index nb mn init j) = Some (Inr (-1)))"
  using assms(6,7)
proof (induction "nat nb - j" arbitrary: j)
  case 0
  then show ?case by simp
next
  case (Suc m)
  let ?i = "search_index nb mn init j" and ?i' = "search_index nb mn init (Suc j)"
  obtain p where p: "tUserGet ?i db = Inr p" using assms(5) search_index_range [OF assms(1)] by blast
  show ?case
  proof (cases "user_excluded sces now db ?i")
    case False
    then have "exclusion_loop sces now db nb mn init ?i = Some (Inr ?i)"
      using p by (subst exclusion_loop.simps) (simp add: user_excluded_def)
    with False Suc.prems(1) show ?thesis by (auto simp: Let_def)
  next
    case True
    then have loop: "exclusion_loop sces now db nb mn init ?i =
        (if ?i' = init then Some (Inr (-1)) else exclusion_loop sces now db nb mn init ?i')"
      using p assms(1) search_index_Suc [OF assms(1,2), of init j]
      by (subst exclusion_loop.simps) (simp add: user_excluded_def Let_def)
    have all: "\<forall>k < Suc j. user_excluded sces now db (search_index nb mn init k)"
      using True Suc.prems(2) by (simp add: less_Suc_eq)
    show ?thesis
    proof (cases "?i' = init")
      case True
      then show ?thesis using loop all Suc.prems(1) by (intro disjI2 exI [of _ "Suc j"]) simp
    next
      case False
      then have "Suc j < nat nb"
        using search_index_period [OF assms(1,3,4)] Suc.prems(1) by (cases "Suc j = nat nb") auto
      moreover have "m = nat nb - Suc j" using Suc.hyps(2) by simp
      ultimately show ?thesis using Suc.hyps(1) [of "Suc j"] all loop False by simp
    qed
  qed
qed

lemma check_exclusion_result:
  assumes "0 < nb" "0 \<le> mn" "mn \<le> init" "init < mn + nb" "tUserGet init db = Inr p"
    and "\<forall>i. mn \<le> i \<and> i < mn + nb \<longrightarrow> (\<exists>p. tUserGet i db = Inr p)"
  obtains (nocheck) "tUserGetExclusion sces (user_at db p) = 0"
      "tUserCheckExclusion sces now db init nb mn = Some (Inr init)"
  | (avail) k where "k < nat nb" "tUserGetExclusion sces (user_at db p) \<noteq> 0"
      "\<not> user_excluded sces now db (search_index nb mn init k)"
      "tUserCheckExclusion sces now db init nb mn = Some (Inr (search_index nb mn init k))"
  | (busy) k where "0 < k" "k \<le> nat nb" "search_index nb mn init k = init"
      "tUserGetExclusion sces (user_at db p) \<noteq> 0"
      "\<forall>l < k. user_excluded sces now db (search_index nb mn init l)"
      "tUserCheckExclusion sces now db init nb mn = Some (Inr (-1))"
proof (cases "tUserGetExclusion sces (user_at db p) = 0")
  case True
  then show thesis using assms(5) by (intro nocheck) (simp_all add: tUserCheckExclusion_def)
next
  case False
  then have "tUserCheckExclusion sces now db init nb mn = exclusion_loop sces now db nb mn init init"
    using assms(5) by (simp add: tUserCheckExclusion_def)
  moreover have "0 < nat nb" using assms(1) by simp
  note exclusion_loop_result [OF assms(1-4) _ this, of db sces now]
  ultimately show thesis
    using False search_index_0 [OF assms(3,4)] assms(6) by (auto simp: Let_def intro: avail busy)
qed

subsection \<open>Threads that reserve users\<close>

text \<open>
  The population and the users held by the worker threads. A worker reserves a user under
  \<^verbatim>\<open>tUserMutex\<close>, and frees the one it holds; a RADIUS message may abort any user.
\<close>

inductive ustep :: "int \<Rightarrow> tSce list \<Rightarrow> userdb \<times> user_ptr multiset \<Rightarrow> userdb \<times> user_ptr multiset \<Rightarrow> bool"
  for policy sces where
  u_get: "s < length sces \<Longrightarrow>
      tUserGetRandomly policy rnd now killcalled sces (Some s) db = Some (Inr (Some p, sigint, db')) \<Longrightarrow>
      ustep policy sces (db, H) (db', add_mset p H)"
| u_free: "p \<in># H \<Longrightarrow> tUserGet i db = Inr p \<Longrightarrow> tUserFree now i db = Inr db' \<Longrightarrow>
      ustep policy sces (db, H) (db', H - {#p#})"
| u_abort: "tUserAbort now i db = Inr db' \<Longrightarrow> ustep policy sces (db, H) (db', H)"

inductive_cases ustepE: "ustep policy sces (db, H) (db', H')"

definition is_reserved :: "tSce list \<Rightarrow> tUser \<Rightarrow> bool" where
  "is_reserved sces u \<longleftrightarrow> exeState (priv u) \<noteq> exeState_IDLE
     \<and> (case lastSce (priv u) of None \<Rightarrow> False | Some s \<Rightarrow> s < length sces)"

definition ustate_inv :: "tSce list \<Rightarrow> userdb \<times> user_ptr multiset \<Rightarrow> bool" where
  "ustate_inv sces S \<longleftrightarrow> (\<forall>p. count (snd S) p \<le> 1 \<and> (p \<in># snd S \<longrightarrow> valid_ptr (fst S) p \<and> is_reserved sces (user_at (fst S) p)))"

lemma exclusion_loop_free:
  "exclusion_loop sces now db nb mn init i = Some (Inr r) \<Longrightarrow> r = -1 \<or> \<not> user_excluded sces now db r"
proof -
  have "\<forall>r. y = Inr r \<longrightarrow> r = -1 \<or> \<not> user_excluded sces now db r"
    if "exclusion_loop sces now db nb mn init i = Some y" for y
    using that
  proof (rule exclusion_loop.raw_induct [rotated])
    fix f sces now db nb mn init i y
    assume IH: "\<And>sces now db nb mn init i y. f sces now db nb mn init i = Some y \<Longrightarrow>
        \<forall>r. y = Inr r \<longrightarrow> r = -1 \<or> \<not> user_excluded sces now db r"
      and step: "(case tUserGet i db of Inl e \<Rightarrow> Some (Inl e)
        | Inr p \<Rightarrow> if excluded sces now (user_at db p)
            then if nb = 0 then Some (Inl DivByZero)
                 else let j = (i + 1) smod nb + mn in if j = init then Some (Inr (- 1)) else f sces now db nb mn init j
            else Some (Inr i)) = Some y"
    from step show "\<forall>r. y = Inr r \<longrightarrow> r = -1 \<or> \<not> user_excluded sces now db r"
      by (auto simp: user_excluded_def [of sces now db i] Let_def split: sum.splits if_splits dest: IH)
  qed
  then show "exclusion_loop sces now db nb mn init i = Some (Inr r) \<Longrightarrow> r = -1 \<or> \<not> user_excluded sces now db r"
    by blast
qed

lemma check_exclusion_reserved:
  assumes "tUserCheckExclusion sces now db init nb mn = Some (Inr r)" "r \<noteq> -1" "tUserGet r db = Inr p"
    and "list_all (\<lambda>s. exclusion s \<noteq> 0) sces"
  shows "\<not> is_reserved sces (user_at db p)"
proof (cases "exclusion_loop sces now db nb mn init init = Some (Inr r)")
  case True
  with exclusion_loop_free assms(2) have "\<not> user_excluded sces now db r" by blast
  with assms(3) show ?thesis by (auto simp: user_excluded_def excluded_def is_reserved_def)
next
  case False
  with assms(1) obtain q where q: "tUserGet init db = Inr q" "tUserGetExclusion sces (user_at db q) = 0" "r = init"
    by (auto simp: tUserCheckExclusion_def split: sum.splits if_splits)
  then have "p = q" using assms(3) by simp
  with q(2) assms(4) show ?thesis
    by (auto simp: is_reserved_def tUserGetExclusion_def list_all_length split: option.splits)
qed

lemma get_reserves:
  assumes "tUserGetRandomly policy rnd now kc sces (Some s) db = Some (Inr (Some p, sg, db'))"
    and "policy = 0 \<or> policy = 2" "list_all (\<lambda>s. exclusion s \<noteq> 0) sces"
  obtains i where "tUserGet i db = Inr p" "db' = reserve (Some s) p (db\<lparr>tUseri := i\<rparr>)" "\<not> is_reserved sces (user_at db p)"
proof -
  from assms(1) obtain i where i: "choose_user policy rnd now kc sces (Some s) db = Some (Inr (i, sg))" "0 \<le> i"
      "tUserGet i (db\<lparr>tUseri := i\<rparr>) = Inr p" "db' = reserve (Some s) p (db\<lparr>tUseri := i\<rparr>)"
    by (auto simp: tUserGetRandomly_def Let_def split: option.splits sum.splits if_splits)
  from i(1) assms(2) obtain init nb mn where "tUserCheckExclusion sces now db init nb mn = Some (Inr i)"
    by (auto simp: choose_user_def Let_def split: option.splits sum.splits if_splits)
  moreover have "tUserGet i db = Inr p" using i(3) by simp
  ultimately show thesis
    using i(2,4) check_exclusion_reserved [of sces now db init nb mn i p] assms(3) by (intro that) auto
qed

lemma ustep_inv:
  assumes "ustep policy sces S S'" "ustate_inv sces S" "policy = 0 \<or> policy = 2"
    and "list_all (\<lambda>s. exclusion s \<noteq> 0) sces"
  shows "ustate_inv sces S'"
  using assms(1)
proof cases
  case (u_get s rnd now kc db p sg db' H)
  obtain i where i: "tUserGet i db = Inr p" "db' = reserve (Some s) p (db\<lparr>tUseri := i\<rparr>)"
      "\<not> is_reserved sces (user_at db p)"
    by (rule get_reserves [OF u_get(4) assms(3,4)])
  have v: "valid_ptr (db\<lparr>tUseri := i\<rparr>) p" using tUserGet_valid [OF i(1)] by simp
  have "p \<notin># H" using assms(2) i(3) by (auto simp: ustate_inv_def u_get(1))
  with assms(2) u_get(3) v show ?thesis
    by (auto simp: ustate_inv_def u_get(1,2) i(2) reserve_def Let_def users.rd_wr users.valid_wr
        is_reserved_def not_in_iff)
next
  case (u_free p H i db now db')
  then have "db' = set_user p ((user_at db p)\<lparr>priv := (priv (user_at db p))\<lparr>exeState := exeState_IDLE, lastTime := now\<rparr>\<rparr>) db"
    by (simp add: tUserFree_def set_state_def Let_def)
  moreover have "valid_ptr db p" using u_free(4) by (rule tUserGet_valid)
  moreover have "q \<noteq> p" if "q \<in># H - {#p#}" for q
    using that assms(2) u_free(3) by (auto simp: ustate_inv_def u_free(1) dest!: multi_member_split)
  ultimately show ?thesis
    using assms(2) by (auto simp: ustate_inv_def u_free(1,2) users.rd_wr users.valid_wr dest: in_diffD)
next
  case (u_abort now i db db' H)
  then obtain q where q: "tUserGet i db = Inr q"
    and db': "db' = set_user q ((user_at db q)\<lparr>priv := (priv (user_at db q))\<lparr>exeState := exeState_ABORT, lastTime := now\<rparr>\<rparr>) db"
    by (cases "tUserGet i db") (auto simp: tUserAbort_def set_state_def Let_def)
  then show ?thesis
    using assms(2) tUserGet_valid [OF q]
    by (auto simp: ustate_inv_def u_abort(1,2) users.rd_wr users.valid_wr is_reserved_def)
qed

lemma ustate_inv_reachable:
  assumes "(ustep policy sces)\<^sup>*\<^sup>* (db, {#}) S" "policy = 0 \<or> policy = 2" "list_all (\<lambda>s. exclusion s \<noteq> 0) sces"
  shows "ustate_inv sces S"
  using assms(1)
proof (induction rule: rtranclp_induct)
  case base
  then show ?case by (simp add: ustate_inv_def)
qed (use assms ustep_inv in blast)

subsection \<open>What loading a population stores\<close>

text \<open>The user that the configuration \<open>pc\<close> describes for the number \<open>i\<close>, stored over the cell \<open>u\<close> as user \<open>idx\<close>.\<close>

definition fmt :: "string \<Rightarrow> int \<Rightarrow> string" where
  "fmt f i = (case sprintf_d f i of Some s \<Rightarrow> s | None \<Rightarrow> [])"

definition stored_passwd :: "uenv \<Rightarrow> popul_conf \<Rightarrow> int \<Rightarrow> string" where
  "stored_passwd e pc i = (if sameUserPasswd e \<and> pc_authtype pc \<noteq> AUTHTYPE_EAPSIM then ''jean'' else fmt (pc_passwd_i pc) i)"

definition popul_user :: "uenv \<Rightarrow> popul_conf \<Rightarrow> int \<Rightarrow> int \<Rightarrow> tUser \<Rightarrow> tUser" where
  "popul_user e pc i idx u =
     \<lparr>priv = (priv u)\<lparr>priv_id := idx, priv_cnt := 0, lastSce := None\<rparr>,
      ldapE = (if fmt (pc_rdn_i pc) i = [] then ldapE u
               else Some \<lparr>dn = fmt (pc_rdn_i pc) i @ '','' @ pc_pdn pc, base = fmt (pc_rdn_i pc) i @ '','' @ pc_pdn pc,
                          filter_str = fmt (pc_filter_i pc) i, scope = pc_scope pc\<rparr>),
      cmdRes = None,
      auth = (if fmt (pc_nai_i pc) i = [] then auth u
              else Some ((junkAuth e)\<lparr>frId := None, nai := fmt (pc_nai_i pc) i, authType := pc_authtype pc,
                            passwd := stored_passwd e pc i\<rparr>)),
      sess = (if fmt (pc_nai_i pc) i = [] then sess u else Some (junkSess e))\<rparr>"

text \<open>The formats print, and what they print fits the fields of the structures.\<close>

definition fits :: "uenv \<Rightarrow> popul_conf \<Rightarrow> int \<Rightarrow> bool" where
  "fits e pc i \<longleftrightarrow>
     sprintf_d (pc_rdn_i pc) i \<noteq> None \<and> sprintf_d (pc_filter_i pc) i \<noteq> None
     \<and> sprintf_d (pc_nai_i pc) i \<noteq> None \<and> sprintf_d (pc_passwd_i pc) i \<noteq> None
     \<and> length (fmt (pc_rdn_i pc) i) < 128 \<and> length (fmt (pc_filter_i pc) i) < 128
     \<and> length (fmt (pc_nai_i pc) i) < 64 \<and> length (fmt (pc_passwd_i pc) i) < 128
     \<and> length (stored_passwd e pc i) < 32"

definition conf_ok :: "popul_conf \<Rightarrow> bool" where
  "conf_ok pc \<longleftrightarrow> length (pc_pdn pc) < 128 \<and> (pc_scope pc = 0 \<or> pc_scope pc = 1 \<or> pc_scope pc = 2)"

lemma sprintf_buf_fmt:
  "sprintf_d f i \<noteq> None \<Longrightarrow> length (fmt f i) < n \<Longrightarrow> sprintf_buf n f i = Inr (fmt f i)"
  by (auto simp: sprintf_buf_def fmt_def)

lemma make_entry_fits:
  "length rdn < 128 \<Longrightarrow> length pdn < 128 \<Longrightarrow> length flt < 128 \<Longrightarrow>
     make_entry scp pdn rdn flt = Inr \<lparr>dn = rdn @ '','' @ pdn, base = rdn @ '','' @ pdn, filter_str = flt, scope = scp\<rparr>"
  by (simp add: make_entry_def strcpy_buf_def)

lemma FillIn_result:
  assumes "tUserGet idx db = Inr p" "conf_ok pc" "fits e pc i" "mallocOk e idx"
  shows "tUserPopulFillIn e (pc_scope pc) (pc_pdn pc) (fmt (pc_rdn_i pc) i) (fmt (pc_filter_i pc) i)
      (fmt (pc_nai_i pc) i) (fmt (pc_passwd_i pc) i) (pc_authtype pc) idx db
     = Inr (0, set_user p (popul_user e pc i idx (user_at db p)) db)"
proof -
  have e: "make_entry (pc_scope pc) (pc_pdn pc) (fmt (pc_rdn_i pc) i) (fmt (pc_filter_i pc) i) =
      Inr \<lparr>dn = fmt (pc_rdn_i pc) i @ '','' @ pc_pdn pc, base = fmt (pc_rdn_i pc) i @ '','' @ pc_pdn pc,
           filter_str = fmt (pc_filter_i pc) i, scope = pc_scope pc\<rparr>"
    using assms(2,3) by (intro make_entry_fits) (simp_all add: conf_ok_def fits_def)
  have a: "make_auth e (fmt (pc_nai_i pc) i) (fmt (pc_passwd_i pc) i) (pc_authtype pc) =
      Inr ((junkAuth e)\<lparr>frId := None, nai := fmt (pc_nai_i pc) i, authType := pc_authtype pc,
            passwd := stored_passwd e pc i\<rparr>)"
    using assms(3) by (auto simp: fits_def make_auth_def stored_passwd_def strcpy_buf_def)
  have s: "pc_scope pc = 0 \<or> pc_scope pc = 1 \<or> pc_scope pc = 2" using assms(2) by (simp add: conf_ok_def)
  show ?thesis
    using s by (simp add: tUserPopulFillIn_def assms(1,4) e a Let_def)
      (auto simp: popul_user_def intro!: arg_cong [where f = "\<lambda>u. set_user p u db"])
qed

text \<open>The loop is a sequence of writes to consecutive users: \<open>db'\<close> is \<open>db\<close> with the next \<open>n\<close> users filled in.\<close>

definition filled :: "uenv \<Rightarrow> popul_conf \<Rightarrow> nat \<Rightarrow> int \<Rightarrow> userdb \<Rightarrow> userdb \<Rightarrow> bool" where
  "filled e pc n i db db' \<longleftrightarrow> tUserCurrentIndex db' = tUserCurrentIndex db + int n
     \<and> (\<forall>j. tUserGet j db' = tUserGet j db) \<and> tcUserNb db' = tcUserNb db \<and> (popul_wf db \<longrightarrow> popul_wf db')
     \<and> MaxUsrMemory db' = MaxUsrMemory db
     \<and> (\<forall>j p. tUserGet j db = Inr p \<longrightarrow> user_at db' p =
          (if tUserCurrentIndex db \<le> j \<and> j < tUserCurrentIndex db + int n
           then popul_user e pc (i + (j - tUserCurrentIndex db)) j (user_at db p) else user_at db p))"

lemma filled_Suc:
  assumes p0: "tUserGet (tUserCurrentIndex db) db = Inr p0"
    and db1: "db1 = set_user p0 (popul_user e pc i (tUserCurrentIndex db) (user_at db p0)) (db\<lparr>tUserCurrentIndex := tUserCurrentIndex db + 1\<rparr>)"
    and f: "filled e pc n (i + 1) db1 db'"
  shows "filled e pc (Suc n) i db db'"
proof -
  let ?c = "tUserCurrentIndex db"
  have get1: "tUserGet j db1 = tUserGet j db" for j by (simp add: db1)
  have idx: "tUserCurrentIndex db1 = ?c + 1" by (simp add: db1)
  have w: "user_at db' p = (if ?c + 1 \<le> j \<and> j < ?c + 1 + int n then popul_user e pc (i + (j - ?c)) j (user_at db1 p) else user_at db1 p)"
    if "tUserGet j db = Inr p" for j p
    using f that unfolding filled_def idx get1 by simp
  have "user_at db' p = (if ?c \<le> j \<and> j < ?c + int (Suc n) then popul_user e pc (i + (j - ?c)) j (user_at db p) else user_at db p)"
    if j: "tUserGet j db = Inr p" for j p
  proof (cases "j = ?c")
    case True
    then have "p = p0" using j p0 by simp
    then show ?thesis using True w [OF j] tUserGet_valid [OF p0] by (simp add: db1 users.rd_wr)
  next
    case False
    then have "p \<noteq> p0" using j p0 tUserGet_inj by blast
    then have "user_at db1 p = user_at db p" by (simp add: db1 users.rd_wr_other)
    then show ?thesis using False w [OF j] by auto
  qed
  moreover have "popul_wf db \<Longrightarrow> popul_wf db1" by (simp add: db1 popul_wf_def)
  moreover have "tcUserNb db1 = tcUserNb db" "MaxUsrMemory db1 = MaxUsrMemory db" by (simp_all add: db1)
  ultimately show ?thesis using f by (simp add: filled_def get1 idx)
qed

lemma fill_loop_result:
  assumes "conf_ok pc" "\<forall>k < n. fits e pc (i + int k)" "\<forall>k. mallocOk e k"
    and "\<forall>k < n. \<exists>p. tUserGet (tUserCurrentIndex db + int k) db = Inr p"
  shows "\<exists>db'. fill_loop e pc n i db = Inr (0, db') \<and> filled e pc n i db db'"
  using assms(2,4)
proof (induction n arbitrary: i db)
  case (Suc n)
  let ?c = "tUserCurrentIndex db"
  obtain p0 where p0: "tUserGet ?c db = Inr p0" using Suc.prems(2) by fastforce
  define db1 where "db1 = set_user p0 (popul_user e pc i ?c (user_at db p0)) (db\<lparr>tUserCurrentIndex := ?c + 1\<rparr>)"
  have fit: "fits e pc i" using Suc.prems(1) by fastforce
  have step: "fill_loop e pc (Suc n) i db = fill_loop e pc n (i + 1) db1"
    using fit FillIn_result [OF _ assms(1) fit, of ?c "db\<lparr>tUserCurrentIndex := ?c + 1\<rparr>" p0] p0 assms(3)
    by (simp add: fits_def sprintf_buf_fmt db1_def)
  have "\<forall>k < n. fits e pc (i + 1 + int k)" using Suc.prems(1) by (auto simp: algebra_simps dest: spec [of _ "Suc _"])
  moreover have "\<exists>p. tUserGet (tUserCurrentIndex db1 + int k) db1 = Inr p" if "k < n" for k
    using Suc.prems(2) [rule_format, of "Suc k"] that by (simp add: db1_def algebra_simps)
  ultimately show ?case using Suc.IH [of "i + 1" db1] filled_Suc [OF p0 db1_def] unfolding step by blast
qed (auto simp: filled_def)

text \<open>The parameters of a loadable population: section \<open>sec\<close>, users \<open>lo\<close> to \<open>hi\<close>.\<close>

definition loadable :: "uenv \<Rightarrow> string \<Rightarrow> int \<Rightarrow> int \<Rightarrow> userdb \<Rightarrow> bool" where
  "loadable e sec lo hi db \<longleftrightarrow>
     get_str (u_ini e) sec ''description'' [] 256 \<noteq> []
     \<and> lo = ProfileGetInt (u_ini e) sec ''min'' 0 \<and> hi = ProfileGetInt (u_ini e) sec ''max'' 0
     \<and> lo < hi \<and> u_ini e sec ''nb'' = None \<and> u_trafficInfo e \<noteq> 1
     \<and> popul_wf db \<and> tUserCurrentIndex db = tcUserNb db
     \<and> tcUserNb db + (hi - lo + 1) \<le> MaxUsrMemory db \<and> MaxUsrMemory db < 2 ^ 31
     \<and> (u_sizeof e * ((tcUserNb db + (hi - lo + 1)) sdiv 100)) mod 2 ^ 64 \<le> int (u_frmkb e)
     \<and> reallocOk e \<and> conf_ok (read_popul (u_ini e) sec)"

lemma realloc_grow:
  "reallocOk e \<Longrightarrow> 0 \<le> m \<Longrightarrow> realloc_users e (int (length old) + m) old = Some (old @ replicate (nat m) (junkUser e))"
  by (simp add: realloc_users_def nat_add_distrib)

lemma alloc_popul_grow:
  assumes "popul_wf db" "reallocOk e" "0 < m" "tcUserNb db + m \<le> MaxUsrMemory db"
  shows "alloc_popul e (db\<lparr>tcUserNb := tcUserNb db + m\<rparr>) =
     (True, db\<lparr>tcUserNb := tcUserNb db + m, tUserPopul := tUserPopul db @ replicate (nat m) (junkUser e)\<rparr>)"
proof -
  have "tcUserNb db = int (length (tUserPopul db))"
    using assms by (simp add: popul_wf_def)
  then show ?thesis
    using assms realloc_grow [of e m "tUserPopul db"] by (simp add: alloc_popul_def)
qed

text \<open>The database after the table has grown by the users \<open>lo\<close> to \<open>hi\<close>, which are not filled in yet.\<close>

definition grown :: "uenv \<Rightarrow> string \<Rightarrow> int \<Rightarrow> userdb \<Rightarrow> userdb" where
  "grown e sec n db = db\<lparr>tcRadiusNasIdBase := (\<lambda>r. (if r then ''WAC_'' else ''NAS_'') @ sec @ ''_''),
      tcRadiusNasIpAddBase := (\<lambda>r. if r then ''127.1.1.'' else ''127.0.0.''),
      tcUserNb := tcUserNb db + n, tUserPopul := tUserPopul db @ replicate (nat n) (junkUser e)\<rparr>"

lemma grown_users:
  assumes "popul_wf db" "0 \<le> tcUserNb db" "tcUserNb db + n \<le> MaxUsrMemory db" "0 < n"
  shows "popul_wf (grown e sec n db)"
    and "0 \<le> d \<Longrightarrow> d < n \<Longrightarrow> tUserGet (tcUserNb db + d) (grown e sec n db) = Inr (Popul (nat (tcUserNb db + d)))"
    and "0 \<le> d \<Longrightarrow> d < n \<Longrightarrow> user_at (grown e sec n db) (Popul (nat (tcUserNb db + d))) = junkUser e"
    and "j < tcUserNb db \<Longrightarrow> tUserGet j db = Inr p \<Longrightarrow> tUserGet j (grown e sec n db) = Inr p \<and> user_at (grown e sec n db) p = user_at db p"
proof -
  have len: "int (length (tUserPopul db)) = tcUserNb db" using assms by (auto simp: popul_wf_def)
  show "popul_wf (grown e sec n db)" using assms by (auto simp: popul_wf_def grown_def nat_add_distrib)
  show "tUserGet (tcUserNb db + d) (grown e sec n db) = Inr (Popul (nat (tcUserNb db + d)))" if "0 \<le> d" "d < n"
    using that assms len by (auto simp: tUserGet_def grown_def)
  show "user_at (grown e sec n db) (Popul (nat (tcUserNb db + d))) = junkUser e" if "0 \<le> d" "d < n"
  proof -
    have "nat (tcUserNb db + d) = length (tUserPopul db) + nat d" "nat d < nat n" using that len by linarith+
    moreover have "tUserPopul (grown e sec n db) = tUserPopul db @ replicate (nat n) (junkUser e)" by (simp add: grown_def)
    ultimately show ?thesis by (simp only: user_at.simps nth_append_length_plus nth_replicate)
  qed
  show "tUserGet j (grown e sec n db) = Inr p \<and> user_at (grown e sec n db) p = user_at db p" if "j < tcUserNb db" "tUserGet j db = Inr p"
    using that assms len by (auto simp: tUserGet_def grown_def nth_append Let_def split: if_splits)
qed

lemma PopulInit_grows:
  assumes "loadable e sec lo hi db" "sec = popul_section k"
  shows "tUserPopulInit e k db = fill_loop e (read_popul (u_ini e) sec) (nat (hi - lo + 1)) lo (grown e sec (hi - lo + 1) db)"
proof -
  let ?n = "hi - lo + 1" and ?N = "tcUserNb db"
  have L: "lo < hi" "popul_wf db" "?N + ?n \<le> MaxUsrMemory db" "MaxUsrMemory db < 2 ^ 31" "reallocOk e" "0 \<le> ?N"
    using assms(1) by (auto simp: loadable_def popul_wf_def)
  define db2 where "db2 = db\<lparr>tcRadiusNasIdBase := (\<lambda>r. (if r then ''WAC_'' else ''NAS_'') @ sec @ ''_''),
      tcRadiusNasIpAddBase := (\<lambda>r. if r then ''127.1.1.'' else ''127.0.0.'')\<rparr>"
  have al: "alloc_popul e (db2\<lparr>tcUserNb := ?N + ?n\<rparr>) = (True, grown e sec ?n db)"
    using alloc_popul_grow [of db2 e ?n] L by (simp add: grown_def db2_def popul_wf_def)
  have r32: "to_int32 ?n = ?n" "to_int32 (?N + ?n) = ?N + ?n" using L by (auto intro!: to_int32_id)
  have D: "get_str (u_ini e) sec ''description'' [] 256 \<noteq> []" "ProfileGetInt (u_ini e) sec ''min'' 0 = lo"
    "ProfileGetInt (u_ini e) sec ''max'' 0 = hi" "u_trafficInfo e \<noteq> 1" "ProfileGetInt (u_ini e) sec ''nb'' ?n = ?n"
    "\<not> int (u_frmkb e) < (u_sizeof e * ((?N + ?n) sdiv 100)) mod 2 ^ 64"
    using assms(1) by (auto simp: loadable_def ProfileGetInt_def [of _ _ "''nb''"])
  show ?thesis
    unfolding tUserPopulInit_def assms(2) [symmetric] Let_def D(2,3) r32(1) D(5)
    using D(1,4,6) L(1) r32(2) al by (simp add: db2_def [symmetric]) (simp add: db2_def)
qed

lemma PopulInit_result:
  assumes "loadable e sec lo hi db" "sec = popul_section k"
    and "\<forall>i. lo \<le> i \<and> i \<le> hi \<longrightarrow> fits e (read_popul (u_ini e) sec) i" "\<forall>k. mallocOk e k"
  shows "\<exists>db'. tUserPopulInit e k db = Inr (0, db') \<and> popul_wf db'
     \<and> tcUserNb db' = tcUserNb db + (hi - lo + 1) \<and> tUserCurrentIndex db' = tcUserNb db'
     \<and> (\<forall>j p. j < tcUserNb db \<and> tUserGet j db = Inr p \<longrightarrow> tUserGet j db' = Inr p \<and> user_at db' p = user_at db p)
     \<and> (\<forall>i. lo \<le> i \<and> i \<le> hi \<longrightarrow> (\<exists>p. tUserGet (tcUserNb db + (i - lo)) db' = Inr p
          \<and> user_at db' p = popul_user e (read_popul (u_ini e) sec) i (tcUserNb db + (i - lo)) (junkUser e)))"
proof -
  let ?n = "hi - lo + 1" and ?N = "tcUserNb db" and ?pc = "read_popul (u_ini e) sec"
  let ?g = "grown e sec ?n db"
  have L: "lo < hi" "tUserCurrentIndex ?g = ?N" "tcUserNb ?g = ?N + ?n" "conf_ok ?pc" using assms(1) by (auto simp: loadable_def grown_def)
  have "popul_wf db" "0 \<le> ?N" "?N + ?n \<le> MaxUsrMemory db" "0 < ?n" using assms(1) by (auto simp: loadable_def popul_wf_def)
  note G = grown_users [where e = e and sec = sec, OF this]
  obtain db' where f: "fill_loop e ?pc (nat ?n) lo ?g = Inr (0, db')" "filled e ?pc (nat ?n) lo ?g db'"
    using fill_loop_result [OF L(4) _ assms(4), of "nat ?n" lo ?g] assms(3) G(2) by (auto simp: L(2))
  then have w: "tUserCurrentIndex db' = ?N + ?n" "tcUserNb db' = ?N + ?n" "popul_wf db'" "\<And>j. tUserGet j db' = tUserGet j ?g"
      "\<And>j p. tUserGet j ?g = Inr p \<Longrightarrow> user_at db' p =
          (if ?N \<le> j \<and> j < ?N + ?n then popul_user e ?pc (lo + (j - ?N)) j (user_at ?g p) else user_at ?g p)"
    using G(1) L by (auto simp: filled_def)
  have "\<exists>p. tUserGet (?N + (i - lo)) db' = Inr p \<and> user_at db' p = popul_user e ?pc i (?N + (i - lo)) (junkUser e)" if "lo \<le> i" "i \<le> hi" for i
    using that G(2,3) [of "i - lo"] w(4) w(5) [of "?N + (i - lo)"] by simp
  moreover have "tUserGet j db' = Inr p \<and> user_at db' p = user_at db p" if "j < ?N" "tUserGet j db = Inr p" for j p
    using G(4) [OF that] that(1) w(4) w(5) [of j p] by simp
  ultimately show ?thesis using f(1) w(1-3) PopulInit_grows [OF assms(1,2)] by auto
qed

subsection \<open>The distribution of authentication types\<close>

lemma fill_rate_split:
  assumes "0 \<le> i" "0 \<le> r" "i + r \<le> int (length tab)"
  shows "fill_rate i r c tab = take (nat i) tab @ replicate (nat r) c @ drop (nat (i + r)) tab"
proof (rule nth_equalityI)
  show "length (fill_rate i r c tab) = length (take (nat i) tab @ replicate (nat r) c @ drop (nat (i + r)) tab)"
    using assms by (simp add: fill_rate_def nat_add_distrib)
  fix k assume "k < length (fill_rate i r c tab)"
  then show "fill_rate i r c tab ! k = (take (nat i) tab @ replicate (nat r) c @ drop (nat (i + r)) tab) ! k"
    using assms by (auto simp: fill_rate_def nth_append nat_add_distrib)
qed

text \<open>The loop writes the codes one after the other, each as often as its rate.\<close>

definition spread :: "ini \<Rightarrow> nat list \<Rightarrow> int list" where
  "spread ini codes = concat (map (\<lambda>c. replicate (nat (authtype_rate ini c)) (int c)) codes)"

lemma authtype_loop_result:
  assumes "\<forall>c \<in> set codes. 0 \<le> authtype_rate ini c" "0 \<le> i" "length tab = 100" "i \<le> 100"
  shows "if i + (\<Sum>c\<leftarrow>codes. authtype_rate ini c) \<le> 100
     then authtype_loop ini codes i tab
       = Inr (0, take (nat i) tab @ spread ini codes @ drop (nat (i + (\<Sum>c\<leftarrow>codes. authtype_rate ini c))) tab)
     else \<exists>tab'. authtype_loop ini codes i tab = Inr (1, tab')"
  using assms
proof (induction codes arbitrary: i tab)
  case Nil
  then show ?case by (simp add: spread_def)
next
  case (Cons c codes)
  let ?r = "authtype_rate ini c" and ?S = "\<Sum>c\<leftarrow>codes. authtype_rate ini c"
  let ?t = "fill_rate i ?r (int c) tab"
  have r: "0 \<le> ?r" and S: "0 \<le> ?S" using Cons.prems(1) by (auto intro!: sum_list_nonneg)
  show ?case
  proof (cases "100 < i + ?r")
    case True
    then show ?thesis using S by (simp add: Let_def)
  next
    case False
    have step: "authtype_loop ini (c # codes) i tab = authtype_loop ini codes (i + ?r) ?t"
      using False Cons.prems(2) by (simp add: Let_def)
    have len: "length ?t = 100" using Cons.prems(3) by (simp add: fill_rate_def)
    have IH: "if i + ?r + ?S \<le> 100
       then authtype_loop ini codes (i + ?r) ?t
         = Inr (0, take (nat (i + ?r)) ?t @ spread ini codes @ drop (nat (i + ?r + ?S)) ?t)
       else \<exists>tab'. authtype_loop ini codes (i + ?r) ?t = Inr (1, tab')"
      using Cons.prems r False len by (intro Cons.IH) auto
    have "?t = take (nat i) tab @ replicate (nat ?r) (int c) @ drop (nat (i + ?r)) tab"
      using Cons.prems r False by (intro fill_rate_split) auto
    moreover have "nat (i + ?r) = nat i + nat ?r" "nat (i + ?r + ?S) = nat i + nat ?r + nat ?S" "nat i \<le> 100"
      using Cons.prems r S by (simp_all add: nat_add_distrib)
    ultimately have "take (nat (i + ?r)) ?t = take (nat i) tab @ replicate (nat ?r) (int c)"
      "drop (nat (i + ?r + ?S)) ?t = drop (nat (i + ?r + ?S)) tab"
      using Cons.prems(3) by (simp_all add: ac_simps)
    with IH step show ?thesis
      by (simp add: spread_def add.assoc split: if_splits)
  qed
qed

lemma length_spread:
  "\<forall>c \<in> set codes. 0 \<le> authtype_rate ini c \<Longrightarrow> int (length (spread ini codes)) = (\<Sum>c\<leftarrow>codes. authtype_rate ini c)"
  by (induction codes) (simp_all add: spread_def)

lemma count_spread:
  "distinct codes \<Longrightarrow> \<forall>c \<in> set codes. 0 \<le> authtype_rate ini c \<Longrightarrow>
     int (count_list (spread ini codes) (int c)) = (if c \<in> set codes then authtype_rate ini c else 0)"
proof (induction codes)
  case (Cons d codes)
  moreover have "count_list (replicate n (int d)) (int c) = (if c = d then n else 0)" for n
    by (induction n) auto
  ultimately show ?case by (auto simp: spread_def)
qed (simp add: spread_def)

subsection \<open>Properties\<close>

abbreviation sce1 :: tSce where
  "sce1 \<equiv> \<lparr>sce_name = [], sce_action = [], sce_cnt = 0, sce_ko = 0, sce_timeout = 0, exclusion = 5, populMin = 0, populNb = 0\<rparr>"

abbreviation mk_user :: "int \<Rightarrow> exe_state \<Rightarrow> nat option \<Rightarrow> tUser" where
  "mk_user i st s \<equiv> \<lparr>priv = \<lparr>priv_id = i, priv_cnt = 0, lastTime = 0, exeState = st, lastSce = s\<rparr>,
     ldapE = None, cmdRes = None, auth = None, sess = None\<rparr>"

abbreviation mk_db :: "tUser list \<Rightarrow> userdb" where
  "mk_db us \<equiv> userdb0\<lparr>tUserPopul := us, tcUserNb := int (length us), tUserCurrentIndex := int (length us)\<rparr>"

text \<open>
  In a well-formed population every index of a user denotes a cell of the tables, except one:
  when the population is larger than the first memory block, the index equal to \<^verbatim>\<open>MaxUsrMemory\<close> is
  taken for one of the first block (\<^verbatim>\<open><=\<close> for \<^verbatim>\<open><\<close>) and lies outside it. Different indices denote
  different cells.
\<close>

theorem tUserGet_bounds:
  assumes "popul_wf db" "0 \<le> i" "i < tcUserNb db"
  shows "(tUserGet i db = Inl OutOfBounds \<longleftrightarrow> i = MaxUsrMemory db)
     \<and> (i \<noteq> MaxUsrMemory db \<longrightarrow> (\<exists>p. tUserGet i db = Inr p \<and> valid_ptr db p \<and> (\<forall>j. tUserGet j db = Inr p \<longrightarrow> j = i)))"
proof (cases "i = MaxUsrMemory db")
  case True
  then show ?thesis using assms tUserGet_boundary [of db] by simp
next
  case False
  with tUserGet_ok [OF assms False] show ?thesis using tUserGet_valid tUserGet_inj by fastforce
qed

abbreviation split_db :: userdb where
  "split_db \<equiv> (mk_db [mk_user 0 exeState_IDLE None])\<lparr>MaxUsrMemory := 1, tcUserNb := 2,
     tUserPopul1 := [mk_user 1 exeState_IDLE None]\<rparr>"

theorem tUserGet_bounds_witness:
  "popul_wf split_db \<and> (1::int) < tcUserNb split_db \<and> tUserGet 1 split_db = Inl OutOfBounds"
proof -
  have "popul_wf split_db" by (simp add: popul_wf_def userdb0_def)
  with tUserGet_bounds [of split_db 1] show ?thesis by (simp add: userdb0_def)
qed


abbreviation db2 :: userdb where
  "db2 \<equiv> mk_db [mk_user 0 exeState_RUNNING (Some 0), mk_user 1 exeState_IDLE (Some 0)]"


text \<open>
  C40. The search skips users when the population does not start at index 0: the step
  \<^verbatim>\<open>((++tUseri) % nbPopul) + MinPopul\<close> advances by \<open>MinPopul + 1\<close>. If \<open>nbPopul\<close> divides
  \<open>MinPopul + 1\<close> only the first user is looked at, and the search reports that no user is free,
  whatever the state of the others.
\<close>

theorem exclusion_search_skips:
  assumes "0 < nb" "0 \<le> mn" "mn \<le> init" "init < mn + nb" "nb dvd mn + 1" "tUserGet init db = Inr p"
    and "tUserGetExclusion sces (user_at db p) \<noteq> 0" "excluded sces now (user_at db p)"
  shows "tUserCheckExclusion sces now db init nb mn = Some (Inr (-1))"
proof -
  obtain c where "mn + 1 = nb * c" using assms(5) by (rule dvdE)
  then have "search_index nb mn init (Suc 0) = init"
    using assms(3,4) by (simp add: search_index_def)
  then have "((init + 1) smod nb) + mn = init"
    using search_index_Suc [OF assms(1,2), of init 0] search_index_0 [OF assms(3,4)] by simp
  moreover have "nb \<noteq> 0" using assms(1) by simp
  ultimately have "exclusion_loop sces now db nb mn init init = Some (Inr (-1))"
    using assms(6,8) by (subst exclusion_loop.simps) (simp add: Let_def)
  with assms(6,7) show ?thesis by (simp add: tUserCheckExclusion_def)
qed

abbreviation db3 :: userdb where
  "db3 \<equiv> mk_db [mk_user 0 exeState_IDLE None, mk_user 1 exeState_RUNNING (Some 0), mk_user 2 exeState_IDLE None]"

theorem exclusion_search_skips_witness:
  "(2::int) dvd 1 + 1 \<and> tUserGet 1 db3 = Inr (Popul 1) \<and> \<not> user_excluded [sce1] 9 db3 2
   \<and> tUserCheckExclusion [sce1] 9 db3 1 2 1 = Some (Inr (-1))"
  using exclusion_search_skips [of 2 1 1 db3 "Popul 1" "[sce1]" 9]
  by (simp add: tUserGet_def userdb0_def tUserGetExclusion_def excluded_def user_excluded_def)


lemma get_two_step:
  "tUserGetRandomly 2 0 9 False [sce1] (Some 0) (mk_db [mk_user 0 exeState_IDLE None])
   = Some (Inr (Some (Popul 0), False, (mk_db [mk_user 0 exeState_RUNNING (Some 0)])\<lparr>tUseri := 0\<rparr>))"
  by (simp add: tUserGetRandomly_def choose_user_def popul_of_def tUserCheckExclusion_def tUserGet_def
      tUserGetExclusion_def userdb0_def reserve_def Let_def)


text \<open>
  C39. Without an exclusion time the reservation protects nothing: the same user is given out again
  while it is running, against the comment that two threads can not work on the same user.
\<close>

theorem user_shared_without_exclusion:
  "\<exists>db H. (ustep 2 [sce1\<lparr>exclusion := 0\<rparr>])\<^sup>*\<^sup>* (mk_db [mk_user 0 exeState_IDLE None], {#}) (db, H)
     \<and> count H (Popul 0) = 2"
proof -
  let ?db0 = "mk_db [mk_user 0 exeState_IDLE None]"
  let ?db1 = "(mk_db [mk_user 0 exeState_RUNNING (Some 0)])\<lparr>tUseri := 0\<rparr>"
  let ?sces = "[sce1\<lparr>exclusion := 0\<rparr>]"
  have "tUserGetRandomly 2 0 9 False ?sces (Some 0) ?db0 = Some (Inr (Some (Popul 0), False, ?db1))"
    "tUserGetRandomly 2 0 9 False ?sces (Some 0) ?db1 = Some (Inr (Some (Popul 0), False, ?db1))"
    by (simp_all add: tUserGetRandomly_def choose_user_def popul_of_def tUserCheckExclusion_def tUserGet_def
        tUserGetExclusion_def userdb0_def reserve_def Let_def)
  then have "ustep 2 ?sces (?db0, {#}) (?db1, {#Popul 0#})"
    "ustep 2 ?sces (?db1, {#Popul 0#}) (?db1, {#Popul 0, Popul 0#})"
    by (auto intro: ustep.u_get [of 0])
  then have "(ustep 2 ?sces)\<^sup>*\<^sup>* (?db0, {#}) (?db1, {#Popul 0, Popul 0#})"
    by (meson converse_rtranclp_into_rtranclp rtranclp.rtrancl_refl)
  moreover have "count {#Popul 0, Popul 0#} (Popul 0) = 2" by simp
  ultimately show ?thesis by blast
qed


definition ini3 :: ini where
  "ini3 sec key =
     (if sec = popul_section 3 then
        (if key = ''description'' then Some ''users'' else if key = ''min'' then Some ''1''
         else if key = ''max'' then Some ''2'' else if key = ''rdn_i'' then Some ''uid=u%0.2d''
         else if key = ''pdn'' then Some ''o=x'' else None)
      else None)"

abbreviation junk_auth :: tAuth where
  "junk_auth \<equiv> \<lparr>nai = [], passwd = [], authType = 0, stateAttrib = (\<lambda>_. []), stateAttribLength = (\<lambda>_. 0),
     K_aut = [], K_encr = [], frId = None, aaa_session_id = [], aaa_session_idLength = 0, ppaq = [], ppaqLength = 0\<rparr>"

abbreviation junk_sess :: tSess where
  "junk_sess \<equiv> \<lparr>sessionId = (\<lambda>_. []), sessionIdLength = (\<lambda>_. 0), startTime = (\<lambda>_. 0), classAttrib = (\<lambda>_. []),
     classAttribLength = (\<lambda>_. 0), portNb = 0\<rparr>"

abbreviation env3 :: uenv where
  "env3 \<equiv> \<lparr>u_ini = ini3, sameUserPasswd = False, u_trafficInfo = 0, u_frmkb = 1000, u_sizeof = 72,
     junkUser = mk_user 77 exeState_RUNNING None, junkEntry = \<lparr>dn = [], base = [], filter_str = [], scope = 0\<rparr>,
     junkAuth = junk_auth, junkSess = junk_sess, reallocOk = True, mallocOk = (\<lambda>_. True)\<rparr>"

lemmas num_eval = atoi_def strtol10_def lstrip_def isspace_def scan_sign_def isdigit_def num_val_def digit_val_def
  sat_long_def to_int32_def tolower_def

lemma read_popul3: "read_popul ini3 (popul_section 3) = \<lparr>pc_scope = 0, pc_pdn = ''o=x'', pc_rdn_i = ''uid=u%0.2d'',
     pc_filter_i = ''(objectclass=*)'', pc_nai_i = [], pc_passwd_i = [], pc_authtype = 6\<rparr>"
  by (simp add: read_popul_def ini3_def get_str_def ProfileGetString_def ProfileGetInt_def strncpy_buf_def)

lemma loadable3: "loadable env3 (popul_section 3) 1 2 userdb0"
  unfolding loadable_def
  by (simp add: read_popul3) (simp add: ini3_def get_str_def ProfileGetString_def ProfileGetInt_def
      strncpy_buf_def num_eval userdb0_def popul_wf_def conf_ok_def signed_divide_int_def)

lemma fmt_uid: "0 \<le> i \<Longrightarrow> i \<le> 9 \<Longrightarrow> sprintf_d ''uid=u%0.2d'' i = Some (''uid=u0'' @ [digit_char (nat i)])"
  by (simp add: sprintf_d.simps conv_d_def scan_flags_def scan_nat_def scan_prec_def fmt_d_def pad_left_def isdigit_def
      num_val_def digit_val_def show_nat.simps nat_less_iff)

lemma fmt_filter: "sprintf_d ''(objectclass=*)'' i = Some ''(objectclass=*)''"
  by (simp add: sprintf_d.simps)


text \<open>
  The configuration may give a NAI of up to 127 characters, but the field has 64 bytes, and
  the password field has 32: longer values overflow the structure.
\<close>

theorem long_credentials_overflow:
  assumes "tUserGet idx db = Inr p" "mallocOk e idx" "nai_s \<noteq> []"
    and "64 \<le> length nai_s \<or> 32 \<le> length passwd_s \<and> \<not> sameUserPasswd e"
  shows "tUserPopulFillIn e LDAP_SCOPE_BASE pdn [] flt nai_s passwd_s authtype idx db = Inl BufferOverflow"
  using assms by (auto simp: tUserPopulFillIn_def make_auth_def Let_def strcpy_buf_def)

theorem long_credentials_overflow_witness:
  "tUserGet 0 db2 = Inr (Popul 0) \<and> 64 \<le> length (replicate 64 CHR ''a'')
   \<and> tUserPopulFillIn env3 LDAP_SCOPE_BASE [] [] [] (replicate 64 CHR ''a'') [] 6 0 db2 = Inl BufferOverflow"
proof -
  have g: "tUserGet 0 db2 = Inr (Popul 0)" by (simp add: tUserGet_def userdb0_def)
  from g long_credentials_overflow [OF g, of env3 "replicate 64 CHR ''a''" "[]"] show ?thesis by simp
qed

text \<open>
  Round trip of the session data: storing \<open>len\<close> bytes and reading back gives the length, cut
  to the 32 bytes of the buffer, and these bytes; the slot of the other side of a relocation is not
  touched.
\<close>

theorem session_id_roundtrip:
  assumes "sess u = Some s" "length (sessionId s reloc) = 32" "0 \<le> len" "len \<le> int (length data)"
  shows "\<exists>u'. tUserSetSessionId data len reloc u = Inr u'
     \<and> tUserGetSessionIdLength reloc u' = Inr (min len 32)
     \<and> (\<exists>b. tUserGetSessionId reloc u' = Inr b \<and> take (nat (min len 32)) b = take (nat (min len 32)) data \<and> length b = 32)
     \<and> tUserGetSessionId (\<not> reloc) u' = tUserGetSessionId (\<not> reloc) u
     \<and> tUserGetSessionIdLength (\<not> reloc) u' = tUserGetSessionIdLength (\<not> reloc) u"
proof -
  have c: "clamp 32 len = min len 32" by (simp add: clamp_def)
  let ?n = "min len 32"
  have "memcpy_buf (sessionId s reloc) data ?n = Inr (take (nat ?n) data @ drop (nat ?n) (sessionId s reloc))"
    using assms by (auto simp: memcpy_buf_def min_def)
  then have u': "tUserSetSessionId data len reloc u = Inr (u\<lparr>sess := Some (s\<lparr>
        sessionIdLength := (sessionIdLength s)(reloc := ?n),
        sessionId := (sessionId s)(reloc := take (nat ?n) data @ drop (nat ?n) (sessionId s reloc))\<rparr>)\<rparr>)"
    using assms(1) by (simp add: tUserSetSessionId_def upd_sess_def c)
  moreover have "length (take (nat ?n) data) = nat ?n" using assms(3,4) by (auto simp: min_def)
  ultimately show ?thesis
    using assms(1,2) by (simp add: tUserGetSessionIdLength_def tUserGetSessionId_def)
qed

abbreviation sess32 :: tSess where
  "sess32 \<equiv> junk_sess\<lparr>sessionId := (\<lambda>_. replicate 32 CHR 0x00)\<rparr>"

theorem session_id_roundtrip_witness:
  "(\<exists>u'. tUserSetSessionId ''abc'' 3 False ((mk_user 0 exeState_IDLE None)\<lparr>sess := Some sess32\<rparr>) = Inr u'
     \<and> tUserGetSessionIdLength False u' = Inr 3)"
  using session_id_roundtrip [of "(mk_user 0 exeState_IDLE None)\<lparr>sess := Some sess32\<rparr>" sess32 False 3 "''abc''"]
  by auto

text \<open>
  The table of authentication types: if the twenty rates are not negative and add up to 100,
  the table is filled completely and each type occurs as often as its rate says; if they add up to
  more, the initialisation reports an error.
\<close>

theorem authtype_distribution:
  assumes "\<forall>c < 20. 0 \<le> authtype_rate ini c" "length tab = 100"
  shows "((\<Sum>c\<leftarrow>[0..<20]. authtype_rate ini c) = 100 \<longrightarrow>
       (\<exists>tab'. authtype_loop ini [0..<20] 0 tab = Inr (0, tab') \<and> length tab' = 100
          \<and> (\<forall>c < 20. int (count_list tab' (int c)) = authtype_rate ini c)))
     \<and> (100 < (\<Sum>c\<leftarrow>[0..<20]. authtype_rate ini c) \<longrightarrow> (\<exists>tab'. authtype_loop ini [0..<20] 0 tab = Inr (1, tab')))"
proof -
  let ?S = "\<Sum>c\<leftarrow>[0..<20]. authtype_rate ini c"
  have nn: "\<forall>c \<in> set [0..<20]. 0 \<le> authtype_rate ini c" using assms(1) by simp
  note R = authtype_loop_result [OF nn order_refl assms(2)]
  have "authtype_loop ini [0..<20] 0 tab = Inr (0, spread ini [0..<20])" if "?S = 100"
    using R that assms(2) by simp
  moreover have "length (spread ini [0..<20]) = 100" if "?S = 100"
    using length_spread [OF nn] that by linarith
  moreover have "int (count_list (spread ini [0..<20]) (int c)) = authtype_rate ini c" if "c < 20" for c
    using count_spread [OF distinct_upt nn, of c] that by simp
  moreover have "\<exists>tab'. authtype_loop ini [0..<20] 0 tab = Inr (1, tab')" if "100 < ?S"
    using R that by simp
  ultimately show ?thesis by blast
qed

abbreviation ini_auth :: ini where
  "ini_auth \<equiv> (\<lambda>sec key. if key = ''authtype_distrib_6'' then Some ''100'' else None)"

lemma ini_auth_rate: "c < 20 \<Longrightarrow> authtype_rate ini_auth c = (if c = 6 then 100 else 0)"
proof -
  have s6: "show_nat 6 = ''6''" by (simp add: show_nat.simps c_string)
  have "(show_nat c = ''6'') = (c = 6)" by (metis num_val_show_nat s6)
  then show ?thesis by (simp add: authtype_rate_def ProfileGetInt_def num_eval)
qed

theorem authtype_distribution_witness:
  "list_all (\<lambda>c. 0 \<le> authtype_rate ini_auth c) [0..<20] \<and> (\<Sum>c\<leftarrow>[0..<20]. authtype_rate ini_auth c) = 100
   \<and> (\<exists>tab'. authtype_loop ini_auth [0..<20] 0 (replicate 100 0) = Inr (0, tab')
        \<and> int (count_list tab' (int 6)) = authtype_rate ini_auth 6)"
proof -
  have nn: "\<forall>c < 20. 0 \<le> authtype_rate ini_auth c" by (simp add: ini_auth_rate)
  have "(\<Sum>c\<leftarrow>[0..<20]. authtype_rate ini_auth c) = (\<Sum>c\<leftarrow>[0..<20]. if c = 6 then 100 else 0)"
    by (intro arg_cong [where f = sum_list] map_cong) (auto simp: ini_auth_rate)
  also have "\<dots> = 100" by (simp add: upt_rec)
  finally have s: "(\<Sum>c\<leftarrow>[0..<20]. authtype_rate ini_auth c) = 100" .
  from authtype_distribution [OF nn, of "replicate 100 0"] s obtain tab' where
    "authtype_loop ini_auth [0..<20] 0 (replicate 100 0) = Inr (0, tab')"
    "\<forall>c < 20. int (count_list tab' (int c)) = authtype_rate ini_auth c" by auto
  moreover from this(2) have "int (count_list tab' (int 6)) = authtype_rate ini_auth 6"
    by (rule allE [of _ 6]) simp
  moreover have "list_all (\<lambda>c. 0 \<le> authtype_rate ini_auth c) [0..<20]" using nn by (auto simp: list_all_iff)
  ultimately show ?thesis using s by blast
qed

end
