(* ===== verification/Tgen_Stat.thy ===== *)
theory Tgen_Stat
  imports Tgen_Types Tgen_Profile Tgen_Timer
begin

section \<open>Statistics and regulation (Src/tstat.c)\<close>

text \<open>
  The counters of requests, the regulation of the traffic, the traffic functions and the thread
  that starts a new period every second. The \<^verbatim>\<open>unsigned long\<close> counters are 64-bit words, the wanted
  rate is the signed \<^verbatim>\<open>int\<close> of the source. Clock readings and random numbers are arguments. What is
  printed is modelled by the numbers that go into it; the mean times, which are computed in
  floating point for the screen only, are left out.
\<close>

subsection \<open>Data\<close>

datatype dim = IN_SECOND | IN_PERIOD | IN_TOTAL

record tStatMeasure =
  rq_name :: string
  overflow :: "8 word"
  tm_cum :: "64 word"
  tm_min :: "64 word"
  tm_max :: "64 word"
  tm_maxDelay :: "64 word"
  rq_cnt :: "64 word"
  rq_maxDelay :: "64 word"
  rq_ko :: "64 word"
  rq_retry :: "64 word"

text \<open>The functions that \<^verbatim>\<open>tStatRegisterTrafficFunction\<close> can be given.\<close>

datatype tStatTrafficFunctionType = TF_stable | TF_bursty | TF_linear1

record tstat =
  tStatTab :: "request \<Rightarrow> tStatMeasure"
  RequestPerSecondSent :: "64 word"
  RequestPerSecondMeasured :: "64 word"
  RequestPerSecondWanted :: int
  TotalNbOfSeconds :: "64 word"
  nbSecWithTraficOn :: "64 word"
  NbRequest :: "dim \<Rightarrow> 64 word"
  NbKO :: "dim \<Rightarrow> 64 word"
  NbTimeout :: "dim \<Rightarrow> 64 word"
  NbStationShutdown :: "32 word"
  NbStationRestart :: "32 word"
  NbServerMPswitch :: "32 word"
  trafficFunction :: tStatTrafficFunctionType
  burst :: bool
  burst_r :: nat

text \<open>What the statistics read of the configuration.\<close>

record stat_conf =
  tcNbOfRequestPerSecond :: int
  tcCsvPeriod :: int
  tcReportPeriod :: int
  tcTimeToRun :: int
  csvFileOpen :: bool

subsection \<open>Initialisation\<close>

definition measure0 :: tStatMeasure where
  "measure0 = \<lparr>rq_name = [], overflow = 0, tm_cum = 0, tm_min = 0, tm_max = 0, tm_maxDelay = 0, rq_cnt = 0,
     rq_maxDelay = 0, rq_ko = 0, rq_retry = 0\<rparr>"

definition tstat0 :: tstat where
  "tstat0 = \<lparr>tStatTab = (\<lambda>_. measure0), RequestPerSecondSent = 0, RequestPerSecondMeasured = 0,
     RequestPerSecondWanted = 0, TotalNbOfSeconds = 0, nbSecWithTraficOn = 0, NbRequest = (\<lambda>_. 0), NbKO = (\<lambda>_. 0),
     NbTimeout = (\<lambda>_. 0), NbStationShutdown = 0, NbStationRestart = 0, NbServerMPswitch = 0,
     trafficFunction = TF_stable, burst = False, burst_r = 0\<rparr>"

text \<open>\<^verbatim>\<open>tStatInit\<close>; the thread for the CPU load and the screen are not part of the state.\<close>

definition tStatInit :: "stat_conf \<Rightarrow> tstat \<Rightarrow> tstat" where
  "tStatInit c st = st\<lparr>
     tStatTab := (\<lambda>r. if r = SCE_Begin then measure0 else measure0\<lparr>tm_min := 10000000\<rparr>),
     trafficFunction := TF_stable,
     RequestPerSecondWanted := tcNbOfRequestPerSecond c,
     TotalNbOfSeconds := 0,
     NbRequest := (\<lambda>_. 0), NbKO := (\<lambda>_. 0), NbTimeout := (\<lambda>_. 0),
     NbStationShutdown := 0, NbStationRestart := 0, NbServerMPswitch := 0\<rparr>"

definition tStatRegisterTrafficFunction :: "tStatTrafficFunctionType \<Rightarrow> tstat \<Rightarrow> tstat" where
  "tStatRegisterTrafficFunction fct st = st\<lparr>trafficFunction := fct\<rparr>"

definition tStatIncrStationDown :: "tstat \<Rightarrow> 32 word \<times> tstat" where
  "tStatIncrStationDown st = (NbStationShutdown st + 1, st\<lparr>NbStationShutdown := NbStationShutdown st + 1\<rparr>)"

definition tStatIncrStationRestart :: "tstat \<Rightarrow> 32 word \<times> tstat" where
  "tStatIncrStationRestart st = (NbStationRestart st + 1, st\<lparr>NbStationRestart := NbStationRestart st + 1\<rparr>)"

definition tStatIncrServerMPswitch :: "tstat \<Rightarrow> 32 word \<times> tstat" where
  "tStatIncrServerMPswitch st = (NbServerMPswitch st + 1, st\<lparr>NbServerMPswitch := NbServerMPswitch st + 1\<rparr>)"

definition RQ_NAME_SIZE :: nat where "RQ_NAME_SIZE = 32"

text \<open>
  \<^verbatim>\<open>tStatTimeRegister\<close> for a name that is not a null pointer; the copy into \<^verbatim>\<open>rq_name[32]\<close> is not
  bounded.
\<close>

definition tStatTimeRegister :: "ini \<Rightarrow> request \<Rightarrow> string \<Rightarrow> int \<Rightarrow> tstat \<Rightarrow> tstat result" where
  "tStatTimeRegister ini reqId reqName default_val st =
     (if reqName = [] then Inr st
      else if reqId = SCE_End then Inl OutOfBounds
      else rbind (strcpy_buf RQ_NAME_SIZE reqName) (\<lambda>nm.
        Inr (st\<lparr>tStatTab := (tStatTab st)(reqId := (tStatTab st reqId)\<lparr>rq_name := nm,
           tm_maxDelay := word_of_int (ProfileGetInt ini ''MaxDelay'' (lstrip reqName) default_val)\<rparr>)\<rparr>)))"

subsection \<open>Measured times\<close>

text \<open>The two clocks of each thread; \<open>now\<close> is the value of \<^verbatim>\<open>gettimeofday\<close>.\<close>

definition tStatTimeBegin :: "timeval \<Rightarrow> nat \<Rightarrow> nat \<Rightarrow> (nat \<Rightarrow> tThreadConf) \<Rightarrow> (nat \<Rightarrow> tThreadConf)" where
  "tStatTimeBegin now key idx tab = tab(key := (tab key)\<lparr>timeBeg := (timeBeg (tab key))(idx := now)\<rparr>)"

definition tStatTimeEnd :: "timeval \<Rightarrow> nat \<Rightarrow> nat \<Rightarrow> (nat \<Rightarrow> tThreadConf) \<Rightarrow> (nat \<Rightarrow> tThreadConf)" where
  "tStatTimeEnd now key idx tab = tab(key := (tab key)\<lparr>timeEnd := (timeEnd (tab key))(idx := now)\<rparr>)"

definition tStatTimeDelta :: "nat \<Rightarrow> nat \<Rightarrow> (nat \<Rightarrow> tThreadConf) \<Rightarrow> int" where
  "tStatTimeDelta key idx tab =
     1000000 * (fst (timeEnd (tab key) idx) - fst (timeBeg (tab key) idx))
     + (snd (timeEnd (tab key) idx) - snd (timeBeg (tab key) idx))"

text \<open>
  \<^verbatim>\<open>tStatActionTime\<close>. The comparisons of the \<^verbatim>\<open>long\<close> \<^verbatim>\<open>tm\<close> with the \<^verbatim>\<open>unsigned long\<close> fields are unsigned.
  \<open>delta\<close> is the value of \<^verbatim>\<open>tStatTimeDelta(0)\<close>, used when \<open>usec\<close> is 0.
\<close>

definition measure_time :: "64 word \<Rightarrow> tStatMeasure \<Rightarrow> tStatMeasure" where
  "measure_time tm m =
     (let m1 = m\<lparr>tm_cum := tm_cum m + tm\<rparr>;
          m2 = (if tm < tm_min m1 then m1\<lparr>tm_min := tm\<rparr> else m1);
          m3 = (if tm > tm_max m2 then m2\<lparr>tm_max := tm\<rparr> else m2);
          m4 = (if tm > 1000 * tm_maxDelay m3 then m3\<lparr>rq_maxDelay := rq_maxDelay m3 + 1\<rparr> else m3)
      in if tm_cum m4 > 18446744073709551615 - 1000000
         then m4\<lparr>tm_cum := 0, overflow := overflow m4 + 1\<rparr> else m4)"

definition incr_all :: "64 word \<Rightarrow> (dim \<Rightarrow> 64 word) \<Rightarrow> (dim \<Rightarrow> 64 word)" where
  "incr_all n f = (\<lambda>d. f d + n)"

definition tStatActionTime :: "request \<Rightarrow> bool \<Rightarrow> int \<Rightarrow> int \<Rightarrow> int \<Rightarrow> tstat \<Rightarrow> tstat result" where
  "tStatActionTime reqId verdict retry usec delta st =
     (let tm = word_of_int (if usec = 0 then delta else usec);
          counted = (reqId \<noteq> RADIUS_AccessEapId_Rq);
          m = tStatTab st reqId;
          m1 = m\<lparr>rq_cnt := rq_cnt m + 1, rq_retry := rq_retry m + word_of_int retry\<rparr>;
          m2 = (if verdict then m1\<lparr>rq_ko := rq_ko m1 + 1\<rparr> else m1);
          st1 = (if counted then st\<lparr>NbRequest := incr_all 1 (NbRequest st),
                                   NbTimeout := incr_all (word_of_int retry) (NbTimeout st)\<rparr> else st);
          st2 = (if verdict \<and> counted then st1\<lparr>NbKO := incr_all 1 (NbKO st1)\<rparr> else st1)
      in if reqId = SCE_End then Inl OutOfBounds
         else Inr (st2\<lparr>tStatTab := (tStatTab st2)(reqId := measure_time tm m2)\<rparr>))"

definition tStatCount :: "tstat \<Rightarrow> tstat" where
  "tStatCount st = st\<lparr>RequestPerSecondMeasured := RequestPerSecondMeasured st + 1\<rparr>"

subsection \<open>Traffic functions\<close>

definition tStatTrafficFunction_stable :: "tstat \<Rightarrow> int" where
  "tStatTrafficFunction_stable st = RequestPerSecondWanted st"

definition tStatTrafficFunction_bursty :: "stat_conf \<Rightarrow> nat \<Rightarrow> tstat \<Rightarrow> int \<times> tstat" where
  "tStatTrafficFunction_bursty c rnd st =
     (let k = unat (TotalNbOfSeconds st) mod 10;
          st1 = (if k = 1 then st\<lparr>burst := False, burst_r := rnd mod 10\<rparr> else st)
      in if \<not> burst st1 \<and> burst_r st1 = k then (1000, st1\<lparr>burst := True\<rparr>)
         else (tcNbOfRequestPerSecond c, st1))"

definition tStatTrafficFunction_linear1 :: "stat_conf \<Rightarrow> tstat \<Rightarrow> int" where
  "tStatTrafficFunction_linear1 c st = tcNbOfRequestPerSecond c + 10 * int (unat (TotalNbOfSeconds st) mod 20)"

definition call_traffic_function :: "stat_conf \<Rightarrow> nat \<Rightarrow> tstat \<Rightarrow> int \<times> tstat" where
  "call_traffic_function c rnd st =
     (case trafficFunction st of
        TF_stable \<Rightarrow> (tStatTrafficFunction_stable st, st)
      | TF_bursty \<Rightarrow> tStatTrafficFunction_bursty c rnd st
      | TF_linear1 \<Rightarrow> (tStatTrafficFunction_linear1 c st, st))"

subsection \<open>The statistics thread\<close>

text \<open>The numbers that are printed: a line of the CSV file, the report, and the signal to the main thread.\<close>

datatype stat_out =
    CsvLine "64 word" "64 word" int "64 word" "64 word"
  | Report "(string \<times> 64 word \<times> 64 word \<times> 64 word \<times> 64 word \<times> 64 word \<times> 64 word) list"
  | KillMain

definition tStatPrintCsv :: "stat_conf \<Rightarrow> tstat \<Rightarrow> stat_out list" where
  "tStatPrintCsv c st =
     (if csvFileOpen c
      then [CsvLine (TotalNbOfSeconds st) (NbRequest st IN_PERIOD) (to_int32 (RequestPerSecondWanted st * tcCsvPeriod c))
              (NbKO st IN_PERIOD) (NbTimeout st IN_PERIOD)] else [])"

text \<open>The rows of \<^verbatim>\<open>tStatPrintRequests\<close>: only requests with a name that occurred.\<close>

definition tStatPrintRequests :: "tstat \<Rightarrow> (string \<times> 64 word \<times> 64 word \<times> 64 word \<times> 64 word \<times> 64 word \<times> 64 word) list" where
  "tStatPrintRequests st =
     map (\<lambda>r. let m = tStatTab st r in (rq_name m, tm_min m, tm_max m, rq_cnt m, rq_ko m, rq_retry m, rq_maxDelay m))
       (filter (\<lambda>r. r \<noteq> SCE_End \<and> rq_name (tStatTab st r) \<noteq> [] \<and> rq_cnt (tStatTab st r) \<noteq> 0) request_list)"

definition count_second :: "bool \<Rightarrow> tstat \<Rightarrow> tstat" where
  "count_second traficOn st =
     (if traficOn then st\<lparr>nbSecWithTraficOn := nbSecWithTraficOn st + 1, TotalNbOfSeconds := TotalNbOfSeconds st + 1\<rparr>
      else st\<lparr>nbSecWithTraficOn := 0\<rparr>)"

text \<open>The remainder by the \<^verbatim>\<open>int\<close> \<open>period\<close>, which is converted to \<^verbatim>\<open>unsigned long\<close>.\<close>

definition period_ends :: "int \<Rightarrow> tstat \<Rightarrow> bool result" where
  "period_ends period st =
     (if (word_of_int period :: 64 word) = 0 then Inl DivByZero
      else Inr (TotalNbOfSeconds st mod word_of_int period = 0))"

definition clear_dim :: "dim \<Rightarrow> tstat \<Rightarrow> tstat" where
  "clear_dim d st = st\<lparr>NbRequest := (NbRequest st)(d := 0), NbKO := (NbKO st)(d := 0), NbTimeout := (NbTimeout st)(d := 0)\<rparr>"

definition report_second :: "stat_conf \<Rightarrow> bool \<Rightarrow> tstat \<Rightarrow> (stat_out list \<times> tstat) result" where
  "report_second c traficOn st =
     (if \<not> traficOn then Inr ([], st)
      else rbind (period_ends (tcCsvPeriod c) st) (\<lambda>csv.
        let (out1, st1) = (if csv then (tStatPrintCsv c st, clear_dim IN_PERIOD st) else ([], st))
        in rbind (period_ends (tcReportPeriod c) st1) (\<lambda>rep.
             Inr (if rep then out1 @ [Report (tStatPrintRequests st1)] else out1, st1))))"

definition new_period :: "stat_conf \<Rightarrow> nat \<Rightarrow> tstat \<Rightarrow> tstat" where
  "new_period c rnd st =
     (let st1 = st\<lparr>RequestPerSecondSent := 0, RequestPerSecondMeasured := 0\<rparr>;
          (w, st2) = call_traffic_function c rnd st1
      in clear_dim IN_SECOND (st2\<lparr>RequestPerSecondWanted := w\<rparr>))"

text \<open>
  One round of the loop of \<^verbatim>\<open>tStat\<close>. \<open>on1\<close> and \<open>on2\<close> are the values of \<^verbatim>\<open>traficOn\<close> before and after the wait
  of one second.
\<close>

definition tStat_second :: "stat_conf \<Rightarrow> (nat \<Rightarrow> bool) \<Rightarrow> bool \<Rightarrow> bool \<Rightarrow> nat \<Rightarrow> bool \<Rightarrow> tstat \<Rightarrow> 'c timer
    \<Rightarrow> (stat_out list \<times> tstat \<times> 'c timer) result option" where
  "tStat_second c alloc on1 on2 rnd killcalled st tim =
     (case report_second c on2 (count_second on1 st) of
        Inl e \<Rightarrow> Some (Inl e)
      | Inr (out, st1) \<Rightarrow>
          (let st2 = new_period c rnd st1
           in case tTimerTopTU alloc tim of
                None \<Rightarrow> None
              | Some (Inl e) \<Rightarrow> Some (Inl e)
              | Some (Inr tim') \<Rightarrow>
                  Some (Inr (if tcTimeToRun c \<noteq> 0 \<and> word_of_int (tcTimeToRun c) \<le> TotalNbOfSeconds st2 \<and> \<not> killcalled
                             then out @ [KillMain] else out, st2, tim'))))"

subsection \<open>Regulation\<close>

text \<open>
  \<^verbatim>\<open>tStatRegulation\<close>: the condition on which a running thread waits (the \<^verbatim>\<open>int\<close> is converted to
  \<^verbatim>\<open>unsigned long\<close>), and the increment after it.
\<close>

definition regulation_waits :: "tstat \<Rightarrow> bool" where
  "regulation_waits st \<longleftrightarrow> word_of_int (RequestPerSecondWanted st) \<le> RequestPerSecondSent st"

definition regulation_pass :: "tstat \<Rightarrow> tstat" where
  "regulation_pass st = st\<lparr>RequestPerSecondSent := RequestPerSecondSent st + 1\<rparr>"

subsection \<open>Threads in the regulation\<close>

text \<open>
  A step is a critical section of \<^verbatim>\<open>schedulingMutex\<close>, the broadcast of \<^verbatim>\<open>tStat\<close>, or a change of a thread state
  by the main thread. A thread that waits on \<^verbatim>\<open>schedulingCond\<close> is \<open>RBlocked\<close>; the broadcast, or a spurious
  wake-up, makes it \<open>RWoken\<close>, and it then tests the condition again. \<open>due\<close> says that the statistics
  thread has started a period and not yet broadcast. \<open>granted\<close> counts the requests that running threads
  were given in the period and \<open>total\<close> all increments of the period.
\<close>

datatype reg_pc = ROut | RBlocked | RWoken

record reg_sys =
  r_stat :: tstat
  r_pc :: "nat \<Rightarrow> reg_pc"
  r_state :: "nat \<Rightarrow> tThreadState"
  broadcast_due :: bool
  granted :: nat
  total :: nat

definition wake_all :: "(nat \<Rightarrow> reg_pc) \<Rightarrow> (nat \<Rightarrow> reg_pc)" where
  "wake_all pc = (\<lambda>k. if pc k = RBlocked then RWoken else pc k)"

inductive reg_step :: "reg_sys \<Rightarrow> reg_sys \<Rightarrow> bool" where
  unregulated: "r_pc s k = ROut \<Longrightarrow> r_state s k \<noteq> RUNNING \<Longrightarrow>
    reg_step s (s\<lparr>r_stat := regulation_pass (r_stat s), total := Suc (total s)\<rparr>)"
| pass: "(r_pc s k = ROut \<and> r_state s k = RUNNING) \<or> r_pc s k = RWoken \<Longrightarrow> \<not> regulation_waits (r_stat s) \<Longrightarrow>
    reg_step s (s\<lparr>r_stat := regulation_pass (r_stat s), r_pc := (r_pc s)(k := ROut),
       granted := Suc (granted s), total := Suc (total s)\<rparr>)"
| wait: "(r_pc s k = ROut \<and> r_state s k = RUNNING) \<or> r_pc s k = RWoken \<Longrightarrow> regulation_waits (r_stat s) \<Longrightarrow>
    reg_step s (s\<lparr>r_pc := (r_pc s)(k := RBlocked)\<rparr>)"
| spurious: "r_pc s k = RBlocked \<Longrightarrow> reg_step s (s\<lparr>r_pc := (r_pc s)(k := RWoken)\<rparr>)"
| broadcast: "broadcast_due s \<Longrightarrow> reg_step s (s\<lparr>r_pc := wake_all (r_pc s), broadcast_due := False\<rparr>)"
| period: "\<not> broadcast_due s \<Longrightarrow>
    reg_step s (s\<lparr>r_stat := new_period c rnd (count_second on (r_stat s)), broadcast_due := True, granted := 0, total := 0\<rparr>)"
| set_thread: "reg_step s (s\<lparr>r_state := (r_state s)(k := x)\<rparr>)"

definition reg_sys0 :: "tstat \<Rightarrow> reg_sys" where
  "reg_sys0 st = \<lparr>r_stat = st, r_pc = (\<lambda>_. ROut), r_state = (\<lambda>_. SUSPEND), broadcast_due = True, granted = 0, total = 0\<rparr>"

definition wanted_word :: "tstat \<Rightarrow> 64 word" where
  "wanted_word st = word_of_int (RequestPerSecondWanted st)"

text \<open>As long as the counter has not wrapped it is \<open>total\<close>, and waiting threads have a reason to wait.\<close>

definition reg_inv :: "reg_sys \<Rightarrow> bool" where
  "reg_inv s \<longleftrightarrow> RequestPerSecondSent (r_stat s) = of_nat (total s) \<and> granted s \<le> total s
     \<and> (total s < 2 ^ 64 \<longrightarrow>
          granted s \<le> unat (wanted_word (r_stat s))
        \<and> (\<forall>k. \<not> broadcast_due s \<longrightarrow> r_pc s k = RBlocked \<longrightarrow> regulation_waits (r_stat s)))"

lemma unat_small: "n < 2 ^ 64 \<Longrightarrow> unat (of_nat n :: 64 word) = n"
  by (simp add: unat_of_nat take_bit_nat_eq_self)

lemma new_period_fields [simp]:
  "RequestPerSecondSent (new_period c rnd st) = 0"
  by (auto simp: new_period_def call_traffic_function_def clear_dim_def tStatTrafficFunction_bursty_def Let_def
      split: tStatTrafficFunctionType.splits prod.splits)

lemma regulation_waits_mono:
  assumes "regulation_waits st" "RequestPerSecondSent st = of_nat n" "Suc n < 2 ^ 64"
  shows "regulation_waits (regulation_pass st)"
proof -
  have "unat (1 + of_nat n :: 64 word) = Suc n" "unat (of_nat n :: 64 word) = n"
    using unat_small [of "Suc n"] unat_small [of n] assms(3) by simp_all
  with assms(1,2) show ?thesis
    by (simp add: regulation_waits_def regulation_pass_def word_le_nat_alt add.commute)
qed

lemma wanted_pass [simp]: "wanted_word (regulation_pass st) = wanted_word st"
  "RequestPerSecondSent (regulation_pass st) = RequestPerSecondSent st + 1"
  by (simp_all add: wanted_word_def regulation_pass_def)

lemma reg_inv_step:
  assumes "reg_step s s'" "reg_inv s"
  shows "reg_inv s'"
  using assms(1)
proof (cases rule: reg_step.cases)
  case (unregulated k)
  with assms(2) show ?thesis
    using regulation_waits_mono [of "r_stat s" "total s"] by (auto simp: reg_inv_def add.commute)
next
  case (pass k)
  have "granted s < unat (wanted_word (r_stat s))" if "total s < 2 ^ 64"
  proof -
    have "of_nat (total s) < wanted_word (r_stat s)"
      using pass(3) assms(2) by (auto simp: reg_inv_def regulation_waits_def wanted_word_def not_le)
    then have "total s < unat (wanted_word (r_stat s))"
      using unat_small [OF that] by (simp add: word_less_nat_alt)
    with assms(2) show ?thesis by (simp add: reg_inv_def)
  qed
  with pass assms(2) show ?thesis
    using regulation_waits_mono [of "r_stat s" "total s"] by (auto simp: reg_inv_def add.commute)
next
  case (period c rnd on)
  then show ?thesis by (simp add: reg_inv_def)
qed (use assms(2) in \<open>auto simp: reg_inv_def wake_all_def split: if_splits\<close>)

lemma reg_inv_reachable:
  assumes "reg_step\<^sup>*\<^sup>* (reg_sys0 st) s" "RequestPerSecondSent st = 0"
  shows "reg_inv s"
  using assms(1)
proof (induction rule: rtranclp_induct)
  case base
  show ?case using assms(2) by (simp add: reg_inv_def reg_sys0_def)
next
  case (step y z)
  then show ?case by (blast intro: reg_inv_step)
qed

subsection \<open>The counters and the CSV file\<close>

text \<open>
  \<^verbatim>\<open>tStatActionTime\<close> runs under \<^verbatim>\<open>tstatMutexI\<close>, but \<^verbatim>\<open>tStat\<close> takes no mutex when it prints the counters of
  the period and then clears them: both are steps of their own, and requests can be counted in between.
  \<open>printed\<close> adds up the numbers of the CSV lines and \<open>between\<close> the numbers counted between printing and
  clearing.
\<close>

datatype stat_pc = SWait | SClear | SPeriod

datatype counter = Requests | KOs | Timeouts

definition counter_of :: "counter \<Rightarrow> tstat \<Rightarrow> dim \<Rightarrow> 64 word" where
  "counter_of n st = (case n of Requests \<Rightarrow> NbRequest st | KOs \<Rightarrow> NbKO st | Timeouts \<Rightarrow> NbTimeout st)"

record stat_sys =
  c_stat :: tstat
  c_pc :: stat_pc
  printed :: "counter \<Rightarrow> 64 word"
  between :: "counter \<Rightarrow> 64 word"

inductive stat_step :: "stat_conf \<Rightarrow> stat_sys \<Rightarrow> stat_sys \<Rightarrow> bool" for c :: stat_conf where
  action: "tStatActionTime r verdict retry usec delta (c_stat s) = Inr st \<Longrightarrow>
    stat_step c s (s\<lparr>c_stat := st,
       between := (\<lambda>n. if c_pc s = SClear then between s n + (counter_of n st IN_TOTAL - counter_of n (c_stat s) IN_TOTAL)
                       else between s n)\<rparr>)"
| regulation: "stat_step c s (s\<lparr>c_stat := regulation_pass (c_stat s)\<rparr>)"
| answer: "stat_step c s (s\<lparr>c_stat := tStatCount (c_stat s)\<rparr>)"
| tick: "c_pc s = SWait \<Longrightarrow> stat_step c s (s\<lparr>c_stat := count_second on (c_stat s)\<rparr>)"
| print: "c_pc s = SWait \<Longrightarrow> period_ends (tcCsvPeriod c) (c_stat s) = Inr True \<Longrightarrow>
    stat_step c s (s\<lparr>c_pc := SClear,
       printed := (\<lambda>n. if csvFileOpen c then printed s n + counter_of n (c_stat s) IN_PERIOD else printed s n)\<rparr>)"
| clear: "c_pc s = SClear \<Longrightarrow> stat_step c s (s\<lparr>c_stat := clear_dim IN_PERIOD (c_stat s), c_pc := SPeriod\<rparr>)"
| no_print: "c_pc s = SWait \<Longrightarrow> \<not> on \<or> period_ends (tcCsvPeriod c) (c_stat s) = Inr False \<Longrightarrow>
    stat_step c s (s\<lparr>c_pc := SPeriod\<rparr>)"
| period: "c_pc s = SPeriod \<Longrightarrow> stat_step c s (s\<lparr>c_stat := new_period c rnd (c_stat s), c_pc := SWait\<rparr>)"

definition stat_sys0 :: "stat_conf \<Rightarrow> tstat \<Rightarrow> stat_sys" where
  "stat_sys0 c st = \<lparr>c_stat = tStatInit c st, c_pc = SWait, printed = (\<lambda>_. 0), between = (\<lambda>_. 0)\<rparr>"

definition stat_inv :: "stat_sys \<Rightarrow> bool" where
  "stat_inv s \<longleftrightarrow> (\<forall>n. counter_of n (c_stat s) IN_TOTAL
     = printed s n + between s n
       + (if c_pc s = SClear then 0 else counter_of n (c_stat s) IN_PERIOD))"

text \<open>\<^verbatim>\<open>tStatActionTime\<close> adds the same number to the three counters of a kind.\<close>

lemma action_counters:
  assumes "tStatActionTime r verdict retry usec delta st = Inr st'"
  shows "\<exists>m. \<forall>d. counter_of n st' d = counter_of n st d + m"
proof (cases n)
  case Requests
  with assms show ?thesis
    by (intro exI [of _ "if r = RADIUS_AccessEapId_Rq then 0 else 1"])
      (auto simp: counter_of_def tStatActionTime_def Let_def incr_all_def split: if_splits)
next
  case KOs
  with assms show ?thesis
    by (intro exI [of _ "if r = RADIUS_AccessEapId_Rq \<or> \<not> verdict then 0 else 1"])
      (auto simp: counter_of_def tStatActionTime_def Let_def incr_all_def split: if_splits)
next
  case Timeouts
  with assms show ?thesis
    by (intro exI [of _ "if r = RADIUS_AccessEapId_Rq then 0 else word_of_int retry"])
      (auto simp: counter_of_def tStatActionTime_def Let_def incr_all_def split: if_splits)
qed

lemma new_period_counters: "d \<noteq> IN_SECOND \<Longrightarrow> counter_of n (new_period c rnd st) d = counter_of n st d"
  by (cases n) (auto simp: counter_of_def new_period_def call_traffic_function_def clear_dim_def
      tStatTrafficFunction_bursty_def Let_def split: tStatTrafficFunctionType.splits prod.splits)

lemma counter_simps [simp]:
  "counter_of n (regulation_pass st) = counter_of n st"
  "counter_of n (tStatCount st) = counter_of n st"
  "counter_of n (count_second on st) = counter_of n st"
  "counter_of n (clear_dim d st) = (counter_of n st)(d := 0)"
  by (cases n; simp add: counter_of_def regulation_pass_def tStatCount_def count_second_def clear_dim_def)+

lemma stat_inv_step:
  assumes "stat_step c s s'" "stat_inv s" "csvFileOpen c"
  shows "stat_inv s'"
  using assms(1)
proof (cases rule: stat_step.cases)
  case (action r verdict retry usec delta st)
  show ?thesis unfolding stat_inv_def
  proof
    fix n
    obtain m where "\<forall>d. counter_of n st d = counter_of n (c_stat s) d + m"
      using action_counters [OF action(2)] by blast
    with action(1) assms(2)
    show "counter_of n (c_stat s') IN_TOTAL = printed s' n + between s' n
        + (if c_pc s' = SClear then 0 else counter_of n (c_stat s') IN_PERIOD)"
      by (auto simp: stat_inv_def)
  qed
qed (use assms(2,3) in \<open>auto simp: stat_inv_def new_period_counters\<close>)

lemma stat_inv_reachable:
  assumes "(stat_step c)\<^sup>*\<^sup>* (stat_sys0 c st) s" "csvFileOpen c"
  shows "stat_inv s"
  using assms(1)
proof (induction rule: rtranclp_induct)
  case base
  show ?case by (simp add: stat_inv_def stat_sys0_def tStatInit_def counter_of_def split: counter.splits)
next
  case (step y z)
  then show ?case using assms(2) by (blast intro: stat_inv_step)
qed

subsection \<open>Bursts\<close>

text \<open>Consecutive seconds of a traffic with bursts, one random number for each: the wanted rates.\<close>

fun burst_run :: "stat_conf \<Rightarrow> nat list \<Rightarrow> tstat \<Rightarrow> int list" where
  "burst_run c [] st = []"
| "burst_run c (rnd # rnds) st =
     (let (w, st') = tStatTrafficFunction_bursty c rnd (count_second True st) in w # burst_run c rnds st')"

lemma count_second_seconds:
  "unat (TotalNbOfSeconds st) + 1 < 2 ^ 64 \<Longrightarrow>
     unat (TotalNbOfSeconds (count_second True st)) = unat (TotalNbOfSeconds st) + 1"
  unfolding count_second_def by (simp add: unat_word_ariths(1))

lemma count_second_burst [simp]:
  "burst (count_second on st) = burst st" "burst_r (count_second on st) = burst_r st"
  by (simp_all add: count_second_def)

text \<open>The rest of a period after its second number \<open>i\<close>: the burst is still to come or it is over.\<close>

lemma burst_run_rest:
  assumes "tcNbOfRequestPerSecond c \<noteq> 1000" "length rnds + i = 10" "1 \<le> i" "burst_r st < 10"
    and "unat (TotalNbOfSeconds st) = 10 * p + i" "10 * p + 10 < 2 ^ 64"
  shows "length (filter (\<lambda>w. w = 1000) (burst_run c rnds st))
    = (if \<not> burst st \<and> i < (if burst_r st = 0 then 10 else burst_r st) then 1 else 0)"
  using assms(2-)
proof (induction rnds arbitrary: i st)
  case Nil
  then show ?case by simp
next
  case (Cons rnd rnds)
  let ?st = "count_second True st"
  have t: "unat (TotalNbOfSeconds ?st) = 10 * p + Suc i"
    using Cons.prems count_second_seconds [of st] by simp
  have k: "unat (TotalNbOfSeconds ?st) mod 10 = (if i = 9 then 0 else Suc i)"
    using Cons.prems(1) by (auto simp: t)
  have nk: "unat (TotalNbOfSeconds ?st) mod 10 \<noteq> 1" using Cons.prems(2) by (simp add: k)
  show ?case
  proof (cases "\<not> burst st \<and> burst_r st = (if i = 9 then 0 else Suc i)")
    case True
    with nk k have "tStatTrafficFunction_bursty c rnd ?st = (1000, ?st\<lparr>burst := True\<rparr>)"
      by (simp add: tStatTrafficFunction_bursty_def Let_def)
    moreover have "length (filter (\<lambda>w. w = 1000) (burst_run c rnds (?st\<lparr>burst := True\<rparr>))) = 0"
      using Cons.IH [of "Suc i" "?st\<lparr>burst := True\<rparr>"] Cons.prems t by simp
    ultimately show ?thesis using True Cons.prems by auto
  next
    case False
    with nk k have "tStatTrafficFunction_bursty c rnd ?st = (tcNbOfRequestPerSecond c, ?st)"
      by (auto simp: tStatTrafficFunction_bursty_def Let_def)
    with Cons.IH [of "Suc i" ?st] Cons.prems t assms(1) False show ?thesis by auto
  qed
qed

subsection \<open>Properties\<close>

text \<open>
  C7. The regulation. In every interleaving of worker threads, the statistics thread and the main
  thread: as long as the 64-bit counter does not wrap within one period, running threads are given at
  most the wanted number of requests in a period; and once the period has been announced no thread
  waits while requests of the period are left.
\<close>

theorem regulation_quota:
  assumes "reg_step\<^sup>*\<^sup>* (reg_sys0 st) s" "RequestPerSecondSent st = 0" "total s < 2 ^ 64"
    and "0 \<le> RequestPerSecondWanted (r_stat s)" "RequestPerSecondWanted (r_stat s) < 2 ^ 31"
  shows "granted s \<le> nat (RequestPerSecondWanted (r_stat s))
    \<and> (\<forall>k. \<not> broadcast_due s \<and> r_pc s k = RBlocked
          \<longrightarrow> nat (RequestPerSecondWanted (r_stat s)) \<le> unat (RequestPerSecondSent (r_stat s)))"
proof -
  have w: "unat (wanted_word (r_stat s)) = nat (RequestPerSecondWanted (r_stat s))"
    using assms(4,5) by (simp add: wanted_word_def unat_eq_nat_uint uint_word_of_int_eq take_bit_int_eq_self)
  from reg_inv_reachable [OF assms(1,2)] assms(3) show ?thesis
    by (auto simp: reg_inv_def w [symmetric] regulation_waits_def wanted_word_def word_le_nat_alt)
qed

definition st1 :: tstat where
  "st1 = tStatInit \<lparr>tcNbOfRequestPerSecond = 1, tcCsvPeriod = 1, tcReportPeriod = 300, tcTimeToRun = 0, csvFileOpen = True\<rparr> tstat0"

theorem regulation_quota_witness:
  "\<exists>s. reg_step\<^sup>*\<^sup>* (reg_sys0 st1) s \<and> granted s = 1 \<and> r_pc s 13 = RBlocked \<and> granted s \<le> nat (RequestPerSecondWanted (r_stat s))"
proof -
  define s1 where "s1 = (reg_sys0 st1)\<lparr>r_state := (\<lambda>_. SUSPEND)(12 := RUNNING)\<rparr>"
  define s2 where "s2 = s1\<lparr>r_state := (r_state s1)(13 := RUNNING)\<rparr>"
  define s3 where "s3 = s2\<lparr>r_stat := regulation_pass (r_stat s2), r_pc := (r_pc s2)(12 := ROut),
       granted := Suc (granted s2), total := Suc (total s2)\<rparr>"
  define s4 where "s4 = s3\<lparr>r_pc := (r_pc s3)(13 := RBlocked)\<rparr>"
  note defs = s1_def s2_def s3_def s4_def reg_sys0_def st1_def tStatInit_def tstat0_def regulation_waits_def regulation_pass_def
  have "reg_step (reg_sys0 st1) s1"
    using set_thread [of "reg_sys0 st1" 12 RUNNING] by (simp add: s1_def reg_sys0_def)
  moreover have "reg_step s1 s2" unfolding s2_def by (rule set_thread)
  moreover have "reg_step s2 s3" unfolding s3_def by (rule reg_step.pass) (simp_all add: defs)
  moreover have "reg_step s3 s4" unfolding s4_def by (rule reg_step.wait) (simp_all add: defs)
  ultimately have r: "reg_step\<^sup>*\<^sup>* (reg_sys0 st1) s4" by (meson rtranclp.rtrancl_into_rtrancl rtranclp.rtrancl_refl)
  have "RequestPerSecondSent st1 = 0" "total s4 < 2 ^ 64" "0 \<le> RequestPerSecondWanted (r_stat s4)"
    "RequestPerSecondWanted (r_stat s4) < 2 ^ 31" by (simp_all add: defs)
  from regulation_quota [OF r this] have "granted s4 \<le> nat (RequestPerSecondWanted (r_stat s4))" by blast
  moreover have "granted s4 = 1" "r_pc s4 13 = RBlocked" by (simp_all add: defs)
  ultimately show ?thesis using r by blast
qed


definition conf1 :: stat_conf where
  "conf1 = \<lparr>tcNbOfRequestPerSecond = 1, tcCsvPeriod = 1, tcReportPeriod = 300, tcTimeToRun = 0, csvFileOpen = True\<rparr>"


text \<open>
  Overflow control of the response times: a measured time of at most one second never makes the
  64-bit sum wrap around. Either the sum grows by exactly that time, or it is reset to 0 and the
  overflow is counted; and the bound that makes the next call safe holds again.
\<close>

theorem response_time_no_wrap:
  assumes "tm \<le> 1000000" "tm_cum m \<le> 18446744073709551615 - 1000000"
  shows "tm_cum (measure_time tm m) \<le> 18446744073709551615 - 1000000
    \<and> (uint (tm_cum (measure_time tm m)) = uint (tm_cum m) + uint tm \<and> overflow (measure_time tm m) = overflow m
       \<or> tm_cum (measure_time tm m) = 0 \<and> overflow (measure_time tm m) = overflow m + 1
         \<and> 18446744073709551615 - 1000000 < uint (tm_cum m) + uint tm)"
proof -
  have le: "uint tm \<le> 1000000" "uint (tm_cum m) \<le> 18446744073708551615"
    using assms by (simp_all add: word_le_def)
  then have sum: "uint (tm_cum m + tm) = uint (tm_cum m) + uint tm"
    by (intro uint_plus_simple) (simp add: no_olen_add)
  show ?thesis
  proof (cases "tm_cum m + tm > 18446744073709551615 - 1000000")
    case True
    then have "tm_cum (measure_time tm m) = 0" "overflow (measure_time tm m) = overflow m + 1"
      by (simp_all add: measure_time_def Let_def)
    with True show ?thesis by (simp add: word_less_def sum)
  next
    case False
    then have "tm_cum (measure_time tm m) = tm_cum m + tm" "overflow (measure_time tm m) = overflow m"
      by (simp_all add: measure_time_def Let_def)
    with False show ?thesis by (simp add: sum not_less)
  qed
qed

theorem response_time_no_wrap_witness:
  "tm_cum (measure_time 3 (measure0\<lparr>tm_cum := 4\<rparr>)) = 7 \<and> overflow (measure_time 3 (measure0\<lparr>tm_cum := 4\<rparr>)) = 0"
proof -
  have "tm_cum (measure_time 3 (measure0\<lparr>tm_cum := 4\<rparr>)) \<noteq> 0" by (simp add: measure_time_def measure0_def)
  with response_time_no_wrap [of 3 "measure0\<lparr>tm_cum := 4\<rparr>"]
  have "uint (tm_cum (measure_time 3 (measure0\<lparr>tm_cum := 4\<rparr>))) = 7" "overflow (measure_time 3 (measure0\<lparr>tm_cum := 4\<rparr>)) = 0"
    by (simp_all add: measure0_def)
  then show ?thesis by (simp add: word_uint_eq_iff)
qed

text \<open>
  The bursty traffic has exactly one burst in each ten consecutive seconds that start after a
  multiple of ten, whatever the random numbers are.
\<close>

theorem one_burst_per_period:
  assumes "tcNbOfRequestPerSecond c \<noteq> 1000" "length rnds = 10"
    and "unat (TotalNbOfSeconds st) = 10 * p" "10 * p + 10 < 2 ^ 64"
  shows "length (filter (\<lambda>w. w = 1000) (burst_run c rnds st)) = 1"
proof -
  obtain rnd rs where rnds: "rnds = rnd # rs" "length rs = 9" using assms(2) by (cases rnds) auto
  let ?st = "(count_second True st)\<lparr>burst := False, burst_r := rnd mod 10\<rparr>"
  have t: "unat (TotalNbOfSeconds (count_second True st)) = 10 * p + 1"
    using count_second_seconds [of st] assms(3,4) by simp
  then have k: "unat (TotalNbOfSeconds (count_second True st)) mod 10 = 1" by simp
  show ?thesis
  proof (cases "rnd mod 10 = 1")
    case True
    with k have "tStatTrafficFunction_bursty c rnd (count_second True st) = (1000, ?st\<lparr>burst := True\<rparr>)"
      by (simp add: tStatTrafficFunction_bursty_def Let_def)
    moreover have "length (filter (\<lambda>w. w = 1000) (burst_run c rs (?st\<lparr>burst := True\<rparr>))) = 0"
      using burst_run_rest [OF assms(1), of rs 1 "?st\<lparr>burst := True\<rparr>" p] rnds t assms(4) by simp
    ultimately show ?thesis by (simp add: rnds)
  next
    case False
    with k have "tStatTrafficFunction_bursty c rnd (count_second True st) = (tcNbOfRequestPerSecond c, ?st)"
      by (simp add: tStatTrafficFunction_bursty_def Let_def)
    moreover have "length (filter (\<lambda>w. w = 1000) (burst_run c rs ?st)) = 1"
      using burst_run_rest [OF assms(1), of rs 1 ?st p] rnds t assms(4) False by auto
    ultimately show ?thesis using assms(1) by (simp add: rnds)
  qed
qed

theorem one_burst_per_period_witness:
  "length (filter (\<lambda>w. w = 1000) (burst_run conf1 [3, 1, 4, 1, 5, 9, 2, 6, 5, 3] tstat0)) = 1"
  by (rule one_burst_per_period [where p = 0]) (simp_all add: conf1_def tstat0_def)

end
