(* ===== verification/Tgen_Scenario.thy ===== *)
theory Tgen_Scenario
  imports Tgen_User Tgen_Stat
begin

section \<open>Scenarios and traffic (Src/tsce.c)\<close>

text \<open>
  Reading the scenarios of a traffic from the configuration, the table of the registered scenarios
  and the table of their occurrences, from which the executor draws. The loops over \<^verbatim>\<open>action1\<close>,
  \<^verbatim>\<open>action2\<close>, ... and \<^verbatim>\<open>rate1\<close>, \<^verbatim>\<open>rate2\<close>, ... end at the first key that is missing; \<^term>\<open>None\<close> stands for
  a loop that does not end.
\<close>

subsection \<open>Actions\<close>

definition action_names :: "(string \<times> request) list" where
  "action_names =
    [(''LDAP_Bind_Rq'', LDAP_Bind_Rq), (''LDAP_UnBind_Rq'', LDAP_UnBind_Rq), (''LDAP_Search_Rq'', LDAP_Search_Rq),
     (''LDAP_Modify_Rq'', LDAP_Modify_Rq), (''LDAP_Add_Rq'', LDAP_Add_Rq), (''LDAP_Delete_Rq'', LDAP_Delete_Rq),
     (''RADIUS_Auth_Rq'', RADIUS_Auth_Rq), (''RADIUS_AuthWP_Rq'', RADIUS_AuthWP_Rq),
     (''RADIUS_AccessEapId_Rq'', RADIUS_AccessEapId_Rq), (''RADIUS_AccessEapStart_Rq'', RADIUS_AccessEapStart_Rq),
     (''RADIUS_AccessEapChal_Rq'', RADIUS_AccessEapChal_Rq), (''RADIUS_AccessEapCliErr_Rq'', RADIUS_AccessEapCliErr_Rq),
     (''RADIUS_AccessEapNotif_Rq'', RADIUS_AccessEapNotif_Rq), (''RADIUS_AccessEapFast_Rq'', RADIUS_AccessEapFast_Rq),
     (''RADIUS_AccessEapTtls_Rq'', RADIUS_AccessEapTtls_Rq), (''RADIUS_AccessEapTls_Rq'', RADIUS_AccessEapTls_Rq),
     (''RADIUS_AccountStart_Rq'', RADIUS_AccountStart_Rq), (''RADIUS_AccountInterim_Rq'', RADIUS_AccountInterim_Rq),
     (''RADIUS_AccountStop_Rq'', RADIUS_AccountStop_Rq), (''RADIUS_AccountOn_Rq'', RADIUS_AccountOn_Rq),
     (''RADIUS_AccountOff_Rq'', RADIUS_AccountOff_Rq), (''RADIUS_AccessEapAKAChal_Rq'', RADIUS_AccessEapAKAChal_Rq),
     (''RADIUS_AccessEapAKARej_Rq'', RADIUS_AccessEapAKARej_Rq),
     (''RADIUS_AccessEapAKASynfail_Rq'', RADIUS_AccessEapAKASynfail_Rq),
     (''RADIUS_AccessEapAKAIdentity_Rq'', RADIUS_AccessEapAKAIdentity_Rq),
     (''SCE_Wait'', SCE_Wait), (''SCE_Begin'', SCE_Begin), (''SCE_End'', SCE_End)]"

definition tSceStringActionToEnumAction :: "string \<Rightarrow> request option" where
  "tSceStringActionToEnumAction actionName = map_of action_names actionName"

abbreviation backslash :: char where "backslash \<equiv> CHR 0x5C"
abbreviation quote :: char where "quote \<equiv> CHR 0x22"

text \<open>
  One line \<^verbatim>\<open>name,"cmds","attrs"\<close>; \<^term>\<open>None\<close> is the \<^verbatim>\<open>return 1\<close> of a bad line. \<^verbatim>\<open>unLimitSize\<close> is not
  initialised here; \<open>junk\<close> is its value.
\<close>

definition parse_action :: "int \<Rightarrow> string \<Rightarrow> tAction option" where
  "parse_action junk param_val =
     (case strtok param_val '','' of
        None \<Rightarrow> None
      | Some (pch, r1) \<Rightarrow>
          (case tSceStringActionToEnumAction pch of
             None \<Rightarrow> None
           | Some rq \<Rightarrow>
               (let act = \<lparr>requestId = rq, cmds = None, attrs = None, unLimitSize = junk\<rparr>
                in case strtok r1 [quote] of
                     None \<Rightarrow> Some act
                   | Some (c, r2) \<Rightarrow>
                       (let act1 = act\<lparr>cmds := Some (if c = [backslash, CHR ''0''] then [] else c)\<rparr>
                        in case strtok r2 [quote] of
                             None \<Rightarrow> Some act1
                           | Some (_, r3) \<Rightarrow>
                               (case strtok r3 [quote] of
                                  None \<Rightarrow> Some act1
                                | Some (a, _) \<Rightarrow>
                                    Some (act1\<lparr>attrs := Some (if a = [backslash, CHR ''*''] then ''*'' else a)\<rparr>))))))"

text \<open>The value is the list of actions, or \<^term>\<open>None\<close> when a line is bad.\<close>

partial_function (option) load_actions :: "ini \<Rightarrow> int \<Rightarrow> string \<Rightarrow> nat \<Rightarrow> tAction list \<Rightarrow> tAction list option option" where
  [code]: "load_actions ini junk sec iact actTab =
     (let param_val = get_str ini sec (''action'' @ show_nat iact) [] 8192
      in if param_val = [] then Some (Some actTab)
         else (case parse_action junk param_val of
                 None \<Rightarrow> Some None
               | Some act \<Rightarrow> load_actions ini junk sec (Suc iact) (actTab @ [act])))"

subsection \<open>Registration\<close>

definition MAXSCE :: nat where "MAXSCE = 32"
definition SCE_NAME_LENGHT :: nat where "SCE_NAME_LENGHT = 128"

record sce_state =
  s_users :: userdb
  tsceTab :: "tSce list"
  sceOccurenceTab :: "nat option list"
  sce_index :: int
  s_stat :: tstat

definition sce_state0 :: sce_state where
  "sce_state0 = \<lparr>s_users = userdb0, tsceTab = [], sceOccurenceTab = replicate 100 None, sce_index = 0,
     s_stat = tstat0\<rparr>"

record sce_env =
  s_uenv :: uenv
  tcTrafficInfo :: int
  tcPopulation :: "string option"
  s_mallocOk :: bool
  junk_int :: int

text \<open>The loop \<^verbatim>\<open>for (i = index; i < index + aOccurence; i++)\<close>.\<close>

definition fill_occurrences :: "int \<Rightarrow> int \<Rightarrow> nat \<Rightarrow> nat option list \<Rightarrow> nat option list" where
  "fill_occurrences index occ sce tab =
     map (\<lambda>k. if index \<le> int k \<and> int k < index + occ then Some sce else tab ! k) [0..<length tab]"

text \<open>
  \<^verbatim>\<open>tSceRegister\<close>. In the information mode the actions after the first are listed up to \<^verbatim>\<open>SCE_End\<close> and
  the function returns without a value (\<open>junk_int\<close>).
\<close>

definition tSceRegister :: "sce_env \<Rightarrow> string \<Rightarrow> tAction list \<Rightarrow> int \<Rightarrow> int \<Rightarrow> string option \<Rightarrow> sce_state
    \<Rightarrow> (int \<times> sce_state) result" where
  "tSceRegister e aSceName aSce aOccurence excl population st =
     (if tcTrafficInfo e \<noteq> 0 \<and> SCE_End \<notin> set (map requestId (tl aSce)) then Inl OutOfBounds
      else if 100 < sce_index st + aOccurence then Inr (1, st)
      else if tcTrafficInfo e \<noteq> 0 then Inr (junk_int e, st)
      else if \<not> s_mallocOk e then Inr (1, st)
      else
        (let sce = \<lparr>sce_name = take (SCE_NAME_LENGHT - 1) aSceName, sce_action = aSce, sce_cnt = 0, sce_ko = 0,
               sce_timeout = 0, exclusion = excl, populMin = 0, populNb = 0\<rparr>
         in rbind (if population \<noteq> None \<and> tcPopulation e = None
                   then (let mn = tUserCurrentIndex (s_users st)
                         in rbind (tUserInit (s_uenv e) population (s_users st)) (\<lambda>(rc, db).
                              Inr (rc, sce\<lparr>populMin := mn, populNb := tUserCurrentIndex db - mn\<rparr>, db)))
                   else Inr (0, sce, s_users st))
              (\<lambda>(rc, sce', db).
                 if rc \<noteq> 0 then Inr (1, st\<lparr>s_users := db\<rparr>)
                 else if MAXSCE \<le> length (tsceTab st) then Inl BufferOverflow
                 else Inr (0, st\<lparr>s_users := db, tsceTab := tsceTab st @ [sce'],
                        sceOccurenceTab := fill_occurrences (sce_index st) aOccurence (length (tsceTab st)) (sceOccurenceTab st),
                        sce_index := sce_index st + max 0 aOccurence\<rparr>))))"

definition tSceLoadScenario :: "sce_env \<Rightarrow> string \<Rightarrow> int \<Rightarrow> sce_state \<Rightarrow> (int \<times> sce_state) result option" where
  "tSceLoadScenario e sce rate st =
     (let ini = u_ini (s_uenv e); description = get_str ini sce ''description'' [] 256
      in if description = [] then Some (Inr (1, st))
         else (case load_actions ini (junk_int e) sce 1 [] of
                 None \<Rightarrow> None
               | Some None \<Rightarrow> Some (Inr (1, st))
               | Some (Some actTab) \<Rightarrow>
                   Some (tSceRegister e description actTab rate (ProfileGetInt ini sce ''exclusion'' 0)
                           (Some (get_str ini sce ''population'' [] 32)) st)))"

partial_function (option) traffic_loop :: "sce_env \<Rightarrow> string \<Rightarrow> nat \<Rightarrow> int \<Rightarrow> sce_state \<Rightarrow> (int \<times> sce_state) result option" where
  [code]: "traffic_loop e section_traf isce rc st =
     (let ini = u_ini (s_uenv e); rate = ProfileGetInt ini section_traf (''rate'' @ show_nat isce) (-1)
      in if rate = -1 then Some (Inr (rc, st))
         else (case tSceLoadScenario e (get_str ini section_traf (''scenario'' @ show_nat isce) [] 128) rate st of
                 None \<Rightarrow> None
               | Some (Inl err) \<Rightarrow> Some (Inl err)
               | Some (Inr (rc', st')) \<Rightarrow> traffic_loop e section_traf (Suc isce) (rc + rc') st'))"

definition traffic_section :: "int \<Rightarrow> string" where
  "traffic_section idx = ''Trafic_'' @ show_int idx"

definition tSceLoadTraffic :: "sce_env \<Rightarrow> int \<Rightarrow> sce_state \<Rightarrow> (int \<times> sce_state) result option" where
  "tSceLoadTraffic e idx st =
     (let section_traf = traffic_section idx
      in if get_str (u_ini (s_uenv e)) section_traf ''description'' [] 256 = [] then Some (Inr (1, st))
         else traffic_loop e section_traf 1 0 st)"

text \<open>\<^verbatim>\<open>rand() % 100\<close> on a non-negative \<^verbatim>\<open>rand()\<close>.\<close>

definition tSceGet :: "nat \<Rightarrow> sce_state \<Rightarrow> nat option" where
  "tSceGet rnd st = sceOccurenceTab st ! (rnd mod 100)"

definition tsceRegisterCheck :: "sce_state \<Rightarrow> int" where
  "tsceRegisterCheck st =
     (if length (takeWhile (\<lambda>s. s \<noteq> None) (take 100 (sceOccurenceTab st))) \<noteq> 100 then 1 else 0)"

text \<open>The names under which \<^verbatim>\<open>tSceInit\<close> registers the requests for the statistics.\<close>

definition stat_names :: "(request \<times> string) list" where
  "stat_names =
    [(LDAP_Bind_Rq, ''LDAP_Bind_Rq''), (LDAP_UnBind_Rq, ''LDAP_UnBind_Rq''), (LDAP_Search_Rq, ''LDAP_Search_Rq''),
     (LDAP_Modify_Rq, ''LDAP_Modify_Rq''), (LDAP_Add_Rq, ''LDAP_Add_Rq''), (LDAP_Delete_Rq, ''LDAP_Delete_Rq''),
     (RADIUS_Auth_Rq, ''RADIUS_Auth_Rq''), (RADIUS_AccessEapId_Rq, ''   RADIUS_AccessEapId_Rq''),
     (RADIUS_AccessEapStart_Rq, ''   RADIUS_AccessSimStart_Rq''), (RADIUS_AccessEapChal_Rq, ''   RADIUS_AccessSimChal_Rq''),
     (RADIUS_AccessEapCliErr_Rq, ''   RADIUS_AccessSimCliErr_Rq''), (RADIUS_AccessEapNotif_Rq, ''   RADIUS_AccessSimNotif_Rq''),
     (RADIUS_AccessEapFast_Rq, ''   RADIUS_AccessSimFast_Rq''), (RADIUS_AccessEapTtls_Rq, ''   RADIUS_AccessEapTtls_Rq''),
     (RADIUS_AccessEapTls_Rq, ''   RADIUS_AccessEapTls_Rq''),
     (RADIUS_AccessEapAKAIdentity_Rq, ''   RADIUS_AccessAkaIdentity_Rq''), (RADIUS_AccessEapAKAChal_Rq, ''   RADIUS_AccessAkaChal_Rq''),
     (RADIUS_AccessEapAKARej_Rq, ''   RADIUS_AccessAkaRej_Rq''), (RADIUS_AccessEapAKASynfail_Rq, ''   RADIUS_AccessAkaSynfail_Rq''),
     (RADIUS_AuthWP_Rq, ''RADIUS_AuthWP_Rq''), (RADIUS_AccountStart_Rq, ''RADIUS_AccountStart_Rq''),
     (RADIUS_AccountInterim_Rq, ''RADIUS_AccountInterim_Rq''), (RADIUS_AccountStop_Rq, ''RADIUS_AccountStop_Rq''),
     (RADIUS_AccountOn_Rq, ''RADIUS_AccountOn_Rq''), (RADIUS_AccountOff_Rq, ''RADIUS_AccountOff_Rq''), (SCE_Wait, ''SCE_Wait'')]"

definition register_requests :: "ini \<Rightarrow> (request \<times> string) list \<Rightarrow> tstat \<Rightarrow> tstat result" where
  "register_requests ini names st = foldl (\<lambda>r (q, n). rbind r (tStatTimeRegister ini q n 0)) (Inr st) names"

text \<open>
  \<^verbatim>\<open>tSceInit\<close>: the names, then a single scenario (\<^verbatim>\<open>-S\<close>) or the traffic profile, then the check of the table.
  The information mode lists traffics and ends the program. The function is called once, on the
  zero-initialised tables, so that clearing \<^verbatim>\<open>tsceTab\<close> first has no effect; a pointer to a scenario is
  its index in \<^const>\<open>tsceTab\<close>.
\<close>

fun info_loop :: "sce_env \<Rightarrow> nat \<Rightarrow> int \<Rightarrow> sce_state \<Rightarrow> unit result option" where
  "info_loop e 0 i st = Some (Inl (Exit 0))"
| "info_loop e (Suc n) i st =
     (case tSceLoadTraffic e i st of None \<Rightarrow> None | Some (Inl err) \<Rightarrow> Some (Inl err)
      | Some (Inr (_, st')) \<Rightarrow> info_loop e n (i + 1) st')"

definition tSceLoad :: "sce_env \<Rightarrow> int \<Rightarrow> int \<Rightarrow> sce_state \<Rightarrow> (int \<times> sce_state) result option" where
  "tSceLoad e tcScenario tcTrafficProfile st =
     (if tcTrafficInfo e = 2 then
           (case (if tcTrafficProfile = 0 then info_loop e 9999 1 st else info_loop e 1 tcTrafficProfile st) of
              None \<Rightarrow> None | Some (Inl err) \<Rightarrow> Some (Inl err) | Some (Inr _) \<Rightarrow> Some (Inl (Exit 0)))
         else
           (case (if tcScenario \<noteq> 0 then tSceLoadScenario e (''Scenario_'' @ show_int tcScenario) 100 st
                  else tSceLoadTraffic e tcTrafficProfile st) of
              None \<Rightarrow> None
            | Some (Inl err) \<Rightarrow> Some (Inl err)
            | Some (Inr (rc, st')) \<Rightarrow>
                Some (Inr (rc + tsceRegisterCheck st', st'\<lparr>s_stat := tStatRegisterTrafficFunction TF_stable (s_stat st')\<rparr>))))"

definition tSceInit :: "sce_env \<Rightarrow> int \<Rightarrow> int \<Rightarrow> sce_state \<Rightarrow> (int \<times> sce_state) result option" where
  "tSceInit e tcScenario tcTrafficProfile st =
     (case register_requests (u_ini (s_uenv e)) stat_names (s_stat st) of
        Inl err \<Rightarrow> Some (Inl err)
      | Inr stat \<Rightarrow> tSceLoad e tcScenario tcTrafficProfile (st\<lparr>s_stat := stat\<rparr>))"

subsection \<open>Registered names\<close>

lemma register_requests_Cons [simp]:
  "register_requests ini ((q, n) # ns) st = rbind (tStatTimeRegister ini q n 0 st) (register_requests ini ns)"
proof -
  have "foldl (\<lambda>r (q, n). rbind r (tStatTimeRegister ini q n 0)) (Inl e) ns = Inl e" for e :: c_fault
    by (induction ns) auto
  then show ?thesis
    by (cases "tStatTimeRegister ini q n 0 st") (simp_all add: register_requests_def)
qed

lemma register_requests_Nil [simp]: "register_requests ini [] st = Inr st"
  by (simp add: register_requests_def)

text \<open>Names that fit are all stored, and nothing else of the statistics changes.\<close>

lemma register_requests_result:
  assumes "list_all (\<lambda>(q, n). n \<noteq> [] \<and> length n < RQ_NAME_SIZE \<and> q \<noteq> SCE_End) names" "distinct (map fst names)"
  shows "\<exists>st'. register_requests ini names st = Inr st' \<and> (\<forall>(q, n) \<in> set names. rq_name (tStatTab st' q) = n)
    \<and> (\<forall>q. q \<notin> fst ` set names \<longrightarrow> tStatTab st' q = tStatTab st q) \<and> (\<exists>tab. st' = st\<lparr>tStatTab := tab\<rparr>)"
  using assms
proof (induction names arbitrary: st)
  case Nil
  have "st = st\<lparr>tStatTab := tStatTab st\<rparr>" by simp
  then show ?case by (metis list.set(1) empty_iff register_requests_Nil)
next
  case (Cons qn names)
  obtain q n where qn: "qn = (q, n)" by (cases qn)
  define m where "m = (tStatTab st q)\<lparr>rq_name := n, tm_maxDelay := word_of_int (ProfileGetInt ini ''MaxDelay'' (lstrip n) 0)\<rparr>"
  define st1 where "st1 = st\<lparr>tStatTab := (tStatTab st)(q := m)\<rparr>"
  have reg: "tStatTimeRegister ini q n 0 st = Inr st1"
    using Cons.prems by (simp add: tStatTimeRegister_def qn strcpy_buf_def st1_def m_def)
  from Cons.prems have "list_all (\<lambda>(q, n). n \<noteq> [] \<and> length n < RQ_NAME_SIZE \<and> q \<noteq> SCE_End) names" "distinct (map fst names)"
    and q: "q \<notin> fst ` set names" by (simp_all add: qn)
  from Cons.IH [OF this(1,2), of st1] obtain st' tab where st': "register_requests ini names st1 = Inr st'"
      "\<forall>(q, n) \<in> set names. rq_name (tStatTab st' q) = n"
      "\<forall>x. x \<notin> fst ` set names \<longrightarrow> tStatTab st' x = tStatTab st1 x" "st' = st1\<lparr>tStatTab := tab\<rparr>"
    by blast
  have "rq_name (tStatTab st' q) = n" using st'(3) q by (simp add: st1_def m_def)
  moreover have "st' = st\<lparr>tStatTab := tab\<rparr>" by (simp add: st'(4) st1_def)
  ultimately have "(\<forall>(q, n) \<in> set (qn # names). rq_name (tStatTab st' q) = n)
      \<and> (\<forall>x. x \<notin> fst ` set (qn # names) \<longrightarrow> tStatTab st' x = tStatTab st x) \<and> (\<exists>tab. st' = st\<lparr>tStatTab := tab\<rparr>)"
    using st'(2,3) by (auto simp: qn st1_def)
  with st'(1) reg show ?case by (auto simp: qn)
qed

lemma stat_names_ok:
  "list_all (\<lambda>(q, n). n \<noteq> [] \<and> length n < RQ_NAME_SIZE \<and> q \<noteq> SCE_End) stat_names \<and> distinct (map fst stat_names)"
  by code_simp

lemma sce_init_load:
  obtains stat where "register_requests (u_ini (s_uenv e)) stat_names (s_stat st) = Inr stat"
    "tSceInit e sc profile st = tSceLoad e sc profile (st\<lparr>s_stat := stat\<rparr>)"
  using register_requests_result [of stat_names "u_ini (s_uenv e)" "s_stat st"] stat_names_ok
  by (auto simp: tSceInit_def)

subsection \<open>Lemmas on the occurrence table\<close>

text \<open>\<open>f\<close> lists the scenarios of the occupied slots.\<close>

definition occ_is :: "sce_state \<Rightarrow> nat list \<Rightarrow> bool" where
  "occ_is st f \<longleftrightarrow> sceOccurenceTab st = map Some f @ replicate (100 - length f) None
     \<and> length f \<le> 100 \<and> sce_index st = int (length f)"

lemma fill_occurrences_append:
  assumes "length f \<le> 100" "int (length f) + occ \<le> 100"
  shows "fill_occurrences (int (length f)) occ s (map Some f @ replicate (100 - length f) None)
     = map Some (f @ replicate (nat occ) s) @ replicate (100 - length (f @ replicate (nat occ) s)) None"
    (is "?l = ?r")
proof (rule nth_equalityI)
  show "length ?l = length ?r" using assms by (simp add: fill_occurrences_def)
  fix k assume "k < length ?l"
  then have k: "k < 100" using assms by (simp add: fill_occurrences_def)
  consider "k < length f" | "length f \<le> k" "k < length f + nat occ" | "length f + nat occ \<le> k" by linarith
  then show "?l ! k = ?r ! k"
    using k assms by cases (auto simp: fill_occurrences_def nth_append)
qed

lemma occ_is_stat [simp]: "occ_is (st\<lparr>s_stat := x\<rparr>) f = occ_is st f"
  by (simp add: occ_is_def)

lemma register_check_stat [simp]: "tsceRegisterCheck (st\<lparr>s_stat := x\<rparr>) = tsceRegisterCheck st"
  by (simp add: tsceRegisterCheck_def)

lemma register_result:
  assumes "tSceRegister e nm acts occ ex pop st = Inr (rc, st')" "tcTrafficInfo e = 0" "occ_is st f"
  shows "(rc = 1 \<and> occ_is st' f \<and> tsceTab st' = tsceTab st)
    \<or> (rc = 0 \<and> occ_is st' (f @ replicate (nat occ) (length (tsceTab st)))
       \<and> (\<exists>sce. tsceTab st' = tsceTab st @ [sce] \<and> sce_action sce = acts \<and> exclusion sce = ex))"
proof -
  have f: "length f \<le> 100" "sce_index st = int (length f)"
    "sceOccurenceTab st = map Some f @ replicate (100 - length f) None"
    using assms(3) by (auto simp: occ_is_def)
  show ?thesis
  proof (cases "100 < sce_index st + occ \<or> \<not> s_mallocOk e")
    case True
    with assms show ?thesis by (auto simp: tSceRegister_def split: if_splits)
  next
    case False
    then have "fill_occurrences (sce_index st) occ (length (tsceTab st)) (sceOccurenceTab st)
        = map Some (f @ replicate (nat occ) (length (tsceTab st)))
          @ replicate (100 - length (f @ replicate (nat occ) (length (tsceTab st)))) None"
      using f fill_occurrences_append [of f occ "length (tsceTab st)"] by simp
    moreover have "length f + nat occ \<le> 100" "sce_index st + max 0 occ = int (length f + nat occ)"
      using False f by auto
    ultimately show ?thesis
      using assms False by (auto simp: tSceRegister_def Let_def occ_is_def split: if_splits prod.splits)
  qed
qed

lemma load_scenario_result:
  assumes "tSceLoadScenario e s occ st = Some (Inr (rc, st'))" "tcTrafficInfo e = 0" "occ_is st f"
  shows "(rc = 1 \<and> occ_is st' f \<and> tsceTab st' = tsceTab st)
    \<or> (rc = 0 \<and> occ_is st' (f @ replicate (nat occ) (length (tsceTab st))) \<and> length (tsceTab st') = Suc (length (tsceTab st)))"
proof (cases "st' = st \<and> rc = 1")
  case True
  with assms(3) show ?thesis by simp
next
  case False
  with assms(1) obtain nm acts ex pop where "tSceRegister e nm acts occ ex pop st = Inr (rc, st')"
    by (auto simp: tSceLoadScenario_def Let_def split: if_splits option.splits)
  from register_result [OF this assms(2,3)] show ?thesis by auto
qed

definition traffic_rate :: "sce_env \<Rightarrow> string \<Rightarrow> nat \<Rightarrow> int" where
  "traffic_rate e sec i = ProfileGetInt (u_ini (s_uenv e)) sec (''rate'' @ show_nat i) (-1)"

text \<open>The slots of the scenarios number \<open>i, ..., i + m - 1\<close> of a traffic, stored from table index \<open>n\<close> on.\<close>

definition traffic_slots :: "sce_env \<Rightarrow> string \<Rightarrow> nat \<Rightarrow> nat \<Rightarrow> nat \<Rightarrow> nat list" where
  "traffic_slots e sec i n m = concat (map (\<lambda>k. replicate (nat (traffic_rate e sec (i + k))) (n + k)) [0..<m])"

lemma traffic_slots_Suc:
  "traffic_slots e sec i n (Suc m) = replicate (nat (traffic_rate e sec i)) n @ traffic_slots e sec (Suc i) (Suc n) m"
proof -
  have "map (\<lambda>k. replicate (nat (traffic_rate e sec (i + k))) (n + k)) [0..<Suc m]
      = replicate (nat (traffic_rate e sec i)) n # map (\<lambda>k. replicate (nat (traffic_rate e sec (Suc i + k))) (Suc n + k)) [0..<m]"
    unfolding map_upt_Suc by simp
  then show ?thesis by (simp add: traffic_slots_def)
qed

lemma traffic_loop_step:
  "traffic_loop e sec i rc st =
     (if traffic_rate e sec i = -1 then Some (Inr (rc, st))
      else (case tSceLoadScenario e (get_str (u_ini (s_uenv e)) sec (''scenario'' @ show_nat i) [] 128) (traffic_rate e sec i) st of
              None \<Rightarrow> None
            | Some (Inl err) \<Rightarrow> Some (Inl err)
            | Some (Inr (rc', st')) \<Rightarrow> traffic_loop e sec (Suc i) (rc + rc') st'))"
  by (subst traffic_loop.simps) (simp add: Let_def traffic_rate_def)

text \<open>Induction over the scenarios of a traffic, for a traffic with a last one.\<close>

lemma traffic_loop_result:
  assumes "tcTrafficInfo e = 0" "traffic_rate e sec (i + m) = -1" "\<forall>k < m. traffic_rate e sec (i + k) \<noteq> -1"
    and "traffic_loop e sec i rc st = Some (Inr (rc', st'))" "occ_is st f" "0 \<le> rc"
  shows "rc \<le> rc' \<and> (rc' = rc \<longrightarrow> occ_is st' (f @ traffic_slots e sec i (length (tsceTab st)) m)
      \<and> length (tsceTab st') = length (tsceTab st) + m)"
  using assms(2-)
proof (induction m arbitrary: i rc st f)
  case 0
  then show ?case by (simp add: traffic_loop_step [of e sec i] traffic_slots_def)
next
  case (Suc m)
  let ?s = "get_str (u_ini (s_uenv e)) sec (''scenario'' @ show_nat i) [] 128"
  have "traffic_rate e sec i \<noteq> -1" using Suc.prems(2) by force
  with Suc.prems(3) obtain rc1 st1 where l: "tSceLoadScenario e ?s (traffic_rate e sec i) st = Some (Inr (rc1, st1))"
      "traffic_loop e sec (Suc i) (rc + rc1) st1 = Some (Inr (rc', st'))"
    by (auto simp: traffic_loop_step [of e sec i] split: option.splits sum.splits)
  have next_rates: "traffic_rate e sec (Suc i + m) = -1" "\<forall>k < m. traffic_rate e sec (Suc i + k) \<noteq> -1"
    using Suc.prems(1,2) by (auto dest: spec [of _ "Suc _"])
  from load_scenario_result [OF l(1) assms(1) Suc.prems(4)] show ?case
  proof (elim disjE conjE)
    assume "rc1 = 1" "occ_is st1 f"
    with Suc.IH [OF next_rates l(2), of f] Suc.prems(5) show ?case by simp
  next
    assume "rc1 = 0" "occ_is st1 (f @ replicate (nat (traffic_rate e sec i)) (length (tsceTab st)))"
      "length (tsceTab st1) = Suc (length (tsceTab st))"
    with Suc.IH [OF next_rates l(2), of "f @ replicate (nat (traffic_rate e sec i)) (length (tsceTab st))"] Suc.prems(5)
    show ?case by (simp add: traffic_slots_Suc)
  qed
qed

lemma register_check_full:
  assumes "occ_is st f"
  shows "tsceRegisterCheck st = (if length f = 100 then 0 else 1)"
proof -
  have "takeWhile (\<lambda>s. s \<noteq> None) (map Some f @ replicate n (None :: nat option)) = map Some f" for n
    by (induction f) (cases n; simp)+
  then show ?thesis using assms by (auto simp: tsceRegisterCheck_def occ_is_def)
qed

lemma card_nth_count: "card {r. r < length xs \<and> xs ! r = x} = count_list xs x"
  by (simp add: count_list_eq_length_filter length_filter_conv_card eq_commute)

lemma count_traffic_slots:
  "count_list (traffic_slots e sec i n m) (n + k) = (if k < m then nat (traffic_rate e sec (i + k)) else 0)"
proof (induction m arbitrary: i n k)
  case 0
  then show ?case by (simp add: traffic_slots_def)
next
  case (Suc m)
  have r: "count_list (replicate j n) x = (if x = n then j else 0)" for j and x :: nat
    by (induction j) auto
  show ?case
  proof (cases k)
    case 0
    have "n \<notin> set (traffic_slots e sec (Suc i) (Suc n) m)" by (auto simp: traffic_slots_def)
    then have "count_list (traffic_slots e sec (Suc i) (Suc n) m) n = 0" by (simp add: count_notin)
    with 0 show ?thesis by (simp add: traffic_slots_Suc r)
  next
    case (Suc k')
    with Suc.IH [of "Suc i" "Suc n" k'] show ?thesis by (simp add: traffic_slots_Suc r)
  qed
qed

lemma length_traffic_slots: "length (traffic_slots e sec i n m) = (\<Sum>k<m. nat (traffic_rate e sec (i + k)))"
  by (simp add: traffic_slots_def length_concat comp_def interv_sum_list_conv_sum_set_nat atLeast0LessThan)

subsection \<open>Termination of the loops\<close>

lemma load_actions_returns:
  assumes "get_str ini sec (''action'' @ show_nat (i + n)) [] 8192 = []"
  shows "\<exists>r. load_actions ini junk sec i acts = Some r"
  using assms
proof (induction n arbitrary: i acts)
  case 0
  then show ?case by (subst load_actions.simps) simp
next
  case (Suc n)
  then show ?case
    by (subst load_actions.simps) (auto simp: Let_def split: option.splits)
qed

lemma load_scenario_returns:
  assumes "\<And>s. \<exists>n. get_str (u_ini (s_uenv e)) s (''action'' @ show_nat (Suc n)) [] 8192 = []"
  shows "\<exists>r. tSceLoadScenario e s occ st = Some r"
proof -
  obtain n where "get_str (u_ini (s_uenv e)) s (''action'' @ show_nat (1 + n)) [] 8192 = []" using assms [of s] by auto
  from load_actions_returns [OF this, of "junk_int e" "[]"] show ?thesis
    by (auto simp: tSceLoadScenario_def Let_def split: option.splits)
qed

lemma traffic_loop_returns:
  assumes "\<And>s. \<exists>n. get_str (u_ini (s_uenv e)) s (''action'' @ show_nat (Suc n)) [] 8192 = []"
    and "traffic_rate e sec (i + m) = -1"
  shows "\<exists>r. traffic_loop e sec i rc st = Some r"
  using assms(2)
proof (induction m arbitrary: i rc st)
  case 0
  then show ?case by (simp add: traffic_loop_step [of e sec i])
next
  case (Suc m)
  then show ?case
    using load_scenario_returns [OF assms(1), of "get_str (u_ini (s_uenv e)) sec (''scenario'' @ show_nat i) [] 128" "traffic_rate e sec i" st]
    by (subst traffic_loop_step) (auto split: option.splits sum.splits)
qed

subsection \<open>Printed actions\<close>

definition print_action :: "string \<Rightarrow> string \<Rightarrow> string \<Rightarrow> string" where
  "print_action name c a =
     name @ '','' @ [quote] @ (if c = [] then [backslash, CHR ''0''] else c) @ [quote] @ '','' @ [quote]
     @ (if a = ''*'' then [backslash, CHR ''*''] else a) @ [quote]"

lemma action_names_ok:
  "distinct (map fst action_names) \<and> list_all (\<lambda>(n, rq). n \<noteq> [] \<and> CHR '','' \<notin> set n) action_names"
  by code_simp

lemma action_names_plain: "(n, rq) \<in> set action_names \<Longrightarrow> n \<noteq> [] \<and> CHR '','' \<notin> set n"
  using action_names_ok by (auto simp: list_all_iff)

lemma action_names_lookup: "(n, rq) \<in> set action_names \<Longrightarrow> tSceStringActionToEnumAction n = Some rq"
  using action_names_ok by (simp add: tSceStringActionToEnumAction_def)

lemma strtok_quote:
  "t \<noteq> [] \<Longrightarrow> quote \<notin> set t \<Longrightarrow> strtok (quote # t @ quote # r) [quote] = Some (t, r)"
  "t \<noteq> [] \<Longrightarrow> quote \<notin> set t \<Longrightarrow> strtok (t @ quote # r) [quote] = Some (t, r)"
  using strtok_token [of t "[quote]" "[quote]" "quote # r"] strtok_token [of t "[quote]" "[]" "quote # r"] by auto

subsection \<open>Properties\<close>

text \<open>
  C8. If the initialisation of a traffic returns 0, the rates of its scenarios add up to 100 and
  \<^verbatim>\<open>tSceGet\<close> gives the scenario number \<open>k + 1\<close> for exactly \<open>rate(k + 1)\<close> of the 100 residues of
  \<^verbatim>\<open>rand()\<close>; no slot is empty.
\<close>

theorem traffic_rates_respected:
  assumes "tSceInit e 0 profile sce_state0 = Some (Inr (0, st))" "tcTrafficInfo e = 0"
    and "sec = traffic_section profile" "traffic_rate e sec (Suc m) = -1" "\<forall>k < m. traffic_rate e sec (Suc k) \<noteq> -1"
  shows "(\<Sum>k<m. nat (traffic_rate e sec (Suc k))) = 100 \<and> length (tsceTab st) = m
    \<and> (\<forall>k < m. card {r. r < 100 \<and> tSceGet r st = Some k} = nat (traffic_rate e sec (Suc k)))
    \<and> (\<forall>r. tSceGet r st \<noteq> None)"
proof -
  obtain stat where i: "tSceInit e 0 profile sce_state0 = tSceLoad e 0 profile (sce_state0\<lparr>s_stat := stat\<rparr>)"
    by (rule sce_init_load)
  define st0 where "st0 = sce_state0\<lparr>s_stat := stat\<rparr>"
  have occ0: "occ_is st0 []" "tsceTab st0 = []" by (simp_all add: st0_def) (simp_all add: occ_is_def sce_state0_def)
  from assms(1,2) i obtain rc st1 where rc: "tSceLoadTraffic e profile st0 = Some (Inr (rc, st1))"
      "rc + tsceRegisterCheck st1 = 0" "st = st1\<lparr>s_stat := tStatRegisterTrafficFunction TF_stable (s_stat st1)\<rparr>"
    by (auto simp: tSceLoad_def st0_def split: option.splits sum.splits)
  have rc2: "rc + tsceRegisterCheck st = 0" using rc(2,3) by simp
  have chk: "0 \<le> tsceRegisterCheck st" by (simp add: tsceRegisterCheck_def)
  show ?thesis
  proof (cases "get_str (u_ini (s_uenv e)) sec ''description'' [] 256 = []")
    case True
    with rc(1) have "rc = 1" by (simp add: tSceLoadTraffic_def Let_def assms(3))
    with rc2 chk show ?thesis by simp
  next
    case False
    with rc(1) have l: "traffic_loop e sec 1 0 st0 = Some (Inr (rc, st1))"
      by (simp add: tSceLoadTraffic_def Let_def assms(3))
    have "traffic_rate e sec (1 + m) = -1" "\<forall>k < m. traffic_rate e sec (1 + k) \<noteq> -1" using assms(4,5) by simp_all
    note run = traffic_loop_result [OF assms(2) this l occ0(1)]
    from run chk rc2 have zero: "rc = 0" "tsceRegisterCheck st = 0" by simp_all
    with run have occ: "occ_is st (traffic_slots e sec 1 0 m)" and len: "length (tsceTab st) = m"
      by (simp_all add: rc(3) occ0(2))
    from occ zero have full: "length (traffic_slots e sec 1 0 m) = 100"
      "sceOccurenceTab st = map Some (traffic_slots e sec 1 0 m)"
      using register_check_full [OF occ] by (auto simp: occ_is_def split: if_splits)
    have get: "tSceGet r st = Some (traffic_slots e sec 1 0 m ! (r mod 100))" for r
      using full by (simp add: tSceGet_def)
    have "card {r. r < 100 \<and> tSceGet r st = Some k} = nat (traffic_rate e sec (Suc k))" if "k < m" for k
    proof -
      have "{r. r < 100 \<and> tSceGet r st = Some k} = {r. r < length (traffic_slots e sec 1 0 m) \<and> traffic_slots e sec 1 0 m ! r = k}"
        using full(1) by (auto simp: get)
      then have "card {r. r < 100 \<and> tSceGet r st = Some k} = count_list (traffic_slots e sec 1 0 m) k"
        by (simp only: card_nth_count)
      with that count_traffic_slots [of e sec 1 0 m k] show ?thesis by simp
    qed
    with full(1) len get show ?thesis by (simp add: length_traffic_slots)
  qed
qed

definition ini5 :: ini where
  "ini5 sec key =
     (if sec = ''Trafic_5'' then
        (if key = ''description'' then Some ''t'' else if key = ''rate'' @ show_nat 1 then Some ''100''
         else if key = ''scenario'' @ show_nat 1 then Some ''S'' else None)
      else if sec = ''S'' \<and> key = ''description'' then Some ''d'' else None)"

definition env5 :: "string option \<Rightarrow> sce_env" where
  "env5 pop = \<lparr>s_uenv = env3\<lparr>u_ini := ini5\<rparr>, tcTrafficInfo = 0, tcPopulation = pop, s_mallocOk = True, junk_int = 0\<rparr>"

lemma env5_simps [simp]:
  "u_ini (s_uenv (env5 pop)) = ini5" "tcTrafficInfo (env5 pop) = 0" "tcPopulation (env5 pop) = pop"
  "s_mallocOk (env5 pop)" "junk_int (env5 pop) = 0"
  by (simp_all add: env5_def)

lemma show_nat_neq: "show_nat a = show_nat b \<longleftrightarrow> a = b"
  by (metis num_val_show_nat)

lemmas ini5_eval = ini5_def get_str_def ProfileGetString_def ProfileGetInt_def strncpy_buf_def show_nat_neq num_eval

lemma section5: "traffic_section 5 = ''Trafic_5''"
  by (simp add: traffic_section_def show_int_def show_nat.simps c_string)

lemma traffic5_rates: "traffic_rate (env5 pop) ''Trafic_5'' (Suc 0) = 100" "traffic_rate (env5 pop) ''Trafic_5'' (Suc (Suc 0)) = -1"
  by (simp_all add: traffic_rate_def ini5_eval)

lemma load_actions5: "load_actions ini5 0 ''S'' (Suc 0) [] = Some (Some [])"
  by (subst load_actions.simps) (simp add: ini5_eval)

definition sce5 :: tSce where
  "sce5 = \<lparr>sce_name = ''d'', sce_action = [], sce_cnt = 0, sce_ko = 0, sce_timeout = 0, exclusion = 0, populMin = 0, populNb = 0\<rparr>"

definition state5 :: sce_state where
  "state5 = sce_state0\<lparr>tsceTab := [sce5], sceOccurenceTab := map Some (replicate 100 0), sce_index := 100\<rparr>"

lemma load_scenario5:
  "tSceLoadScenario (env5 (Some pop)) ''S'' 100 (sce_state0\<lparr>s_stat := x\<rparr>) = Some (Inr (0, state5\<lparr>s_stat := x\<rparr>))"
proof -
  have fill: "fill_occurrences 0 100 0 (replicate 100 None) = map Some (replicate 100 0)"
    using fill_occurrences_append [of "[]" 100 0] by simp
  have strings: "get_str ini5 ''S'' ''description'' [] 256 = ''d''" "ProfileGetInt ini5 ''S'' ''exclusion'' 0 = 0"
    by (simp_all add: ini5_eval)
  have reg: "tSceRegister (env5 (Some pop)) ''d'' [] 100 0 p (sce_state0\<lparr>s_stat := x\<rparr>) = Inr (0, state5\<lparr>s_stat := x\<rparr>)" for p
    using fill by (simp add: tSceRegister_def sce_state0_def SCE_NAME_LENGHT_def MAXSCE_def state5_def sce5_def
        del: map_replicate)
  show ?thesis by (simp add: tSceLoadScenario_def Let_def strings load_actions5 reg)
qed

lemma traffic5_init:
  "\<exists>x. tSceInit (env5 (Some pop)) 0 5 sce_state0 = Some (Inr (0, state5\<lparr>s_stat := x\<rparr>))"
proof -
  obtain stat where stat: "tSceInit (env5 (Some pop)) 0 5 sce_state0 = tSceLoad (env5 (Some pop)) 0 5 (sce_state0\<lparr>s_stat := stat\<rparr>)"
    by (rule sce_init_load)
  have "get_str ini5 ''Trafic_5'' (''scenario'' @ show_nat (Suc 0)) [] 128 = ''S''"
    by (simp add: ini5_eval)
  then have "traffic_loop (env5 (Some pop)) ''Trafic_5'' (Suc 0) 0 (sce_state0\<lparr>s_stat := stat\<rparr>) = Some (Inr (0, state5\<lparr>s_stat := stat\<rparr>))"
    using traffic_loop_step [of "env5 (Some pop)" "''Trafic_5''" "Suc 0" 0 "sce_state0\<lparr>s_stat := stat\<rparr>"]
      traffic_loop_step [of "env5 (Some pop)" "''Trafic_5''" "Suc (Suc 0)" 0 "state5\<lparr>s_stat := stat\<rparr>"]
    by (simp add: traffic5_rates load_scenario5)
  moreover have "tsceRegisterCheck state5 = 0"
    by (subst register_check_full [of _ "replicate 100 0"]) (simp_all add: occ_is_def state5_def)
  moreover have "get_str ini5 ''Trafic_5'' ''description'' [] 256 = ''t''" by (simp add: ini5_eval)
  ultimately have "tSceLoad (env5 (Some pop)) 0 5 (sce_state0\<lparr>s_stat := stat\<rparr>)
      = Some (Inr (0, state5\<lparr>s_stat := tStatRegisterTrafficFunction TF_stable stat\<rparr>))"
    by (simp add: tSceLoad_def tSceLoadTraffic_def section5)
  then show ?thesis unfolding stat by blast
qed

theorem traffic_rates_respected_witness:
  "\<exists>st. tSceInit (env5 (Some ''1'')) 0 5 sce_state0 = Some (Inr (0, st))
   \<and> card {r. r < 100 \<and> tSceGet r st = Some 0} = 100"
proof -
  obtain st where st: "tSceInit (env5 (Some ''1'')) 0 5 sce_state0 = Some (Inr (0, st))"
    using traffic5_init by blast
  from traffic_rates_respected [OF this _ section5 [symmetric], of "Suc 0"] st show ?thesis
    by (auto simp: traffic5_rates)
qed

text \<open>
  C31. The initialisation of a traffic returns whenever the configuration is finite: every section
  has a last action and the traffic has a last rate.
\<close>

theorem traffic_init_returns:
  assumes "\<forall>s. \<exists>n. get_str (u_ini (s_uenv e)) s (''action'' @ show_nat (Suc n)) [] 8192 = []"
    and "traffic_rate e (traffic_section profile) (Suc m) = -1" "tcTrafficInfo e \<noteq> 2"
  shows "\<exists>r. tSceInit e scenario profile st = Some r"
proof -
  have a: "\<And>s. \<exists>n. get_str (u_ini (s_uenv e)) s (''action'' @ show_nat (Suc n)) [] 8192 = []" using assms(1) by blast
  have "\<exists>r. tSceLoad e scenario profile st' = Some r" for st'
  proof -
    have "\<exists>r. tSceLoadTraffic e profile st' = Some r"
      using traffic_loop_returns [OF a, of "traffic_section profile" 1 m 0 st'] assms(2)
      by (simp add: tSceLoadTraffic_def Let_def)
    then obtain r1 where "tSceLoadTraffic e profile st' = Some r1" by blast
    moreover obtain r2 where "tSceLoadScenario e (''Scenario_'' @ show_int scenario) 100 st' = Some r2"
      using load_scenario_returns [OF a] by blast
    ultimately show ?thesis using assms(3) by (auto simp: tSceLoad_def split: sum.splits)
  qed
  then show ?thesis by (auto simp: tSceInit_def split: sum.splits)
qed

theorem traffic_init_returns_witness:
  "(\<forall>s. \<exists>n. get_str ini5 s (''action'' @ show_nat (Suc n)) [] 8192 = [])
   \<and> (\<exists>r. tSceInit (env5 (Some ''1'')) 0 5 sce_state0 = Some r)"
proof -
  have a: "\<forall>s. \<exists>n. get_str (u_ini (s_uenv (env5 (Some ''1'')))) s (''action'' @ show_nat (Suc n)) [] 8192 = []"
    by (simp add: ini5_eval)
  have "traffic_rate (env5 (Some ''1'')) (traffic_section 5) (Suc (Suc 0)) = -1"
    by (simp add: section5 traffic5_rates)
  from traffic_init_returns [OF a this, of 0 sce_state0] a show ?thesis by simp
qed

text \<open>
  Round trip of an action line: the line \<^verbatim>\<open>name,"cmds","attrs"\<close> is read back as the request
  of that name with these two strings, for strings without quotes, an empty command written as
  \<^verbatim>\<open>\0\<close> and the attribute list \<^verbatim>\<open>*\<close> written as \<^verbatim>\<open>\*\<close>.
\<close>

theorem action_roundtrip:
  assumes "(name, rq) \<in> set action_names" "quote \<notin> set c" "quote \<notin> set a" "a \<noteq> []"
    and "c \<noteq> [backslash, CHR ''0'']" "a \<noteq> [backslash, CHR ''*'']"
  shows "parse_action junk (print_action name c a) = Some \<lparr>requestId = rq, cmds = Some c, attrs = Some a, unLimitSize = junk\<rparr>"
proof -
  let ?c = "if c = [] then [backslash, CHR ''0''] else c" and ?a = "if a = ''*'' then [backslash, CHR ''*''] else a"
  have n: "name \<noteq> []" "CHR '','' \<notin> set name" "tSceStringActionToEnumAction name = Some rq"
    using action_names_plain [OF assms(1)] action_names_lookup [OF assms(1)] by auto
  let ?r1 = "quote # ?c @ quote # CHR '','' # quote # ?a @ [quote]"
  have line: "print_action name c a = name @ CHR '','' # ?r1" by (simp add: print_action_def)
  have t0: "strtok (name @ CHR '','' # ?r1) '','' = Some (name, ?r1)"
    using strtok_token [of name "'',''" "[]" "CHR '','' # ?r1"] n by simp
  have t1: "strtok ?r1 [quote] = Some (?c, CHR '','' # quote # ?a @ [quote])"
    using assms(2) by (intro strtok_quote(1)) auto
  have t2: "strtok (CHR '','' # quote # ?a @ [quote]) [quote] = Some ('','', ?a @ [quote])"
    using strtok_quote(2) [of "'',''" "?a @ [quote]"] by simp
  have t3: "strtok (?a @ [quote]) [quote] = Some (?a, [])"
    using assms(3,4) by (intro strtok_quote(2)) auto
  show ?thesis
    unfolding line parse_action_def t0 using n(3) assms(5,6) by (simp add: t1 t2 t3)
qed

theorem action_roundtrip_witness:
  "(''RADIUS_AccountStart_Rq'', RADIUS_AccountStart_Rq) \<in> set action_names
   \<and> parse_action 0 (print_action ''RADIUS_AccountStart_Rq'' ''_BOS_'' ''1 0'')
     = Some \<lparr>requestId = RADIUS_AccountStart_Rq, cmds = Some ''_BOS_'', attrs = Some ''1 0'', unLimitSize = 0\<rparr>"
proof -
  have m: "(''RADIUS_AccountStart_Rq'', RADIUS_AccountStart_Rq) \<in> set action_names" by (simp add: action_names_def)
  from m action_roundtrip [OF m, of "''_BOS_''" "''1 0''" 0] show ?thesis by simp
qed

text \<open>
  A scenario without a \<^verbatim>\<open>population\<close> key cannot be loaded unless a population is given on the
  command line: the local array \<^verbatim>\<open>population\<close> is never a null pointer, so \<^verbatim>\<open>tUserInit\<close> is called with
  the empty list and fails.
\<close>

theorem scenario_needs_population:
  assumes "get_str (u_ini (s_uenv e)) sce ''description'' [] 256 \<noteq> []" "u_ini (s_uenv e) sce ''population'' = None"
    and "load_actions (u_ini (s_uenv e)) (junk_int e) sce 1 [] = Some (Some acts)"
    and "tcTrafficInfo e = 0" "tcPopulation e = None"
  shows "tSceLoadScenario e sce rate st = Some (Inr (1, st))"
proof -
  have "get_str (u_ini (s_uenv e)) sce ''population'' [] 32 = []"
    using assms(2) by (simp add: get_str_def ProfileGetString_def strncpy_buf_def)
  moreover have "tUserInit (s_uenv e) (Some []) db = Inr (1, db)" for db
    by (simp add: tUserInit_def strtok_def)
  moreover have "st\<lparr>s_users := s_users st\<rparr> = st" by simp
  ultimately show ?thesis
    using assms(1,3-5) by (simp add: tSceLoadScenario_def Let_def tSceRegister_def)
qed

theorem scenario_needs_population_witness:
  "get_str ini5 ''S'' ''description'' [] 256 \<noteq> []
   \<and> tSceLoadScenario (env5 None) ''S'' 100 sce_state0 = Some (Inr (1, sce_state0))"
proof -
  have d: "get_str (u_ini (s_uenv (env5 None))) ''S'' ''description'' [] 256 \<noteq> []"
    by (simp add: ini5_eval)
  have p: "u_ini (s_uenv (env5 None)) ''S'' ''population'' = None" by (simp add: ini5_def)
  have l: "load_actions (u_ini (s_uenv (env5 None))) (junk_int (env5 None)) ''S'' 1 [] = Some (Some [])"
    by (simp add: load_actions5)
  from d scenario_needs_population [OF d p l, of 100 sce_state0] show ?thesis by simp
qed

text \<open>
  Registering the requests for the statistics never overflows the name field of 32 bytes, stores
  for every timed request its own name, leaves the other entries alone, and changes nothing else.
\<close>

theorem request_names_registered:
  "\<exists>st'. register_requests ini stat_names st = Inr st' \<and> (\<forall>(q, n) \<in> set stat_names. rq_name (tStatTab st' q) = n)
    \<and> (\<forall>q. q \<notin> fst ` set stat_names \<longrightarrow> tStatTab st' q = tStatTab st q) \<and> (\<exists>tab. st' = st\<lparr>tStatTab := tab\<rparr>)"
  using register_requests_result [of stat_names ini st] stat_names_ok by blast

theorem request_names_registered_witness:
  "\<exists>st'. register_requests ini5 stat_names tstat0 = Inr st' \<and> rq_name (tStatTab st' SCE_Wait) = ''SCE_Wait''"
proof -
  have "(SCE_Wait, ''SCE_Wait'') \<in> set stat_names" by (simp add: stat_names_def)
  with request_names_registered [of ini5 tstat0] show ?thesis by fastforce
qed

end
