(* ===== verification/Tgen_LdapLists.thy ===== *)
theory Tgen_LdapLists
  imports Tgen_Types
begin

section \<open>Pending requests and responses of an LDAP connection (Src/tldap.c)\<close>

text \<open>
  Each connection has a list of the requests that were sent and a list of the responses that came
  back. They are linked lists in the C heap; the head node caches the address of the last node in its
  \<^verbatim>\<open>last\<close> field, which is meaningless in the other nodes. The model keeps the heap: a node is read and
  written through its address, and a freed node is no longer in the heap. A fresh address (or a
  failure) is what \<^verbatim>\<open>malloc\<close> gives, clock readings are arguments.
\<close>

record lstate =
  nodes :: "nat \<Rightarrow> tLdapList option"
  ldTab :: "nat \<Rightarrow> tLdapLd"
  sleeps :: "nat \<Rightarrow> tSleep option"
  reqs :: "nat \<Rightarrow> tLdapReqCtx option"

subsection \<open>Access to the heap\<close>

definition get_node :: "lstate \<Rightarrow> nat option \<Rightarrow> tLdapList result" where
  "get_node s a = (case a of None \<Rightarrow> Inl NullDeref
     | Some p \<Rightarrow> (case nodes s p of None \<Rightarrow> Inl UseAfterFree | Some n \<Rightarrow> Inr n))"

definition set_next :: "nat option \<Rightarrow> nat option \<Rightarrow> lstate \<Rightarrow> lstate result" where
  "set_next a v s = rbind (get_node s a) (\<lambda>n. Inr (s\<lparr>nodes := (nodes s)(the a \<mapsto> n\<lparr>next_ptr := v\<rparr>)\<rparr>))"

definition set_last :: "nat option \<Rightarrow> nat option \<Rightarrow> lstate \<Rightarrow> lstate result" where
  "set_last a v s = rbind (get_node s a) (\<lambda>n. Inr (s\<lparr>nodes := (nodes s)(the a \<mapsto> n\<lparr>last_ptr := v\<rparr>)\<rparr>))"

text \<open>Which of the two lists of a connection.\<close>

datatype side = Req | Resp

definition lhead :: "lstate \<Rightarrow> nat \<Rightarrow> side \<Rightarrow> nat option" where
  "lhead s ldId d = (case d of Req \<Rightarrow> ldReq (ldTab s ldId) | Resp \<Rightarrow> ldResp (ldTab s ldId))"

definition set_head :: "nat \<Rightarrow> side \<Rightarrow> nat option \<Rightarrow> lstate \<Rightarrow> lstate" where
  "set_head ldId d v s = s\<lparr>ldTab := (ldTab s)(ldId := (case d of
      Req \<Rightarrow> (ldTab s ldId)\<lparr>ldReq := v\<rparr> | Resp \<Rightarrow> (ldTab s ldId)\<lparr>ldResp := v\<rparr>))\<rparr>"

subsection \<open>Operations\<close>

text \<open>
  \<^verbatim>\<open>print_list\<close> reads \<^verbatim>\<open>curr->last->msgid\<close> before its loop, also when \<^verbatim>\<open>curr\<close> is null; the loop only prints.
\<close>

definition print_list :: "int \<Rightarrow> nat \<Rightarrow> side \<Rightarrow> lstate \<Rightarrow> lstate result" where
  "print_list verbose ldId d s =
     (if verbose \<ge> 3 then rbind (get_node s (lhead s ldId d)) (\<lambda>n. rbind (get_node s (last_ptr n)) (\<lambda>_. Inr s))
      else Inr s)"

text \<open>The chaining at the end of a list, common to \<^verbatim>\<open>insert_Request\<close> and \<^verbatim>\<open>insert_Response\<close>.\<close>

definition chain_end :: "nat \<Rightarrow> side \<Rightarrow> nat \<Rightarrow> lstate \<Rightarrow> lstate result" where
  "chain_end ldId d newresp s =
     rbind (if lhead s ldId d \<noteq> None
            then rbind (get_node s (lhead s ldId d)) (\<lambda>h. set_next (last_ptr h) (Some newresp) s)
            else Inr (set_head ldId d (Some newresp) s))
       (\<lambda>s1. set_last (lhead s1 ldId d) (Some newresp) s1)"

text \<open>\<open>junk\<close> is the content of the fresh node; \<^verbatim>\<open>last\<close> is not initialised.\<close>

definition insert_Request :: "int \<Rightarrow> nat option \<Rightarrow> tLdapList \<Rightarrow> nat \<Rightarrow> int \<Rightarrow> nat \<Rightarrow> lstate \<Rightarrow> (int \<times> lstate) result" where
  "insert_Request verbose malloc junk ldId mid ctx s =
     (case malloc of
        None \<Rightarrow> Inr (1, s)
      | Some p \<Rightarrow>
          (let s1 = s\<lparr>nodes := (nodes s)(p \<mapsto> junk\<lparr>next_ptr := None, msgid := mid, sleepCtx := ctx\<rparr>)\<rparr>
           in rbind (chain_end ldId Req p s1) (\<lambda>s2. rbind (print_list verbose ldId Req s2) (\<lambda>s3. Inr (0, s3)))))"

definition insert_Response :: "int \<Rightarrow> nat \<Rightarrow> nat \<Rightarrow> lstate \<Rightarrow> lstate result" where
  "insert_Response verbose ldId newresp s =
     rbind (set_next (Some newresp) None s) (\<lambda>s1.
     rbind (chain_end ldId Resp newresp s1) (\<lambda>s2. print_list verbose ldId Resp s2))"

text \<open>
  The search loops: \<open>None\<close> at the end of the list, or the predecessor and the node found. On a cyclic
  list the loop does not end.
\<close>

partial_function (option) find_node ::
  "(tLdapList \<Rightarrow> bool) \<Rightarrow> lstate \<Rightarrow> nat option \<Rightarrow> nat option \<Rightarrow> (nat option \<times> nat) option result option" where
  [code]: "find_node P s pred cur =
     (case cur of
        None \<Rightarrow> Some (Inr None)
      | Some p \<Rightarrow>
          (case get_node s cur of
             Inl e \<Rightarrow> Some (Inl e)
           | Inr n \<Rightarrow> if P n then Some (Inr (Some (pred, p))) else find_node P s cur (next_ptr n)))"

text \<open>Taking the node \<open>cur\<close> out of the request list, as in the source with its three cases.\<close>

definition unlink :: "nat \<Rightarrow> nat option \<Rightarrow> nat \<Rightarrow> lstate \<Rightarrow> lstate result" where
  "unlink ldId pred cur s =
     (let first = lhead s ldId Req
      in rbind (get_node s (Some cur)) (\<lambda>c. rbind (get_node s first) (\<lambda>f.
           if Some cur = first then
             (let s1 = set_head ldId Req (next_ptr c) s
              in if next_ptr c \<noteq> None then set_last (next_ptr c) (last_ptr f) s1 else Inr s1)
           else if Some cur = last_ptr f then
             rbind (set_last first pred s) (\<lambda>s1. set_next pred None s1)
           else set_next pred (next_ptr c) s)))"

text \<open>
  The assignments \<^verbatim>\<open>sleepCtx->req->res\<close> and \<^verbatim>\<open>sleepCtx->req->rc\<close>; the value is the elapsed time.
\<close>

definition elapsed :: "timeval \<Rightarrow> timeval \<Rightarrow> int" where
  "elapsed now t = 1000000 * (fst now - fst t) + (snd now - snd t)"

definition get_req :: "lstate \<Rightarrow> nat \<Rightarrow> (nat \<times> tLdapReqCtx) result" where
  "get_req s c =
     (case sleeps s c of
        None \<Rightarrow> Inl UseAfterFree
      | Some sl \<Rightarrow> (case sl_req sl of None \<Rightarrow> Inl NullDeref
          | Some r \<Rightarrow> (case reqs s r of None \<Rightarrow> Inl UseAfterFree | Some q \<Rightarrow> Inr (r, q))))"

definition answer_req :: "timeval \<Rightarrow> nat \<Rightarrow> nat option \<Rightarrow> int \<Rightarrow> lstate \<Rightarrow> (int \<times> lstate) result" where
  "answer_req now c msg rc s =
     rbind (get_req s c) (\<lambda>(r, q).
       Inr (elapsed now (ctx_time q), s\<lparr>reqs := (reqs s)(r \<mapsto> q\<lparr>res := msg, ctx_rc := rc\<rparr>)\<rparr>))"

text \<open>The value is the context and the response time, or \<^term>\<open>None\<close> when no request has the message id.\<close>

definition move_found :: "int \<Rightarrow> timeval \<Rightarrow> nat \<Rightarrow> nat option \<Rightarrow> int \<Rightarrow> nat option \<Rightarrow> nat \<Rightarrow> lstate
    \<Rightarrow> ((nat \<times> int) option \<times> lstate) result" where
  "move_found verbose now ldId msg rc pred cur s =
     rbind (get_node s (Some cur)) (\<lambda>n.
     rbind (unlink ldId pred cur s) (\<lambda>s1.
     rbind (insert_Response verbose ldId cur s1) (\<lambda>s2.
     rbind (answer_req now (sleepCtx n) msg rc s2) (\<lambda>(tm, s3). Inr (Some (sleepCtx n, tm), s3)))))"

definition getAndMove_RequestToResponse :: "int \<Rightarrow> timeval \<Rightarrow> nat \<Rightarrow> int \<Rightarrow> nat option \<Rightarrow> int \<Rightarrow> lstate
    \<Rightarrow> ((nat \<times> int) option \<times> lstate) result option" where
  "getAndMove_RequestToResponse verbose now ldId mid msg rc s =
     (case find_node (\<lambda>n. msgid n = mid) s None (lhead s ldId Req) of
        None \<Rightarrow> None
      | Some (Inl e) \<Rightarrow> Some (Inl e)
      | Some (Inr found) \<Rightarrow>
          Some (rbind (case found of None \<Rightarrow> Inr (None, s)
                       | Some (pred, cur) \<Rightarrow> move_found verbose now ldId msg rc pred cur s)
                  (\<lambda>(c, s1). rbind (print_list verbose ldId Req s1) (\<lambda>s2.
                     rbind (print_list verbose ldId Resp s2) (\<lambda>s3. Inr (c, s3))))))"

definition free_node :: "nat \<Rightarrow> lstate \<Rightarrow> lstate" where
  "free_node p s = s\<lparr>nodes := (nodes s)(p := None)\<rparr>"

definition getAndRemove_firstResponse :: "int \<Rightarrow> nat \<Rightarrow> lstate \<Rightarrow> (nat option \<times> lstate) result" where
  "getAndRemove_firstResponse verbose ldId s =
     rbind (case lhead s ldId Resp of
              None \<Rightarrow> Inr (None, s)
            | Some cur \<Rightarrow>
                rbind (get_node s (Some cur)) (\<lambda>n.
                rbind (if next_ptr n \<noteq> None then set_last (next_ptr n) (last_ptr n) s else Inr s) (\<lambda>s1.
                Inr (Some (sleepCtx n), free_node cur (set_head ldId Resp (next_ptr n) s1)))))
       (\<lambda>(c, s1). rbind (print_list verbose ldId Resp s1) (\<lambda>s2. Inr (c, s2)))"

text \<open>
  \<^verbatim>\<open>getAndRemove_Request\<close> frees the node before it reads the message id for \<^verbatim>\<open>ldap_abandon\<close>, whose result
  is the argument \<open>abandon\<close>.
\<close>

definition getAndRemove_Request :: "(int \<Rightarrow> int) \<Rightarrow> nat \<Rightarrow> nat \<Rightarrow> lstate \<Rightarrow> (int \<times> lstate) result option" where
  "getAndRemove_Request abandon ldId ctx s =
     (case find_node (\<lambda>n. sleepCtx n = ctx) s None (lhead s ldId Req) of
        None \<Rightarrow> None
      | Some (Inl e) \<Rightarrow> Some (Inl e)
      | Some (Inr None) \<Rightarrow> Some (Inr (0, s))
      | Some (Inr (Some (pred, cur))) \<Rightarrow>
          Some (rbind (unlink ldId pred cur s) (\<lambda>s1.
                rbind (get_node (free_node cur s1) (Some cur)) (\<lambda>n.
                Inr (abandon (msgid n), free_node cur s1)))))"

definition get_Request :: "nat \<Rightarrow> int \<Rightarrow> lstate \<Rightarrow> nat option result option" where
  "get_Request ldId mid s =
     (case find_node (\<lambda>n. msgid n = mid) s None (lhead s ldId Req) of
        None \<Rightarrow> None
      | Some (Inl e) \<Rightarrow> Some (Inl e)
      | Some (Inr None) \<Rightarrow> Some (Inr None)
      | Some (Inr (Some (pred, cur))) \<Rightarrow> Some (rbind (get_node s (Some cur)) (\<lambda>n. Inr (Some (sleepCtx n)))))"

text \<open>
  The part of \<^verbatim>\<open>treatError_Ld\<close> that handles a broken connection, after \<^verbatim>\<open>tLdap_abandon\<close>: every pending
  request gets the error code and a response time is counted for it (the list of times is the value),
  then the request list is chained behind the response list.
\<close>

partial_function (option) mark_loop ::
  "timeval \<Rightarrow> int \<Rightarrow> nat option \<Rightarrow> int list \<Rightarrow> lstate \<Rightarrow> (int list \<times> lstate) result option" where
  [code]: "mark_loop now err cur tms s =
     (case cur of
        None \<Rightarrow> Some (Inr (tms, s))
      | Some p \<Rightarrow>
          (case get_node s cur of
             Inl e \<Rightarrow> Some (Inl e)
           | Inr n \<Rightarrow>
               (case get_req s (sleepCtx n) of
                  Inl NullDeref \<Rightarrow> Some (Inr (tms, s))
                | Inl e \<Rightarrow> Some (Inl e)
                | Inr (r, q) \<Rightarrow>
                    mark_loop now err (next_ptr n) (tms @ [elapsed now (ctx_time q)])
                      (s\<lparr>reqs := (reqs s)(r \<mapsto> q\<lparr>ctx_rc := err\<rparr>)\<rparr>))))"

definition splice :: "nat \<Rightarrow> lstate \<Rightarrow> lstate result" where
  "splice ldId s =
     (case lhead s ldId Resp of
        Some a \<Rightarrow>
          rbind (get_node s (Some a)) (\<lambda>h.
          rbind (set_next (last_ptr h) (lhead s ldId Req) s) (\<lambda>s1.
          rbind (get_node s1 (lhead s1 ldId Req)) (\<lambda>f. set_last (Some a) (last_ptr f) s1)))
      | None \<Rightarrow> Inr (set_head ldId Req None (set_head ldId Resp (lhead s ldId Req) s)))"

definition fail_pending :: "timeval \<Rightarrow> int \<Rightarrow> nat \<Rightarrow> lstate \<Rightarrow> (int list \<times> lstate) result option" where
  "fail_pending now err ldId s =
     (if lhead s ldId Req = None then Some (Inr ([], s))
      else (case mark_loop now err (lhead s ldId Req) [] s of
              None \<Rightarrow> None
            | Some (Inl e) \<Rightarrow> Some (Inl e)
            | Some (Inr (tms, s1)) \<Rightarrow> Some (rbind (splice ldId s1) (\<lambda>s2. Inr (tms, s2)))))"

subsection \<open>Paths in the heap\<close>

text \<open>The nodes from \<open>a\<close> to \<open>b\<close> along \<^verbatim>\<open>next\<close>, and a list with its cached last node.\<close>

fun path :: "(nat \<Rightarrow> tLdapList option) \<Rightarrow> nat option \<Rightarrow> nat list \<Rightarrow> nat option \<Rightarrow> bool" where
  "path h a [] b \<longleftrightarrow> a = b"
| "path h a (p # ps) b \<longleftrightarrow> a = Some p \<and> (\<exists>n. h p = Some n \<and> path h (next_ptr n) ps b)"

definition dlist :: "(nat \<Rightarrow> tLdapList option) \<Rightarrow> nat option \<Rightarrow> nat list \<Rightarrow> bool" where
  "dlist h a ps \<longleftrightarrow> path h a ps None \<and> distinct ps
     \<and> (ps \<noteq> [] \<longrightarrow> (\<exists>n. h (hd ps) = Some n \<and> last_ptr n = Some (last ps)))"

lemma path_append [simp]: "path h a (xs @ ys) b \<longleftrightarrow> (\<exists>c. path h a xs c \<and> path h c ys b)"
  by (induction xs arbitrary: a) auto

lemma path_upd [simp]: "p \<notin> set ps \<Longrightarrow> path (h(p := v)) a ps b = path h a ps b"
  by (induction ps arbitrary: a) auto

lemma path_upd_last: "h p = Some n \<Longrightarrow> path (h(p \<mapsto> n\<lparr>last_ptr := v\<rparr>)) a ps b = path h a ps b"
proof (induction ps arbitrary: a)
  case (Cons q ps)
  then show ?case by (cases "q = p") auto
qed simp

lemma path_alloc: "path h a ps b \<Longrightarrow> p \<in> set ps \<Longrightarrow> \<exists>n. h p = Some n"
  by (induction ps arbitrary: a) auto

lemma path_start: "path h a ps None \<Longrightarrow> a = (if ps = [] then None else Some (hd ps))"
  by (cases ps) auto

lemma dlist_upd [simp]: "p \<notin> set ps \<Longrightarrow> dlist (h(p := v)) a ps = dlist h a ps"
  by (auto simp: dlist_def)

lemma dlist_Nil [simp]: "dlist h a [] \<longleftrightarrow> a = None"
  by (auto simp: dlist_def)

lemma dlist_alloc: "dlist h a ps \<Longrightarrow> p \<in> set ps \<Longrightarrow> \<exists>n. h p = Some n"
  by (auto simp: dlist_def dest: path_alloc)

lemma dlist_start: "dlist h a ps \<Longrightarrow> a = (if ps = [] then None else Some (hd ps))"
  by (auto simp: dlist_def dest: path_start)

lemma dlist_distinct: "dlist h a ps \<Longrightarrow> distinct ps"
  by (simp add: dlist_def)

lemma path_cong: "(\<And>p. p \<in> set ps \<Longrightarrow> h' p = h p) \<Longrightarrow> path h' a ps b = path h a ps b"
  by (induction ps arbitrary: a) auto

lemma dlist_cong:
  assumes "\<And>p. p \<in> set ps \<Longrightarrow> h' p = h p"
  shows "dlist h' a ps = dlist h a ps"
proof -
  have "ps \<noteq> [] \<Longrightarrow> h' (hd ps) = h (hd ps)" using assms by simp
  with path_cong [of ps h' h, OF assms] show ?thesis by (auto simp: dlist_def)
qed

text \<open>A new node at the end.\<close>

lemma dlist_snoc:
  assumes "dlist h a ps" "ps = xs @ [l]" "h l = Some n" "h p = Some q" "next_ptr q = None" "p \<notin> set ps"
    and "h' = h(l \<mapsto> n\<lparr>next_ptr := Some p\<rparr>)" "h' (hd ps) = Some f"
  shows "dlist (h'(hd ps \<mapsto> f\<lparr>last_ptr := Some p\<rparr>)) a (ps @ [p])"
proof -
  have "path h' a (ps @ [p]) None" using assms by (auto simp: dlist_def)
  then have "path (h'(hd ps \<mapsto> f\<lparr>last_ptr := Some p\<rparr>)) a (ps @ [p]) None"
    using path_upd_last [of h' "hd ps" f] assms(8) by blast
  with assms show ?thesis by (auto simp: dlist_def hd_append)
qed

text \<open>Removal, in the three cases of the source.\<close>

lemma dlist_remove_first:
  assumes "dlist h a (c # y # ys)" "h c = Some n" "h y = Some m"
  shows "dlist (h(y \<mapsto> m\<lparr>last_ptr := last_ptr n\<rparr>)) (next_ptr n) (y # ys)"
proof -
  have "path h (next_ptr n) (y # ys) None" using assms by (auto simp: dlist_def)
  then have "path (h(y \<mapsto> m\<lparr>last_ptr := last_ptr n\<rparr>)) (next_ptr n) (y # ys) None"
    using path_upd_last [of h y m] assms(3) by blast
  with assms show ?thesis by (auto simp: dlist_def)
qed

lemma dlist_remove_last:
  assumes "dlist h a (xs @ [l] @ [c])" "hd (xs @ [l]) = f" "h f = Some n"
    and "h1 = h(f \<mapsto> n\<lparr>last_ptr := Some l\<rparr>)" "h1 l = Some m"
  shows "dlist (h1(l \<mapsto> m\<lparr>next_ptr := None\<rparr>)) a (xs @ [l])"
proof -
  have "path h a (xs @ [l] @ [c]) None" "distinct (xs @ [l])" using assms(1) by (auto simp: dlist_def)
  then have "path h1 a (xs @ [l] @ [c]) None" using path_upd_last [of h f n] assms(3) unfolding assms(4) by blast
  then have "path (h1(l \<mapsto> m\<lparr>next_ptr := None\<rparr>)) a (xs @ [l]) None" using \<open>distinct (xs @ [l])\<close> by auto
  then show ?thesis using assms \<open>distinct (xs @ [l])\<close> by (auto simp: dlist_def hd_append)
qed

lemma dlist_remove_inner:
  assumes "dlist h a (xs @ [l] @ [c] @ y # ys)" "h l = Some m" "h c = Some n"
  shows "dlist (h(l \<mapsto> m\<lparr>next_ptr := next_ptr n\<rparr>)) a (xs @ [l] @ y # ys)"
  using assms by (auto simp: dlist_def hd_append)

subsection \<open>The two lists of every connection\<close>

text \<open>
  \<open>L i d\<close> are the nodes of the list \<open>d\<close> of connection \<open>i\<close>. No two lists share a node, and the context of
  every node and its request are allocated.
\<close>

definition node_data :: "lstate \<Rightarrow> nat \<Rightarrow> (int \<times> nat) option" where
  "node_data s p = map_option (\<lambda>n. (msgid n, sleepCtx n)) (nodes s p)"

definition lists_ok :: "lstate \<Rightarrow> (nat \<Rightarrow> side \<Rightarrow> nat list) \<Rightarrow> bool" where
  "lists_ok s L \<longleftrightarrow> (\<forall>i d. dlist (nodes s) (lhead s i d) (L i d))
     \<and> (\<forall>i d j e. (i, d) \<noteq> (j, e) \<longrightarrow> set (L i d) \<inter> set (L j e) = {})"

definition upd_list :: "nat \<Rightarrow> side \<Rightarrow> 'a \<Rightarrow> (nat \<Rightarrow> side \<Rightarrow> 'a) \<Rightarrow> (nat \<Rightarrow> side \<Rightarrow> 'a)" where
  "upd_list i d ps L = L(i := (L i)(d := ps))"

lemma upd_list_apply [simp]: "upd_list i d ps L j e = (if j = i \<and> e = d then ps else L j e)"
  by (simp add: upd_list_def)

text \<open>What an operation on the lists leaves alone.\<close>

definition same_data :: "lstate \<Rightarrow> lstate \<Rightarrow> bool" where
  "same_data s s' \<longleftrightarrow> node_data s' = node_data s \<and> sleeps s' = sleeps s \<and> reqs s' = reqs s"

lemma same_data_refl [simp]: "same_data s s"
  by (simp add: same_data_def)

lemma same_data_trans [trans]: "same_data s t \<Longrightarrow> same_data t u \<Longrightarrow> same_data s u"
  by (simp add: same_data_def)

lemma lhead_set_head [simp]: "lhead (set_head i d v s) j e = (if j = i \<and> e = d then v else lhead s j e)"
  by (auto simp: lhead_def set_head_def split: side.splits)

lemma set_head_fields [simp]:
  "nodes (set_head i d v s) = nodes s" "sleeps (set_head i d v s) = sleeps s" "reqs (set_head i d v s) = reqs s"
  by (simp_all add: set_head_def)

lemma lhead_nodes [simp]: "lhead (s\<lparr>nodes := h\<rparr>) i d = lhead s i d" "lhead (s\<lparr>reqs := r\<rparr>) i d = lhead s i d"
  by (simp_all add: lhead_def split: side.splits)

lemma get_node_Some [simp]: "nodes s p = Some n \<Longrightarrow> get_node s (Some p) = Inr n"
  by (simp add: get_node_def)

lemma set_ptr_Some:
  "nodes s p = Some n \<Longrightarrow> set_next (Some p) v s = Inr (s\<lparr>nodes := (nodes s)(p \<mapsto> n\<lparr>next_ptr := v\<rparr>)\<rparr>)"
  "nodes s p = Some n \<Longrightarrow> set_last (Some p) v s = Inr (s\<lparr>nodes := (nodes s)(p \<mapsto> n\<lparr>last_ptr := v\<rparr>)\<rparr>)"
  by (simp_all add: set_next_def set_last_def)

lemma same_data_upd:
  "nodes s p = Some n \<Longrightarrow> same_data s (s\<lparr>nodes := (nodes s)(p \<mapsto> n\<lparr>next_ptr := v\<rparr>)\<rparr>)"
  "nodes s p = Some n \<Longrightarrow> same_data s (s\<lparr>nodes := (nodes s)(p \<mapsto> n\<lparr>last_ptr := v\<rparr>)\<rparr>)"
  "same_data s (set_head i d w s)"
  by (auto simp: same_data_def node_data_def fun_eq_iff)

lemma lists_okD:
  assumes "lists_ok s L"
  shows "dlist (nodes s) (lhead s i d) (L i d)" "(i, d) \<noteq> (j, e) \<Longrightarrow> set (L i d) \<inter> set (L j e) = {}"
  using assms by (auto simp: lists_ok_def)

text \<open>An operation that touches only nodes of one list, or free ones, keeps the others.\<close>

lemma lists_ok_disj: "lists_ok s L \<Longrightarrow> p \<in> set (L i d) \<Longrightarrow> (j, e) \<noteq> (i, d) \<Longrightarrow> p \<notin> set (L j e)"
  using lists_okD(2) [of s L i d j e] by blast

lemma lists_ok_change:
  assumes ok: "lists_ok s L"
    and new: "dlist (nodes s') (lhead s' i d) ps"
    and heads: "\<forall>j e. (j, e) \<noteq> (i, d) \<longrightarrow> lhead s' j e = lhead s j e"
    and sub: "\<forall>p \<in> set ps. p \<in> set (L i d) \<or> (\<forall>j e. p \<notin> set (L j e))"
    and frame: "\<forall>p. p \<notin> set (L i d) \<longrightarrow> p \<notin> set ps \<longrightarrow> nodes s' p = nodes s p"
  shows "lists_ok s' (upd_list i d ps L)"
proof -
  have dis: "p \<notin> set (L j e)" if "p \<in> set ps \<or> p \<in> set (L i d)" "(j, e) \<noteq> (i, d)" for p j e
    using that sub lists_ok_disj [OF ok] by blast
  have "dlist (nodes s') (lhead s' j e) (L j e)" if ne: "(j, e) \<noteq> (i, d)" for j e
  proof -
    have "nodes s' p = nodes s p" if "p \<in> set (L j e)" for p
      using frame that dis [OF _ ne] by blast
    then have "dlist (nodes s') (lhead s' j e) (L j e) = dlist (nodes s) (lhead s j e) (L j e)"
      using heads ne dlist_cong [of "L j e" "nodes s'" "nodes s"] by metis
    with lists_okD(1) [OF ok] show ?thesis by simp
  qed
  moreover have "set ps \<inter> set (L j e) = {}" if "(j, e) \<noteq> (i, d)" for j e
    using dis that by blast
  ultimately show ?thesis
    using new lists_okD(2) [OF ok] unfolding lists_ok_def upd_list_apply by (auto simp: Int_commute)
qed

subsection \<open>The operations on well-formed lists\<close>

lemma chain_end_spec:
  assumes ok: "lists_ok s L" and q: "nodes s p = Some q" "next_ptr q = None" and fresh: "\<forall>j e. p \<notin> set (L j e)"
  shows "\<exists>s'. chain_end i d p s = Inr s' \<and> lists_ok s' (upd_list i d (L i d @ [p]) L) \<and> same_data s s'"
proof (cases "L i d" rule: rev_cases)
  case Nil
  then have "lhead s i d = None" using dlist_start [OF lists_okD(1) [OF ok, of i d]] by simp
  then have "chain_end i d p s = set_last (Some p) (Some p) (set_head i d (Some p) s)"
    by (simp add: chain_end_def)
  also have "\<dots> = Inr ((set_head i d (Some p) s)\<lparr>nodes := (nodes s)(p \<mapsto> q\<lparr>last_ptr := Some p\<rparr>)\<rparr>)" (is "_ = Inr ?s")
    using q by (simp add: set_ptr_Some)
  finally have run: "chain_end i d p s = Inr ?s" .
  have "dlist (nodes ?s) (lhead ?s i d) [p]" using q(2) by (simp add: dlist_def)
  then have "lists_ok ?s (upd_list i d [p] L)"
    by (rule lists_ok_change [OF ok]) (use fresh in auto)
  moreover have "same_data s ?s"
    using q by (auto simp: same_data_def node_data_def fun_eq_iff)
  ultimately show ?thesis using run Nil by simp
next
  case (snoc xs l)
  note D = lists_okD(1) [OF ok, of i d]
  have a: "lhead s i d = Some (hd (L i d))" using dlist_start [OF D] snoc by simp
  obtain n where n: "nodes s l = Some n" using dlist_alloc [OF D, of l] snoc by auto
  obtain f0 where f0: "nodes s (hd (L i d)) = Some f0" "last_ptr f0 = Some l"
    using D snoc by (auto simp: dlist_def)
  let ?h = "(nodes s)(l \<mapsto> n\<lparr>next_ptr := Some p\<rparr>)"
  have pn: "p \<notin> set (L i d)" using fresh by blast
  obtain f where f: "?h (hd (L i d)) = Some f" using f0 n by (cases "hd (L i d) = l") auto
  let ?s1 = "s\<lparr>nodes := ?h\<rparr>" and ?s = "s\<lparr>nodes := ?h(hd (L i d) \<mapsto> f\<lparr>last_ptr := Some p\<rparr>)\<rparr>"
  have "chain_end i d p s = set_last (Some (hd (L i d))) (Some p) ?s1"
    using a f0 n by (simp add: chain_end_def set_ptr_Some)
  also have "\<dots> = Inr ?s" using f by (simp add: set_ptr_Some)
  finally have run: "chain_end i d p s = Inr ?s" .
  have "dlist (nodes ?s) (lhead ?s i d) (L i d @ [p])"
    using dlist_snoc [of "nodes s" "lhead s i d" "L i d" xs l n p q ?h f] D snoc n q pn f by simp
  then have "lists_ok ?s (upd_list i d (L i d @ [p]) L)"
    by (rule lists_ok_change [OF ok]) (use fresh snoc in \<open>auto simp: hd_append split: if_splits\<close>)
  moreover have "same_data ?s1 ?s" using same_data_upd(2) [of ?s1 "hd (L i d)" f] f by simp
  then have "same_data s ?s" using same_data_upd(1) [OF n] same_data_trans by blast
  ultimately show ?thesis using run by blast
qed

text \<open>The search loop ends on a path, with the first node that matches.\<close>

lemma find_node_step:
  "find_node P s pred (Some p) =
     (case get_node s (Some p) of Inl e \<Rightarrow> Some (Inl e)
      | Inr n \<Rightarrow> if P n then Some (Inr (Some (pred, p))) else find_node P s (Some p) (next_ptr n))"
  "find_node P s pred None = Some (Inr None)"
  by (subst find_node.simps, simp)+

lemma find_node_none:
  assumes "path (nodes s) a ps None" "\<forall>p n. p \<in> set ps \<longrightarrow> nodes s p = Some n \<longrightarrow> \<not> P n"
  shows "find_node P s pred a = Some (Inr None)"
  using assms
proof (induction ps arbitrary: a pred)
  case Nil
  then show ?case by (simp add: find_node_step)
next
  case (Cons p ps)
  then obtain n where "a = Some p" "nodes s p = Some n" "path (nodes s) (next_ptr n) ps None" by auto
  with Cons show ?case by (simp add: find_node_step)
qed

lemma find_node_found:
  assumes "path (nodes s) a (xs @ c # ys) None" "\<forall>p n. p \<in> set xs \<longrightarrow> nodes s p = Some n \<longrightarrow> \<not> P n"
    and "nodes s c = Some m" "P m"
  shows "find_node P s pred a = Some (Inr (Some (if xs = [] then pred else Some (last xs), c)))"
  using assms
proof (induction xs arbitrary: a pred)
  case Nil
  then show ?case by (simp add: find_node_step)
next
  case (Cons p xs)
  then obtain n where n: "a = Some p" "nodes s p = Some n" "path (nodes s) (next_ptr n) (xs @ c # ys) None" by auto
  have "\<not> P n" using Cons.prems(2) n(2) by simp
  with n Cons.IH [of "next_ptr n" "Some p"] Cons.prems show ?case by (simp add: find_node_step)
qed

text \<open>Taking a node out of the list \<open>ps\<close>, which leaves \<open>rs\<close>: what the three cases of the code have in common.\<close>

definition unlinked :: "nat \<Rightarrow> nat list \<Rightarrow> lstate \<Rightarrow> lstate \<Rightarrow> bool" where
  "unlinked i rs s s' \<longleftrightarrow> dlist (nodes s') (lhead s' i Req) rs \<and> (\<forall>p. p \<notin> set rs \<longrightarrow> nodes s' p = nodes s p)
     \<and> (\<forall>j e. (j, e) \<noteq> (i, Req) \<longrightarrow> lhead s' j e = lhead s j e) \<and> same_data s s'"

lemma unlink_first:
  assumes D: "dlist (nodes s) (lhead s i Req) (c # ys)"
  shows "\<exists>s'. unlink i None c s = Inr s' \<and> unlinked i ys s s'"
proof -
  obtain n where n: "nodes s c = Some n" using dlist_alloc [OF D, of c] by auto
  have a: "lhead s i Req = Some c" using dlist_start [OF D] by simp
  show ?thesis
  proof (cases ys)
    case Nil
    then have "next_ptr n = None" using D n by (auto simp: dlist_def)
    then have "unlink i None c s = Inr (set_head i Req None s)" using a n by (simp add: unlink_def)
    then show ?thesis using Nil same_data_upd(3) by (auto simp: unlinked_def)
  next
    case (Cons y zs)
    obtain m where m: "nodes s y = Some m" using dlist_alloc [OF D, of y] Cons by auto
    have nx: "next_ptr n = Some y" using D n Cons by (auto simp: dlist_def)
    let ?s = "(set_head i Req (Some y) s)\<lparr>nodes := (nodes s)(y \<mapsto> m\<lparr>last_ptr := last_ptr n\<rparr>)\<rparr>"
    have "unlink i None c s = Inr ?s" using a n nx m by (simp add: unlink_def set_ptr_Some)
    moreover have "dlist (nodes ?s) (lhead ?s i Req) ys"
      using dlist_remove_first [of "nodes s" "lhead s i Req" c y zs n m] D n m nx Cons by simp
    moreover have "same_data s ?s" using m by (auto simp: same_data_def node_data_def fun_eq_iff)
    ultimately show ?thesis using Cons by (auto simp: unlinked_def)
  qed
qed

lemma unlink_last:
  assumes D: "dlist (nodes s) (lhead s i Req) (us @ [l, c])"
  shows "\<exists>s'. unlink i (Some l) c s = Inr s' \<and> unlinked i (us @ [l]) s s'"
proof -
  have dis: "distinct (us @ [l, c])" using dlist_distinct [OF D] .
  obtain n where n: "nodes s c = Some n" using dlist_alloc [OF D, of c] by auto
  have a: "lhead s i Req = Some (hd (us @ [l]))" using dlist_start [OF D] by (simp add: hd_append)
  obtain f where f: "nodes s (hd (us @ [l])) = Some f" "last_ptr f = Some c" using D by (auto simp: dlist_def hd_append split: if_splits)
  let ?h = "(nodes s)(hd (us @ [l]) \<mapsto> f\<lparr>last_ptr := Some l\<rparr>)"
  obtain m where m: "?h l = Some m" using dlist_alloc [OF D, of l] by (cases "hd (us @ [l]) = l") auto
  let ?s = "s\<lparr>nodes := ?h(l \<mapsto> m\<lparr>next_ptr := None\<rparr>)\<rparr>"
  have ne: "c \<noteq> hd (us @ [l])" using dis by (cases us) auto
  have "set_last (lhead s i Req) (Some l) s = Inr (s\<lparr>nodes := ?h\<rparr>)" using a f by (simp add: set_ptr_Some)
  moreover have "set_next (Some l) None (s\<lparr>nodes := ?h\<rparr>) = Inr ?s" using m by (simp add: set_ptr_Some)
  ultimately have "unlink i (Some l) c s = Inr ?s" using ne a n f by (simp add: unlink_def)
  moreover have "dlist (nodes ?s) (lhead ?s i Req) (us @ [l])"
    using dlist_remove_last [of "nodes s" "lhead s i Req" us l c "hd (us @ [l])" f ?h m] D f m by simp
  moreover have "same_data s (s\<lparr>nodes := ?h\<rparr>)" "same_data (s\<lparr>nodes := ?h\<rparr>) ?s"
    using same_data_upd(2) [of s "hd (us @ [l])" f] same_data_upd(1) [of "s\<lparr>nodes := ?h\<rparr>" l m] f m by simp_all
  then have "same_data s ?s" by (rule same_data_trans)
  ultimately show ?thesis by (auto simp: unlinked_def hd_append split: if_splits)
qed

lemma unlink_inner:
  assumes D: "dlist (nodes s) (lhead s i Req) (us @ l # c # y # zs)"
  shows "\<exists>s'. unlink i (Some l) c s = Inr s' \<and> unlinked i (us @ l # y # zs) s s'"
proof -
  have dis: "distinct (us @ l # c # y # zs)" using dlist_distinct [OF D] .
  obtain n where n: "nodes s c = Some n" using dlist_alloc [OF D, of c] by auto
  obtain m where m: "nodes s l = Some m" using dlist_alloc [OF D, of l] by auto
  have a: "lhead s i Req = Some (hd (us @ [l]))" using dlist_start [OF D] by (simp add: hd_append)
  obtain f where f: "nodes s (hd (us @ [l])) = Some f" "last_ptr f = Some (last (y # zs))"
    using D by (auto simp: dlist_def hd_append split: if_splits)
  let ?s = "s\<lparr>nodes := (nodes s)(l \<mapsto> m\<lparr>next_ptr := next_ptr n\<rparr>)\<rparr>"
  have "c \<noteq> hd (us @ [l])" "c \<noteq> last (y # zs)" using dis by (cases us; auto)+
  then have "unlink i (Some l) c s = Inr ?s" using a n f m by (simp add: unlink_def set_ptr_Some)
  moreover have "dlist (nodes ?s) (lhead ?s i Req) (us @ l # y # zs)"
    using dlist_remove_inner [of "nodes s" "lhead s i Req" us l c y zs m n] D n m by simp
  ultimately show ?thesis using same_data_upd(1) [OF m] by (auto simp: unlinked_def)
qed

lemma unlink_spec:
  assumes ok: "lists_ok s L" and L: "L i Req = xs @ c # ys"
  shows "\<exists>s'. unlink i (if xs = [] then None else Some (last xs)) c s = Inr s'
     \<and> lists_ok s' (upd_list i Req (xs @ ys) L) \<and> same_data s s'"
proof -
  note D = lists_okD(1) [OF ok, of i Req]
  consider (first) "xs = []" | (lst) us l where "xs = us @ [l]" "ys = []" | (inner) us l y zs where "xs = us @ [l]" "ys = y # zs"
    by (metis list.exhaust rev_exhaust)
  then have "\<exists>s'. unlink i (if xs = [] then None else Some (last xs)) c s = Inr s' \<and> unlinked i (xs @ ys) s s'"
  proof cases
    case first
    then show ?thesis using unlink_first [of s i c ys] D L by simp
  next
    case lst
    then show ?thesis using unlink_last [of s i us l c] D L by simp
  next
    case inner
    then show ?thesis using unlink_inner [of s i us l c y zs] D L by simp
  qed
  then obtain s' where s': "unlink i (if xs = [] then None else Some (last xs)) c s = Inr s'" "unlinked i (xs @ ys) s s'" by blast
  have "lists_ok s' (upd_list i Req (xs @ ys) L)"
    by (rule lists_ok_change [OF ok]) (use s'(2) L in \<open>auto simp: unlinked_def\<close>)
  with s' show ?thesis by (auto simp: unlinked_def)
qed

subsection \<open>The abstract view\<close>

text \<open>
  Of a connection the clients see two lists of message ids and contexts. \<open>board s A\<close> says that the
  heap represents \<open>A\<close>, and that the requests of all pending contexts are allocated.
\<close>

type_synonym board = "nat \<Rightarrow> side \<Rightarrow> (int \<times> nat) list"

definition a_insert :: "nat \<Rightarrow> int \<Rightarrow> nat \<Rightarrow> board \<Rightarrow> board" where
  "a_insert i m c A = upd_list i Req (A i Req @ [(m, c)]) A"

definition a_move :: "nat \<Rightarrow> int \<Rightarrow> board \<Rightarrow> nat option \<times> board" where
  "a_move i m A =
     (case List.extract (\<lambda>x. fst x = m) (A i Req) of
        None \<Rightarrow> (None, A)
      | Some (xs, x, ys) \<Rightarrow> (Some (snd x), upd_list i Resp (A i Resp @ [x]) (upd_list i Req (xs @ ys) A)))"

definition a_take :: "nat \<Rightarrow> board \<Rightarrow> nat option \<times> board" where
  "a_take i A = (case A i Resp of [] \<Rightarrow> (None, A) | x # r \<Rightarrow> (Some (snd x), upd_list i Resp r A))"

definition contents :: "lstate \<Rightarrow> nat list \<Rightarrow> (int \<times> nat) list" where
  "contents s ps = map (\<lambda>p. the (node_data s p)) ps"

definition board :: "lstate \<Rightarrow> board \<Rightarrow> bool" where
  "board s A \<longleftrightarrow> (\<exists>L. lists_ok s L \<and> A = (\<lambda>i d. contents s (L i d)))
     \<and> (\<forall>i. \<forall>(m, c) \<in> set (A i Req). \<exists>x. get_req s c = Inr x)"

lemma boardI:
  assumes "lists_ok s L" "A = (\<lambda>i d. contents s (L i d))" "\<And>i m c. (m, c) \<in> set (A i Req) \<Longrightarrow> \<exists>x. get_req s c = Inr x"
  shows "board s A"
  using assms by (auto simp: board_def)

lemma node_data_fields [simp]: "node_data (s\<lparr>reqs := x\<rparr>) = node_data s" "node_data (set_head i d w s) = node_data s"
  by (simp_all add: node_data_def fun_eq_iff)

lemma contents_same: "same_data s s' \<Longrightarrow> contents s' ps = contents s ps"
  by (simp add: contents_def same_data_def)

lemma get_req_cong: "sleeps s' = sleeps s \<Longrightarrow> reqs s' = reqs s \<Longrightarrow> get_req s' c = get_req s c"
  by (auto simp: get_req_def split: option.splits)

lemma get_req_same: "same_data s s' \<Longrightarrow> get_req s' c = get_req s c"
  by (rule get_req_cong) (simp_all add: same_data_def)

lemma get_req_update:
  "reqs s r = Some q0 \<Longrightarrow> (\<exists>x. get_req (s\<lparr>reqs := (reqs s)(r \<mapsto> q)\<rparr>) c = Inr x) \<longleftrightarrow> (\<exists>x. get_req s c = Inr x)"
  by (auto simp: get_req_def split: option.splits)

lemma get_req_alloc: "get_req s c = Inr (r, q) \<Longrightarrow> reqs s r = Some q"
  by (auto simp: get_req_def split: option.splits)

lemma contents_simps [simp]: "contents s (xs @ ys) = contents s xs @ contents s ys" "contents s [] = []"
  "contents s (x # xs) = the (node_data s x) # contents s xs"
  by (simp_all add: contents_def)

lemma print_list_quiet [simp]: "v < 3 \<Longrightarrow> print_list v i d s = Inr s"
  by (simp add: print_list_def)

lemma insert_Request_board:
  assumes b: "board s A" and p: "nodes s p = None" and c: "get_req s c = Inr x" and v: "v < 3"
  shows "\<exists>s'. insert_Request v (Some p) junk i m c s = Inr (0, s') \<and> board s' (a_insert i m c A)"
proof -
  obtain L where L: "lists_ok s L" "A = (\<lambda>i d. contents s (L i d))" using b by (auto simp: board_def)
  let ?n = "junk\<lparr>next_ptr := None, msgid := m, sleepCtx := c\<rparr>" and ?s1 = "s\<lparr>nodes := (nodes s)(p \<mapsto> junk\<lparr>next_ptr := None, msgid := m, sleepCtx := c\<rparr>)\<rparr>"
  have fresh: "\<forall>j e. p \<notin> set (L j e)" using dlist_alloc [OF lists_okD(1) [OF L(1)]] p by fastforce
  then have ok1: "lists_ok ?s1 L" using L(1) by (simp add: lists_ok_def)
  from chain_end_spec [OF ok1 _ _ fresh, of ?n i Req] obtain s' where s': "chain_end i Req p ?s1 = Inr s'"
      "lists_ok s' (upd_list i Req (L i Req @ [p]) L)" "same_data ?s1 s'" by auto
  have nd: "node_data s' q = (if q = p then Some (m, c) else node_data s q)" for q
    using s'(3) by (simp add: same_data_def node_data_def)
  have "contents s' (L j e) = contents s (L j e)" for j e
    using fresh by (auto simp: contents_def nd)
  then have "a_insert i m c A = (\<lambda>j e. contents s' (upd_list i Req (L i Req @ [p]) L j e))"
    by (auto simp: a_insert_def L(2) fun_eq_iff nd)
  moreover have "\<exists>x. get_req s' c' = Inr x" if "(m', c') \<in> set (a_insert i m c A j Req)" for j m' c'
  proof -
    have "get_req s' c' = get_req s c'" using s'(3) by (intro get_req_cong) (simp_all add: same_data_def)
    with that b c show ?thesis by (auto simp: a_insert_def board_def split: if_splits)
  qed
  ultimately have "board s' (a_insert i m c A)" using s'(2) by (intro boardI)
  then show ?thesis using s'(1) v by (simp add: insert_Request_def Let_def)
qed

lemma insert_Response_spec:
  assumes ok: "lists_ok s L" and q: "nodes s p = Some q" and fresh: "\<forall>j e. p \<notin> set (L j e)" and v: "v < 3"
  shows "\<exists>s'. insert_Response v i p s = Inr s' \<and> lists_ok s' (upd_list i Resp (L i Resp @ [p]) L) \<and> same_data s s'"
proof -
  let ?s = "s\<lparr>nodes := (nodes s)(p \<mapsto> q\<lparr>next_ptr := None\<rparr>)\<rparr>"
  have "lists_ok ?s L" using ok fresh by (simp add: lists_ok_def)
  from chain_end_spec [OF this _ _ fresh, of "q\<lparr>next_ptr := None\<rparr>" i Resp] obtain s' where s': "chain_end i Resp p ?s = Inr s'"
      "lists_ok s' (upd_list i Resp (L i Resp @ [p]) L)" "same_data ?s s'" by auto
  moreover have "same_data s s'" using same_data_upd(1) [OF q] s'(3) same_data_trans by blast
  ultimately show ?thesis using q v by (simp add: insert_Response_def set_ptr_Some)
qed

lemma node_data_Some: "nodes s p = Some n \<Longrightarrow> node_data s p = Some (msgid n, sleepCtx n)"
  by (simp add: node_data_def)

text \<open>The node that is searched for, in terms of the abstract list.\<close>

lemma extract_contents_None:
  assumes "dlist (nodes s) a ps" "List.extract (\<lambda>x. fst x = m) (contents s ps) = None"
  shows "find_node (\<lambda>n. msgid n = m) s None a = Some (Inr None)"
proof (rule find_node_none)
  show "path (nodes s) a ps None" using assms(1) by (simp add: dlist_def)
  show "\<forall>p n. p \<in> set ps \<longrightarrow> nodes s p = Some n \<longrightarrow> msgid n \<noteq> m"
  proof (intro allI impI)
    fix p n assume p: "p \<in> set ps" "nodes s p = Some n"
    then have "(msgid n, sleepCtx n) \<in> set (contents s ps)"
      unfolding contents_def by (force simp: node_data_Some)
    with assms(2) show "msgid n \<noteq> m" by (auto simp: extract_None_iff)
  qed
qed

lemma extract_contents_Some:
  assumes "dlist (nodes s) a ps" "List.extract (\<lambda>x. fst x = m) (contents s ps) = Some (xs, x, ys)"
  obtains us c ws n where "ps = us @ c # ws" "contents s us = xs" "contents s ws = ys" "nodes s c = Some n"
    "x = (m, sleepCtx n)" "msgid n = m"
    "find_node (\<lambda>n. msgid n = m) s None a = Some (Inr (Some (if us = [] then None else Some (last us), c)))"
proof -
  from assms(2) have e: "contents s ps = xs @ x # ys" "fst x = m" "\<forall>y \<in> set xs. fst y \<noteq> m"
    by (auto simp: extract_Some_iff)
  then obtain us c ws where ps: "ps = us @ c # ws" "contents s us = xs" "the (node_data s c) = x" "contents s ws = ys"
    unfolding contents_def map_eq_append_conv by (auto simp: map_eq_Cons_conv)
  obtain n where n: "nodes s c = Some n" using dlist_alloc [OF assms(1), of c] ps by auto
  have x: "x = (m, sleepCtx n)" "msgid n = m" using ps(3) n e(2) by (auto simp: node_data_Some)
  have "\<forall>p n. p \<in> set us \<longrightarrow> nodes s p = Some n \<longrightarrow> msgid n \<noteq> m"
  proof (intro allI impI)
    fix p n assume p: "p \<in> set us" "nodes s p = Some n"
    then have "(msgid n, sleepCtx n) \<in> set (contents s us)"
      unfolding contents_def by (force simp: node_data_Some)
    with e(3) ps(2) show "msgid n \<noteq> m" by auto
  qed
  then have "find_node (\<lambda>n. msgid n = m) s None a = Some (Inr (Some (if us = [] then None else Some (last us), c)))"
    using assms(1) n x(2) unfolding ps(1) dlist_def by (intro find_node_found) auto
  with ps n x show thesis by (intro that)
qed

text \<open>An answer whose request is found: the node is moved, then the request of its context is written.\<close>

lemma getAndMove_found:
  assumes L: "lists_ok s L" and e: "List.extract (\<lambda>x. fst x = m) (contents s (L i Req)) = Some (xs, x, ys)" and v: "v < 3"
  obtains us q ws s2 where "L i Req = us @ q # ws" "contents s us = xs" "contents s ws = ys" "node_data s q = Some x" "fst x = m"
    "lists_ok s2 (upd_list i Resp (L i Resp @ [q]) (upd_list i Req (us @ ws) L))" "same_data s s2"
    "getAndMove_RequestToResponse v now i m msg rc s
       = Some (rbind (answer_req now (snd x) msg rc s2) (\<lambda>(tm, s3). Inr (Some (snd x, tm), s3)))"
proof -
  note D = lists_okD(1) [OF L, of i Req]
  obtain us q ws n where f: "L i Req = us @ q # ws" "contents s us = xs" "contents s ws = ys" "nodes s q = Some n" "x = (m, sleepCtx n)" "msgid n = m"
      "find_node (\<lambda>n. msgid n = m) s None (lhead s i Req) = Some (Inr (Some (if us = [] then None else Some (last us), q)))"
    by (rule extract_contents_Some [OF D e])
  let ?pred = "if us = [] then None else Some (last us)" and ?L1 = "upd_list i Req (us @ ws) L"
  obtain s1 where s1: "unlink i ?pred q s = Inr s1" "lists_ok s1 ?L1" "same_data s s1" using unlink_spec [OF L f(1)] by blast
  have "node_data s1 q \<noteq> None" using s1(3) f(4) by (simp add: same_data_def node_data_Some)
  then obtain n1 where n1: "nodes s1 q = Some n1" by (auto simp: node_data_def)
  have "distinct (L i Req)" using dlist_distinct [OF D] .
  then have fresh: "\<forall>j e. q \<notin> set (?L1 j e)" using lists_ok_disj [OF L, of q i Req] f(1) by auto
  from insert_Response_spec [OF s1(2) n1 fresh v, of i] obtain s2 where s2: "insert_Response v i q s1 = Inr s2"
      "lists_ok s2 (upd_list i Resp (?L1 i Resp @ [q]) ?L1)" "same_data s1 s2" by blast
  have "getAndMove_RequestToResponse v now i m msg rc s
      = Some (rbind (answer_req now (snd x) msg rc s2) (\<lambda>(tm, s3). Inr (Some (snd x, tm), s3)))"
    using f(4,5,7) s1(1) s2(1) v by (simp add: getAndMove_RequestToResponse_def move_found_def rbind_assoc split_def)
  with f s2(2) same_data_trans [OF s1(3) s2(3)] show thesis by (intro that) (auto simp: node_data_Some)
qed

lemma getAndMove_board:
  assumes b: "board s A" and v: "v < 3"
  shows "\<exists>tm s'. getAndMove_RequestToResponse v now i m msg rc s
       = Some (Inr (map_option (\<lambda>c. (c, tm)) (fst (a_move i m A)), s')) \<and> board s' (snd (a_move i m A))"
proof -
  obtain L where L: "lists_ok s L" "A = (\<lambda>i d. contents s (L i d))" using b by (auto simp: board_def)
  show ?thesis
  proof (cases "List.extract (\<lambda>x. fst x = m) (A i Req)")
    case None
    then have "find_node (\<lambda>n. msgid n = m) s None (lhead s i Req) = Some (Inr None)"
      using extract_contents_None [OF lists_okD(1) [OF L(1), of i Req]] by (simp add: L(2))
    with None b v show ?thesis by (simp add: getAndMove_RequestToResponse_def a_move_def)
  next
    case (Some t)
    obtain xs x ys where t: "t = (xs, x, ys)" by (cases t)
    have e: "List.extract (\<lambda>x. fst x = m) (contents s (L i Req)) = Some (xs, x, ys)" using Some by (simp add: t L(2))
    obtain us q ws s2 where f: "L i Req = us @ q # ws" "contents s us = xs" "contents s ws = ys" "node_data s q = Some x" "fst x = m"
        "lists_ok s2 (upd_list i Resp (L i Resp @ [q]) (upd_list i Req (us @ ws) L))" "same_data s s2"
        "getAndMove_RequestToResponse v now i m msg rc s
           = Some (rbind (answer_req now (snd x) msg rc s2) (\<lambda>(tm, s3). Inr (Some (snd x, tm), s3)))"
      by (rule getAndMove_found [OF L(1) e v])
    have old: "\<exists>z. get_req s c = Inr z" if "(m', c) \<in> set (A j Req)" for j m' c using b that by (auto simp: board_def)
    have "x \<in> set (A i Req)" using Some t by (auto simp: extract_Some_iff)
    then obtain r q' where rq: "get_req s2 (snd x) = Inr (r, q')" using old [of "fst x" "snd x" i] get_req_same [OF f(7)] by auto
    let ?s3 = "s2\<lparr>reqs := (reqs s2)(r \<mapsto> q'\<lparr>res := msg, ctx_rc := rc\<rparr>)\<rparr>"
    have mv: "a_move i m A = (Some (snd x), upd_list i Resp (A i Resp @ [x]) (upd_list i Req (xs @ ys) A))"
      using Some by (simp add: a_move_def t)
    have "board ?s3 (snd (a_move i m A))"
    proof (rule boardI)
      show "lists_ok ?s3 (upd_list i Resp (L i Resp @ [q]) (upd_list i Req (us @ ws) L))" using f(6) by (simp add: lists_ok_def)
      have "contents ?s3 ps = contents s ps" for ps using f(7) by (simp add: contents_def same_data_def)
      then show "snd (a_move i m A) = (\<lambda>j e. contents ?s3 (upd_list i Resp (L i Resp @ [q]) (upd_list i Req (us @ ws) L) j e))"
        using f(1-4) unfolding mv by (auto simp: L(2) fun_eq_iff)
      fix j m' c' assume "(m', c') \<in> set (snd (a_move i m A) j Req)"
      then have "(m', c') \<in> set (A j Req)" using Some t by (auto simp: mv extract_Some_iff split: if_splits)
      from old [OF this] show "\<exists>z. get_req ?s3 c' = Inr z"
        using get_req_update [OF get_req_alloc [OF rq]] get_req_same [OF f(7)] by simp
    qed
    then show ?thesis using f(8) rq by (simp add: mv answer_req_def)
  qed
qed

text \<open>When the context of the first request is gone, its answer faults.\<close>

lemma getAndMove_fault:
  assumes L: "lists_ok s L" "contents s (L i Req) = (m, c) # ys" and v: "v < 3" and g: "get_req s c = Inl err"
  shows "getAndMove_RequestToResponse v now i m msg rc s = Some (Inl err)"
proof -
  have e: "List.extract (\<lambda>x. fst x = m) (contents s (L i Req)) = Some ([], (m, c), ys)" by (simp add: L(2) extract_Cons_code)
  show ?thesis
  proof (rule getAndMove_found [OF L(1) e v, of now msg rc])
    fix s2 assume "same_data s s2" and r: "getAndMove_RequestToResponse v now i m msg rc s
      = Some (rbind (answer_req now (snd (m, c)) msg rc s2) (\<lambda>(tm, s3). Inr (Some (snd (m, c), tm), s3)))"
    then show ?thesis using g get_req_same [of s s2 c] unfolding r by (simp add: answer_req_def)
  qed
qed

lemma pop_dlist:
  assumes D: "dlist (nodes s) (lhead s i Resp) (c # cs)" and n: "nodes s c = Some n" and v: "v < 3"
  shows "\<exists>s'. getAndRemove_firstResponse v i s = Inr (Some (sleepCtx n), s') \<and> dlist (nodes s') (lhead s' i Resp) cs
    \<and> (\<forall>p. node_data s' p = (if p = c then None else node_data s p)) \<and> sleeps s' = sleeps s \<and> reqs s' = reqs s
    \<and> (\<forall>j e. (j, e) \<noteq> (i, Resp) \<longrightarrow> lhead s' j e = lhead s j e)
    \<and> (\<forall>p. p \<noteq> c \<longrightarrow> p \<notin> set cs \<longrightarrow> nodes s' p = nodes s p)"
proof -
  have a: "lhead s i Resp = Some c" using dlist_start [OF D] by simp
  have dis: "c \<notin> set cs" using dlist_distinct [OF D] by simp
  have "\<exists>s1. (if next_ptr n \<noteq> None then set_last (next_ptr n) (last_ptr n) s else Inr s) = Inr s1
      \<and> dlist (nodes s1) (next_ptr n) cs \<and> same_data s s1 \<and> ldTab s1 = ldTab s \<and> (\<forall>p. p \<notin> set cs \<longrightarrow> nodes s1 p = nodes s p)"
  proof (cases cs)
    case Nil
    then show ?thesis using D n by (auto simp: dlist_def)
  next
    case (Cons y zs)
    obtain m where m: "nodes s y = Some m" using dlist_alloc [OF D, of y] Cons by auto
    have nx: "next_ptr n = Some y" using D Cons n by (auto simp: dlist_def)
    let ?s = "s\<lparr>nodes := (nodes s)(y \<mapsto> m\<lparr>last_ptr := last_ptr n\<rparr>)\<rparr>"
    have "dlist (nodes ?s) (next_ptr n) cs"
      using dlist_remove_first [of "nodes s" "lhead s i Resp" c y zs n m] D Cons n m by simp
    moreover have "same_data s ?s" using same_data_upd(2) [OF m] .
    ultimately show ?thesis using nx m Cons by (intro exI [of _ ?s]) (simp add: set_ptr_Some)
  qed
  then obtain s1 where s1: "(if next_ptr n \<noteq> None then set_last (next_ptr n) (last_ptr n) s else Inr s) = Inr s1"
      "dlist (nodes s1) (next_ptr n) cs" "same_data s s1" "ldTab s1 = ldTab s" "\<forall>p. p \<notin> set cs \<longrightarrow> nodes s1 p = nodes s p"
    by blast
  let ?s2 = "free_node c (set_head i Resp (next_ptr n) s1)"
  have "getAndRemove_firstResponse v i s = Inr (Some (sleepCtx n), ?s2)"
    using a n s1(1) v by (simp add: getAndRemove_firstResponse_def)
  moreover have "dlist (nodes ?s2) (lhead ?s2 i Resp) cs" using s1(2) dis by (simp add: free_node_def)
  moreover have "\<forall>p. node_data ?s2 p = (if p = c then None else node_data s p)"
    using s1(3) by (auto simp: same_data_def node_data_def free_node_def fun_eq_iff)
  moreover have "\<forall>j e. (j, e) \<noteq> (i, Resp) \<longrightarrow> lhead ?s2 j e = lhead s j e"
    using s1(4) by (auto simp: free_node_def lhead_def set_head_def split: side.splits)
  ultimately show ?thesis using s1(3,5) by (intro exI [of _ ?s2]) (auto simp: same_data_def free_node_def)
qed

lemma firstResponse_board:
  assumes b: "board s A" and v: "v < 3"
  shows "\<exists>s'. getAndRemove_firstResponse v i s = Inr (fst (a_take i A), s') \<and> board s' (snd (a_take i A))"
proof -
  obtain L where L: "lists_ok s L" "A = (\<lambda>i d. contents s (L i d))" using b by (auto simp: board_def)
  note D = lists_okD(1) [OF L(1), of i Resp]
  show ?thesis
  proof (cases "L i Resp")
    case Nil
    then have "lhead s i Resp = None" using dlist_start [OF D] by simp
    with Nil b v show ?thesis by (simp add: getAndRemove_firstResponse_def a_take_def L(2))
  next
    case (Cons c cs)
    obtain n where n: "nodes s c = Some n" using dlist_alloc [OF D, of c] Cons by auto
    have dis: "c \<notin> set cs" using dlist_distinct [OF D] Cons by simp
    have take: "a_take i A = (Some (sleepCtx n), upd_list i Resp (contents s cs) A)"
      using Cons n by (simp add: a_take_def L(2) node_data_Some)
    from pop_dlist [OF D [unfolded Cons] n v] obtain s' where s': "getAndRemove_firstResponse v i s = Inr (Some (sleepCtx n), s')"
        "dlist (nodes s') (lhead s' i Resp) cs" "\<forall>p. node_data s' p = (if p = c then None else node_data s p)"
        "sleeps s' = sleeps s" "reqs s' = reqs s" "\<forall>j e. (j, e) \<noteq> (i, Resp) \<longrightarrow> lhead s' j e = lhead s j e"
        "\<forall>p. p \<noteq> c \<longrightarrow> p \<notin> set cs \<longrightarrow> nodes s' p = nodes s p" by blast
    have "board s' (snd (a_take i A))"
    proof (rule boardI)
      show "lists_ok s' (upd_list i Resp cs L)"
        by (rule lists_ok_change [OF L(1) s'(2,6)]) (use Cons s'(7) in auto)
      have "c \<notin> set (L j e)" if "(j, e) \<noteq> (i, Resp)" for j e
        using lists_ok_disj [OF L(1) _ that, of c] Cons by simp
      then have "contents s' (upd_list i Resp cs L j e) = (if (j, e) = (i, Resp) then contents s cs else contents s (L j e))" for j e
        using dis s'(3) unfolding contents_def by (auto intro!: map_cong)
      then show "snd (a_take i A) = (\<lambda>j e. contents s' (upd_list i Resp cs L j e))"
        unfolding take by (auto simp: L(2) fun_eq_iff)
      fix j m' c' assume "(m', c') \<in> set (snd (a_take i A) j Req)"
      then have "\<exists>z. get_req s c' = Inr z" using b by (auto simp: take board_def)
      then show "\<exists>z. get_req s' c' = Inr z" using get_req_cong [OF s'(4,5)] by simp
    qed
    then show ?thesis using s'(1) by (simp add: take)
  qed
qed

subsection \<open>A broken connection\<close>

text \<open>Marking the pending requests changes their result codes only.\<close>

definition has_req :: "lstate \<Rightarrow> nat \<Rightarrow> bool" where
  "has_req s c \<longleftrightarrow> (\<exists>x. get_req s c = Inr x)"

lemma mark_loop_path:
  assumes "path (nodes s) a ps None" "\<forall>p n. p \<in> set ps \<longrightarrow> nodes s p = Some n \<longrightarrow> has_req s (sleepCtx n)"
  shows "\<exists>tms' rs. mark_loop now err a tms s = Some (Inr (tms', s\<lparr>reqs := rs\<rparr>))
    \<and> (\<forall>c. has_req (s\<lparr>reqs := rs\<rparr>) c = has_req s c) \<and> length tms' = length tms + length ps"
  using assms
proof (induction ps arbitrary: a tms s)
  case Nil
  then have "mark_loop now err a tms s = Some (Inr (tms, s\<lparr>reqs := reqs s\<rparr>))"
    by (subst mark_loop.simps) simp
  then show ?case by (intro exI [of _ tms] exI [of _ "reqs s"]) simp
next
  case (Cons p ps)
  then obtain n where n: "a = Some p" "nodes s p = Some n" "path (nodes s) (next_ptr n) ps None" by auto
  obtain r q where rq: "get_req s (sleepCtx n) = Inr (r, q)" using Cons.prems(2) n(2) unfolding has_req_def by force
  let ?s = "s\<lparr>reqs := (reqs s)(r \<mapsto> q\<lparr>ctx_rc := err\<rparr>)\<rparr>" and ?tms = "tms @ [elapsed now (ctx_time q)]"
  have upd: "has_req ?s c = has_req s c" for c
    unfolding has_req_def by (rule get_req_update [OF get_req_alloc [OF rq]])
  have "path (nodes ?s) (next_ptr n) ps None" "\<forall>p n. p \<in> set ps \<longrightarrow> nodes ?s p = Some n \<longrightarrow> has_req ?s (sleepCtx n)"
    using n(3) Cons.prems(2) by (simp_all add: upd)
  from Cons.IH [OF this, of ?tms] obtain tms' rs where ih: "mark_loop now err (next_ptr n) ?tms ?s = Some (Inr (tms', ?s\<lparr>reqs := rs\<rparr>))"
      "\<forall>c. has_req (?s\<lparr>reqs := rs\<rparr>) c = has_req ?s c" "length tms' = length ?tms + length ps" by blast
  have "mark_loop now err a tms s = mark_loop now err (next_ptr n) ?tms ?s"
    using n rq by (subst mark_loop.simps) simp
  with ih upd show ?case by (intro exI [of _ tms'] exI [of _ rs]) simp
qed

text \<open>With both lists non-empty the request list is chained behind the responses and stays where it was.\<close>

lemma splice_both:
  assumes "dlist (nodes s) (lhead s i Resp) (xs @ [l])" "dlist (nodes s) (lhead s i Req) (y # ys)" "set (xs @ [l]) \<inter> set (y # ys) = {}"
  shows "\<exists>s'. splice i s = Inr s' \<and> dlist (nodes s') (lhead s' i Resp) (xs @ [l] @ y # ys) \<and> lhead s' i Req = Some y"
proof -
  let ?a = "hd (xs @ [l])"
  have a: "lhead s i Resp = Some ?a" "lhead s i Req = Some y"
    using dlist_start [OF assms(1)] dlist_start [OF assms(2)] by simp_all
  obtain h where h: "nodes s ?a = Some h" "last_ptr h = Some l" using assms(1) by (auto simp: dlist_def)
  obtain f where f: "nodes s y = Some f" "last_ptr f = Some (last (y # ys))" using assms(2) by (auto simp: dlist_def)
  obtain n where n: "nodes s l = Some n" using dlist_alloc [OF assms(1), of l] by auto
  let ?h1 = "(nodes s)(l \<mapsto> n\<lparr>next_ptr := Some y\<rparr>)"
  have y: "?h1 y = Some f" using f assms(3) by auto
  obtain g where g: "?h1 ?a = Some g" using h n by (cases "?a = l") auto
  let ?s = "s\<lparr>nodes := ?h1(?a \<mapsto> g\<lparr>last_ptr := last_ptr f\<rparr>)\<rparr>"
  have run: "splice i s = Inr ?s"
    using a h n y g by (simp add: splice_def set_ptr_Some)
  have "path ?h1 (Some ?a) (xs @ [l] @ y # ys) None"
    using assms a by (auto simp: dlist_def)
  then have "path (nodes ?s) (Some ?a) (xs @ [l] @ y # ys) None"
    using path_upd_last [of ?h1 ?a g "last_ptr f" "Some ?a" "xs @ [l] @ y # ys" None] g
    by (simp del: path.simps path_append)
  moreover have "distinct (xs @ [l] @ y # ys)" using assms by (auto simp: dlist_def)
  moreover have "hd (xs @ [l] @ y # ys) = ?a" by (cases xs) auto
  ultimately have "dlist (nodes ?s) (lhead ?s i Resp) (xs @ [l] @ y # ys)"
    using a f by (auto simp: dlist_def)
  with run a show ?thesis by simp
qed

fun take_responses :: "int \<Rightarrow> nat \<Rightarrow> nat \<Rightarrow> lstate \<Rightarrow> lstate result" where
  "take_responses v i 0 s = Inr s"
| "take_responses v i (Suc k) s = rbind (getAndRemove_firstResponse v i s) (\<lambda>(c, s'). take_responses v i k s')"

lemma take_responses_free:
  assumes "dlist (nodes s) (lhead s i Resp) (xs @ y # ys)" "lhead s i Req = Some y" "v < 3"
  shows "\<exists>s'. take_responses v i (Suc (length xs)) s = Inr s' \<and> lhead s' i Req = Some y \<and> nodes s' y = None"
  using assms
proof (induction xs arbitrary: s)
  case Nil
  then have D: "dlist (nodes s) (lhead s i Resp) (y # ys)" by simp
  obtain n where n: "nodes s y = Some n" using dlist_alloc [OF D, of y] by auto
  from pop_dlist [OF D n] Nil obtain s' where "getAndRemove_firstResponse v i s = Inr (Some (sleepCtx n), s')"
      "node_data s' y = None" "lhead s' i Req = Some y" by fastforce
  then show ?case by (auto simp: node_data_def)
next
  case (Cons x xs)
  then have D: "dlist (nodes s) (lhead s i Resp) (x # xs @ y # ys)" by simp
  obtain n where n: "nodes s x = Some n" using dlist_alloc [OF D, of x] by auto
  from pop_dlist [OF D n] Cons.prems obtain s' where "getAndRemove_firstResponse v i s = Inr (Some (sleepCtx n), s')"
      "dlist (nodes s') (lhead s' i Resp) (xs @ y # ys)" "lhead s' i Req = Some y" by fastforce
  with Cons.IH [of s'] Cons.prems(3) show ?case by simp
qed

lemma fail_pending_splice:
  assumes b: "board s A" and ne: "A i Req \<noteq> []"
  shows "\<exists>tms rs. fail_pending now err i s = Some (rbind (splice i (s\<lparr>reqs := rs\<rparr>)) (\<lambda>s'. Inr (tms, s')))
    \<and> length tms = length (A i Req) \<and> board (s\<lparr>reqs := rs\<rparr>) A"
proof -
  obtain L where L: "lists_ok s L" "A = (\<lambda>i d. contents s (L i d))" using b by (auto simp: board_def)
  note D = lists_okD(1) [OF L(1), of i Req]
  have p: "path (nodes s) (lhead s i Req) (L i Req) None" using D by (simp add: dlist_def)
  have "\<forall>p n. p \<in> set (L i Req) \<longrightarrow> nodes s p = Some n \<longrightarrow> has_req s (sleepCtx n)"
  proof (intro allI impI)
    fix q n assume "q \<in> set (L i Req)" "nodes s q = Some n"
    then have "(msgid n, sleepCtx n) \<in> set (A i Req)"
      unfolding L(2) contents_def by (force simp: node_data_Some)
    with b show "has_req s (sleepCtx n)" unfolding board_def has_req_def by force
  qed
  from mark_loop_path [OF p this, of now err "[]"] obtain tms rs where m:
      "mark_loop now err (lhead s i Req) [] s = Some (Inr (tms, s\<lparr>reqs := rs\<rparr>))"
      "\<forall>c. has_req (s\<lparr>reqs := rs\<rparr>) c = has_req s c" "length tms = length (L i Req)"
    by auto
  have "L i Req \<noteq> []" using ne L(2) by auto
  then have "lhead s i Req \<noteq> None" using dlist_start [OF D] by simp
  moreover have "board (s\<lparr>reqs := rs\<rparr>) A"
  proof (rule boardI)
    show "lists_ok (s\<lparr>reqs := rs\<rparr>) L" using L(1) by (simp add: lists_ok_def)
    show "A = (\<lambda>i d. contents (s\<lparr>reqs := rs\<rparr>) (L i d))" by (simp add: L(2) contents_def)
    show "\<And>i m c. (m, c) \<in> set (A i Req) \<Longrightarrow> \<exists>x. get_req (s\<lparr>reqs := rs\<rparr>) c = Inr x"
      using m(2) b unfolding board_def has_req_def by blast
  qed
  ultimately show ?thesis using m(1,3) by (auto simp: fail_pending_def L(2) contents_def)
qed

text \<open>Without waiting responses the pending requests become the responses.\<close>

lemma splice_empty_resp:
  assumes b: "board s A" and "A i Resp = []"
  shows "\<exists>s'. splice i s = Inr s' \<and> board s' (upd_list i Resp (A i Req) (upd_list i Req [] A))"
proof -
  obtain L where L: "lists_ok s L" "A = (\<lambda>i d. contents s (L i d))" using b by (auto simp: board_def)
  have e: "L i Resp = []" using assms(2) by (simp add: L(2) contents_def)
  then have "lhead s i Resp = None" using dlist_start [OF lists_okD(1) [OF L(1), of i Resp]] by simp
  then have "splice i s = Inr (set_head i Req None (set_head i Resp (lhead s i Req) s))" (is "_ = Inr ?s")
    by (simp add: splice_def)
  moreover have "board ?s (upd_list i Resp (A i Req) (upd_list i Req [] A))"
  proof (rule boardI)
    show "lists_ok ?s (upd_list i Resp (L i Req) (upd_list i Req [] L))"
    proof (unfold lists_ok_def, intro conjI allI impI)
      show "dlist (nodes ?s) (lhead ?s a d) (upd_list i Resp (L i Req) (upd_list i Req [] L) a d)" for a d
        using lists_okD(1) [OF L(1)] by auto
      show "set (upd_list i Resp (L i Req) (upd_list i Req [] L) a d) \<inter> set (upd_list i Resp (L i Req) (upd_list i Req [] L) b e) = {}"
        if "(a, d) \<noteq> (b, e)" for a d b e
        using lists_okD(2) [OF L(1), of a d b e] lists_okD(2) [OF L(1), of i Req b e] lists_okD(2) [OF L(1), of i Req a d] that
        by (simp add: Int_commute) blast
    qed
    show "upd_list i Resp (A i Req) (upd_list i Req [] A) = (\<lambda>j e. contents ?s (upd_list i Resp (L i Req) (upd_list i Req [] L) j e))"
      by (auto simp: fun_eq_iff L(2) contents_def)
    fix j m c assume "(m, c) \<in> set (upd_list i Resp (A i Req) (upd_list i Req [] A) j Req)"
    then have "\<exists>x. get_req s c = Inr x" using b by (auto simp: board_def split: if_splits)
    then show "\<exists>x. get_req ?s c = Inr x" using get_req_cong [of ?s s c] by simp
  qed
  ultimately show ?thesis by blast
qed

subsection \<open>Sequences of operations\<close>

text \<open>
  The contract of a data structure with an abstract view: each step of the concrete side is the
  step of the specification on the abstract side. Its client lemma is the simulation of runs.
\<close>

fun run_steps :: "('e \<Rightarrow> 's \<Rightarrow> 's \<Rightarrow> bool) \<Rightarrow> 'e list \<Rightarrow> 's \<Rightarrow> 's \<Rightarrow> bool" where
  "run_steps step [] s t \<longleftrightarrow> s = t"
| "run_steps step (e # es) s t \<longleftrightarrow> (\<exists>u. step e s u \<and> run_steps step es u t)"

locale simulation =
  fixes rel :: "'s \<Rightarrow> 'a \<Rightarrow> bool"
    and step :: "'e \<Rightarrow> 's \<Rightarrow> 's \<Rightarrow> bool"
    and spec :: "'e \<Rightarrow> 'a \<Rightarrow> 'a"
  assumes sim: "rel s a \<Longrightarrow> step e s s' \<Longrightarrow> rel s' (spec e a)"
begin

lemma run_sim: "rel s a \<Longrightarrow> run_steps step es s t \<Longrightarrow> rel t (fold spec es a)"
  by (induction es arbitrary: s a) (auto dest: sim)

end

text \<open>
  What the threads do to the lists of all connections: send a request, receive an answer, take the
  first response. The second part of the state is the
  sequence of the contexts taken so far, each with its connection.
\<close>

datatype board_event = Sent nat int nat | Answered nat int | Taken nat

definition board_step :: "board_event \<Rightarrow> lstate \<times> (nat \<times> nat) list \<Rightarrow> lstate \<times> (nat \<times> nat) list \<Rightarrow> bool" where
  "board_step e x y =
     (case (x, y) of ((s, ts), (s', ts')) \<Rightarrow>
       (case e of
          Sent i m c \<Rightarrow> ts' = ts \<and> has_req s c \<and> (\<exists>p junk. nodes s p = None \<and> insert_Request 0 (Some p) junk i m c s = Inr (0, s'))
        | Answered i m \<Rightarrow> ts' = ts \<and> (\<exists>now msg rc r. getAndMove_RequestToResponse 0 now i m msg rc s = Some (Inr (r, s')))
        | Taken i \<Rightarrow> (\<exists>r. getAndRemove_firstResponse 0 i s = Inr (r, s') \<and> ts' = (case r of None \<Rightarrow> ts | Some c \<Rightarrow> ts @ [(i, c)]))))"

fun board_spec :: "board_event \<Rightarrow> board \<times> (nat \<times> nat) list \<Rightarrow> board \<times> (nat \<times> nat) list" where
  "board_spec (Sent i m c) (A, ts) = (a_insert i m c A, ts)"
| "board_spec (Answered i m) (A, ts) = (snd (a_move i m A), ts)"
| "board_spec (Taken i) (A, ts) = (snd (a_take i A), ts @ (case fst (a_take i A) of None \<Rightarrow> [] | Some c \<Rightarrow> [(i, c)]))"

definition board_rel :: "lstate \<times> (nat \<times> nat) list \<Rightarrow> board \<times> (nat \<times> nat) list \<Rightarrow> bool" where
  "board_rel x a \<longleftrightarrow> board (fst x) (fst a) \<and> snd x = snd a"

interpretation lists: simulation board_rel board_step board_spec
proof
  fix x a e y assume r: "board_rel x a" and st: "board_step e x y"
  obtain s ts s' ts' A where eq: "x = (s, ts)" "y = (s', ts')" "a = (A, ts)" "board s A"
    using r by (cases x, cases y, cases a) (auto simp: board_rel_def)
  show "board_rel y (board_spec e a)"
  proof (cases e)
    case (Sent i m c)
    with st eq obtain p junk where "ts' = ts" "has_req s c" "nodes s p = None"
        "insert_Request 0 (Some p) junk i m c s = Inr (0, s')" by (auto simp: board_step_def)
    with insert_Request_board [OF eq(4), of p c _ 0 junk i m] eq Sent show ?thesis
      by (auto simp: board_rel_def has_req_def)
  next
    case (Answered i m)
    with st eq obtain now msg rc r where "ts' = ts" "getAndMove_RequestToResponse 0 now i m msg rc s = Some (Inr (r, s'))"
      by (auto simp: board_step_def)
    with getAndMove_board [OF eq(4), of 0 now i m msg rc] eq Answered show ?thesis by (auto simp: board_rel_def)
  next
    case (Taken i)
    with st eq obtain r where "getAndRemove_firstResponse 0 i s = Inr (r, s')"
        "ts' = (case r of None \<Rightarrow> ts | Some c \<Rightarrow> ts @ [(i, c)])" by (auto simp: board_step_def)
    with firstResponse_board [OF eq(4), of 0 i] eq Taken show ?thesis
      by (auto simp: board_rel_def split: option.splits)
  qed
qed

text \<open>No context is lost or duplicated on the abstract side.\<close>

definition sent_ctx :: "nat \<Rightarrow> board_event list \<Rightarrow> nat multiset" where
  "sent_ctx i es = mset (concat (map (\<lambda>e. case e of Sent j m c \<Rightarrow> if j = i then [c] else [] | _ \<Rightarrow> []) es))"

definition ctx_of :: "board \<Rightarrow> nat \<Rightarrow> side \<Rightarrow> nat multiset" where
  "ctx_of A i d = image_mset snd (mset (A i d))"

definition taken_ctx :: "nat \<Rightarrow> (nat \<times> nat) list \<Rightarrow> nat multiset" where
  "taken_ctx i ts = image_mset snd (filter_mset (\<lambda>x. fst x = i) (mset ts))"

lemma board_spec_conserves:
  assumes "board_spec e (A, ts) = (A', ts')"
  shows "sent_ctx i [e] + ctx_of A i Req + ctx_of A i Resp + taken_ctx i ts = ctx_of A' i Req + ctx_of A' i Resp + taken_ctx i ts'"
proof (cases e)
  case (Sent j m c)
  with assms show ?thesis by (auto simp: sent_ctx_def ctx_of_def a_insert_def)
next
  case (Answered j m)
  show ?thesis
  proof (cases "List.extract (\<lambda>x. fst x = m) (A j Req)")
    case None
    with Answered assms show ?thesis by (simp add: sent_ctx_def a_move_def)
  next
    case (Some t)
    obtain xs x ys where t: "t = (xs, x, ys)" by (cases t)
    with Some have "A j Req = xs @ x # ys" by (simp add: extract_Some_iff)
    with Some t Answered assms show ?thesis by (auto simp: sent_ctx_def ctx_of_def a_move_def)
  qed
next
  case (Taken j)
  with assms show ?thesis
    by (cases "A j Resp") (auto simp: sent_ctx_def ctx_of_def a_take_def taken_ctx_def)
qed

lemma board_run_conserves:
  assumes "fold board_spec es (A, ts) = (A', ts')"
  shows "sent_ctx i es + ctx_of A i Req + ctx_of A i Resp + taken_ctx i ts = ctx_of A' i Req + ctx_of A' i Resp + taken_ctx i ts'"
  using assms
proof (induction es arbitrary: A ts)
  case Nil
  then show ?case by (simp add: sent_ctx_def)
next
  case (Cons e es)
  obtain B us where e: "board_spec e (A, ts) = (B, us)" by (cases "board_spec e (A, ts)")
  have "sent_ctx i (e # es) = sent_ctx i [e] + sent_ctx i es" by (simp add: sent_ctx_def)
  with Cons.IH [of B us] Cons.prems e board_spec_conserves [OF e, of i] show ?case by (simp add: ac_simps)
qed

subsection \<open>Properties\<close>

text \<open>
  C2. The linked lists implement the abstract lists. On every heap that represents two lists for
  each connection: inserting a request appends it, an answer moves the first request with its message
  id to the end of the responses and returns its context, and taking a response removes the first one;
  none of them faults or loops, and the new heap represents the new lists.
\<close>

theorem ldap_lists_refine:
  assumes "board s A" "v < 3"
  shows "(nodes s p = None \<and> has_req s c \<longrightarrow>
      (\<exists>s'. insert_Request v (Some p) junk i m c s = Inr (0, s') \<and> board s' (a_insert i m c A)))
    \<and> (\<exists>tm s'. getAndMove_RequestToResponse v now i m msg rc s
       = Some (Inr (map_option (\<lambda>c. (c, tm)) (fst (a_move i m A)), s')) \<and> board s' (snd (a_move i m A)))
    \<and> (\<exists>s'. getAndRemove_firstResponse v i s = Inr (fst (a_take i A), s') \<and> board s' (snd (a_take i A)))"
proof (intro conjI impI)
  assume "nodes s p = None \<and> has_req s c"
  then show "\<exists>s'. insert_Request v (Some p) junk i m c s = Inr (0, s') \<and> board s' (a_insert i m c A)"
    using insert_Request_board [OF assms(1), of p c _ v junk i m] assms(2) unfolding has_req_def by blast
qed (rule getAndMove_board [OF assms] firstResponse_board [OF assms])+

definition req7 :: tLdapReqCtx where
  "req7 = \<lparr>rq_attrs = [], rq_cmds = [], ctrls = None, res = None, ctx_rc = 0, ctx_time = (5, 0)\<rparr>"

definition lstate0 :: lstate where
  "lstate0 = \<lparr>nodes = Map.empty, ldTab = (\<lambda>_. \<lparr>ld = Some 1, ldReq = None, ldResp = None, serverHost = None, serverPort = 0, KeyThead = 0, rebind = 0\<rparr>),
     sleeps = [7 \<mapsto> \<lparr>sl_req = Some 70, sl_user = None, sl_sce = 0, sl_action = 0\<rparr>], reqs = [70 \<mapsto> req7]\<rparr>"

lemma board_lstate0: "board lstate0 (\<lambda>_ _. [])"
proof (rule boardI)
  show "lists_ok lstate0 (\<lambda>_ _. [])" by (simp add: lists_ok_def lstate0_def lhead_def split: side.splits)
qed simp_all

lemma has_req7: "has_req lstate0 7"
  by (simp add: has_req_def get_req_def lstate0_def)

definition node0 :: tLdapList where
  "node0 = \<lparr>next_ptr = Some 99, last_ptr = Some 98, msgid = 0, sleepCtx = 0\<rparr>"

theorem ldap_lists_refine_witness:
  "\<exists>s'. insert_Request 0 (Some 4) node0 0 11 7 lstate0 = Inr (0, s') \<and> board s' (a_insert 0 11 7 (\<lambda>_ _. []))"
proof -
  have "nodes lstate0 4 = None \<and> has_req lstate0 7" using has_req7 by (simp add: lstate0_def)
  with ldap_lists_refine [OF board_lstate0, of 0 4 7 node0 0 11] show ?thesis by simp
qed

text \<open>
  C3. No request is lost and none is answered twice. After any sequence of sending, answering and
  taking on any connections, the contexts sent on a connection are exactly those that still wait for an
  answer, those whose answer waits to be taken and those that were taken.
\<close>

theorem requests_conserved:
  assumes "board s0 (\<lambda>_ _. [])" "run_steps board_step es (s0, []) (s, ts)"
  shows "\<exists>A. board s A \<and> sent_ctx i es = ctx_of A i Req + ctx_of A i Resp + taken_ctx i ts"
proof -
  obtain A us where f: "fold board_spec es (\<lambda>_ _. [], []) = (A, us)" by (cases "fold board_spec es (\<lambda>_ _. [], [])")
  have "board_rel (s0, []) (\<lambda>_ _. [], [])" using assms(1) by (simp add: board_rel_def)
  from lists.run_sim [OF this assms(2)] have "board s A" "ts = us" by (simp_all add: f board_rel_def)
  with board_run_conserves [OF f, of i] show ?thesis by (auto simp: ctx_of_def taken_ctx_def)
qed

theorem requests_conserved_witness:
  "\<exists>s ts. run_steps board_step [Sent 0 11 7, Answered 0 11, Taken 0] (lstate0, []) (s, ts)
     \<and> (\<exists>A. board s A \<and> {#7#} = ctx_of A 0 Req + ctx_of A 0 Resp + taken_ctx 0 ts)"
proof -
  obtain s1 where s1: "insert_Request 0 (Some 4) node0 0 11 7 lstate0 = Inr (0, s1)" "board s1 (a_insert 0 11 7 (\<lambda>_ _. []))"
    using insert_Request_board [OF board_lstate0, of 4 7 _ 0 node0 0 11] has_req7 by (auto simp: has_req_def lstate0_def)
  obtain r s2 where s2: "getAndMove_RequestToResponse 0 (6, 0) 0 11 None 0 s1 = Some (Inr (r, s2))"
      "board s2 (snd (a_move 0 11 (a_insert 0 11 7 (\<lambda>_ _. []))))"
    using getAndMove_board [OF s1(2), of 0 "(6, 0)" 0 11 None 0] by auto
  obtain r3 s3 where s3: "getAndRemove_firstResponse 0 0 s2 = Inr (r3, s3)"
    using firstResponse_board [OF s2(2), of 0 0] by auto
  have "board_step (Sent 0 11 7) (lstate0, []) (s1, [])"
    using s1(1) has_req7 by (auto simp: board_step_def intro!: exI [of _ 4] simp: lstate0_def)
  moreover have "board_step (Answered 0 11) (s1, []) (s2, [])"
    using s2(1) by (auto simp: board_step_def simp del: split_paired_Ex)
  moreover have "board_step (Taken 0) (s2, []) (s3, case r3 of None \<Rightarrow> [] | Some c \<Rightarrow> [] @ [(0, c)])"
    using s3 by (auto simp: board_step_def)
  ultimately have run: "run_steps board_step [Sent 0 11 7, Answered 0 11, Taken 0] (lstate0, [])
      (s3, case r3 of None \<Rightarrow> [] | Some c \<Rightarrow> [] @ [(0, c)])" (is "run_steps _ _ _ (s3, ?ts)") by fastforce
  moreover have "\<exists>A. board s3 A \<and> {#7#} = ctx_of A 0 Req + ctx_of A 0 Resp + taken_ctx 0 ?ts"
    using requests_conserved [OF board_lstate0 run, of 0] by (simp add: sent_ctx_def)
  ultimately show ?thesis by blast
qed

text \<open>
  C33. A connection error while responses are waiting corrupts the lists. The requests are chained
  behind the responses but stay in the request list; once the first of them has been taken as a
  response, and freed, every answer that arrives on the connection reads freed memory.
\<close>

theorem error_leaves_dangling_requests:
  assumes "board s A" "A i Req \<noteq> []" "A i Resp \<noteq> []" "v < 3"
  shows "\<exists>tms s1 s2. fail_pending now err i s = Some (Inr (tms, s1))
    \<and> take_responses v i (Suc (length (A i Resp))) s1 = Inr s2
    \<and> (\<forall>m. getAndMove_RequestToResponse v now i m msg rc s2 = Some (Inl UseAfterFree))"
proof -
  obtain tms rs where f: "fail_pending now err i s = Some (rbind (splice i (s\<lparr>reqs := rs\<rparr>)) (\<lambda>s'. Inr (tms, s')))"
      "board (s\<lparr>reqs := rs\<rparr>) A" using fail_pending_splice [OF assms(1,2)] by blast
  let ?s = "s\<lparr>reqs := rs\<rparr>"
  obtain L where L: "lists_ok ?s L" "A = (\<lambda>i d. contents ?s (L i d))" using f(2) by (auto simp: board_def)
  obtain xs l where xs: "L i Resp = xs @ [l]" using assms(3) by (cases "L i Resp" rule: rev_cases) (auto simp: L(2))
  obtain y ys where ys: "L i Req = y # ys" using assms(2) by (cases "L i Req") (auto simp: L(2))
  from splice_both [of ?s i xs l y ys] lists_okD(1) [OF L(1), of i Resp] lists_okD(1) [OF L(1), of i Req]
    lists_okD(2) [OF L(1), of i Resp i Req] xs ys
  obtain s1 where s1: "splice i ?s = Inr s1" "dlist (nodes s1) (lhead s1 i Resp) ((xs @ [l]) @ y # ys)" "lhead s1 i Req = Some y"
    by auto
  obtain s2 where s2: "take_responses v i (Suc (length (xs @ [l]))) s1 = Inr s2" "lhead s2 i Req = Some y" "nodes s2 y = None"
    using take_responses_free [OF s1(2,3) assms(4)] by blast
  have "length (A i Resp) = length (xs @ [l])" by (simp add: L(2) xs contents_def)
  moreover have "getAndMove_RequestToResponse v now i m msg rc s2 = Some (Inl UseAfterFree)" for m
    using s2(2,3) by (simp add: getAndMove_RequestToResponse_def find_node_step get_node_def)
  ultimately show ?thesis using f(1) s1(1) s2(1) by (intro exI [of _ tms] exI [of _ s1] exI [of _ s2]) simp
qed

lemma board_two:
  "\<exists>s A. board s A \<and> A 0 Req = [(12, 7)] \<and> A 0 Resp = [(11, 7)]"
proof -
  obtain s1 where s1: "insert_Request 0 (Some 4) node0 0 11 7 lstate0 = Inr (0, s1)" "board s1 (a_insert 0 11 7 (\<lambda>_ _. []))"
    using insert_Request_board [OF board_lstate0, of 4 7 _ 0 node0 0 11] has_req7 by (auto simp: has_req_def lstate0_def)
  have "nodes s1 5 = None" "get_req s1 7 = Inr (70, req7)"
    using s1(1) by (auto simp: insert_Request_def chain_end_def set_last_def get_node_def get_req_def lstate0_def lhead_def set_head_def Let_def)
  from insert_Request_board [OF s1(2) this, of 0 node0 0 12] obtain s2 where
    s2: "board s2 (a_insert 0 12 7 (a_insert 0 11 7 (\<lambda>_ _. [])))" by auto
  let ?A = "snd (a_move 0 11 (a_insert 0 12 7 (a_insert 0 11 7 (\<lambda>_ _. []))))"
  obtain s3 where "board s3 ?A" using getAndMove_board [OF s2, of 0 "(6, 0)" 0 11 None 0] by auto
  moreover have "?A 0 Req = [(12, 7)]" "?A 0 Resp = [(11, 7)]"
    by (simp_all add: a_move_def a_insert_def extract_Cons_code)
  ultimately show ?thesis by blast
qed

theorem error_leaves_dangling_requests_witness:
  "\<exists>s A tms s1 s2. board s A \<and> fail_pending (6, 0) 81 0 s = Some (Inr (tms, s1)) \<and> take_responses 0 0 2 s1 = Inr s2
     \<and> getAndMove_RequestToResponse 0 (6, 0) 0 13 None 0 s2 = Some (Inl UseAfterFree)"
proof -
  obtain s A where A: "board s A" "A 0 Req = [(12, 7)]" "A 0 Resp = [(11, 7)]" using board_two by blast
  from error_leaves_dangling_requests [OF A(1), of 0 0 "(6, 0)" 81 None 0] A show ?thesis
    by (auto simp: numeral_2_eq_2)
qed

end
