(* ===== verification/Tgen_LdapConn.thy ===== *)
theory Tgen_LdapConn
  imports Tgen_LdapLists Tgen_Stat
begin

section \<open>LDAP connections (Src/tldap.c)\<close>

text \<open>
  Opening, closing and re-opening the connections of the table \<^verbatim>\<open>tLdapLdTab\<close>. The state has the
  table with its size, the mutexes, the server that is next in turn and the counters. What the LDAP
  library answers is a record of outcomes. A result \<^term>\<open>None\<close> means that the call does not return,
  because it waits for a mutex that is held, or because the answers given are used up. The messages
  to the log are left out.
\<close>

subsection \<open>State\<close>

record conn_conf =
  tcWThreadNb :: nat
  tcLdapBindNb :: nat
  nbserver :: nat
  tcServerPort :: "nat \<Rightarrow> int"
  tcSecuredMode :: bool
  quietOnError :: bool
  tcNoMattedPair :: bool
  tcLdapSessionPolicy :: int

definition LDAP_SES_POLICY_GLOBAL :: int where "LDAP_SES_POLICY_GLOBAL = 1"
definition LDAP_SES_POLICY_LOCAL_SCE :: int where "LDAP_SES_POLICY_LOCAL_SCE = 2"
definition LDAP_SES_POLICY_LOCAL_THR :: int where "LDAP_SES_POLICY_LOCAL_THR = 3"

definition LDAP_SERVER_DOWN :: int where "LDAP_SERVER_DOWN = -1"
definition LDAP_LOCAL_ERROR :: int where "LDAP_LOCAL_ERROR = -2"
definition LDAP_TIMEOUT :: int where "LDAP_TIMEOUT = -5"

text \<open>
  A mutex of the table is recursive and has an owner and a depth; \<^verbatim>\<open>bindMutex\<close> and \<^verbatim>\<open>abandonMutex\<close> are
  not recursive. A server is its index in \<^verbatim>\<open>tcServerHost\<close>.
\<close>

record conn =
  c_lists :: lstate
  c_size :: nat
  tcActiveServerId :: nat
  bindMutex :: bool
  abandonMutex :: bool
  ldMutex :: "nat \<Rightarrow> (nat \<times> nat) option"
  c_stat :: tstat
  srvDown :: bool
  sigurg :: nat

text \<open>What the library answers to the calls of one bind.\<close>

record bind_io =
  io_init :: int
  io_ld :: "nat option"
  io_version :: bool
  io_ctrl :: bool
  io_bind :: int
  io_unbind :: int

subsection \<open>The table and its mutexes\<close>

definition tLdap_getLdId :: "conn_conf \<Rightarrow> nat \<Rightarrow> nat result" where
  "tLdap_getLdId cf key =
     (if key < WORKTHR then Inr key
      else if tcLdapBindNb cf = 0 then Inl DivByZero else Inr ((key - WORKTHR) mod tcLdapBindNb cf))"

definition ld_entry :: "conn \<Rightarrow> nat \<Rightarrow> tLdapLd result" where
  "ld_entry c i = (if i < c_size c then Inr (ldTab (c_lists c) i) else Inl OutOfBounds)"

definition put_entry :: "nat \<Rightarrow> tLdapLd \<Rightarrow> conn \<Rightarrow> conn" where
  "put_entry i e c = c\<lparr>c_lists := (c_lists c)\<lparr>ldTab := (ldTab (c_lists c))(i := e)\<rparr>\<rparr>"

definition set_ld :: "nat \<Rightarrow> nat option \<Rightarrow> conn \<Rightarrow> conn result" where
  "set_ld i v c = rbind (ld_entry c i) (\<lambda>e. Inr (put_entry i (e\<lparr>ld := v\<rparr>) c))"

definition tLdap_getLd :: "conn_conf \<Rightarrow> nat \<Rightarrow> conn \<Rightarrow> nat option result" where
  "tLdap_getLd cf key c = rbind (tLdap_getLdId cf key) (\<lambda>i. rbind (ld_entry c i) (\<lambda>e. Inr (ld e)))"

definition lock_ld :: "conn_conf \<Rightarrow> nat \<Rightarrow> conn \<Rightarrow> conn result option" where
  "lock_ld cf key c =
     rseq (Some (tLdap_getLdId cf key)) (\<lambda>i. rseq (Some (ld_entry c i)) (\<lambda>_.
       case ldMutex c i of
         None \<Rightarrow> Some (Inr (c\<lparr>ldMutex := (ldMutex c)(i \<mapsto> (key, 1))\<rparr>))
       | Some (own, n) \<Rightarrow> if own = key then Some (Inr (c\<lparr>ldMutex := (ldMutex c)(i \<mapsto> (key, Suc n))\<rparr>)) else None))"

definition unlock_ld :: "conn_conf \<Rightarrow> nat \<Rightarrow> conn \<Rightarrow> conn result" where
  "unlock_ld cf key c =
     rbind (tLdap_getLdId cf key) (\<lambda>i. rbind (ld_entry c i) (\<lambda>_.
       case ldMutex c i of
         None \<Rightarrow> Inr c
       | Some (own, n) \<Rightarrow>
           if own \<noteq> key then Inr c
           else Inr (c\<lparr>ldMutex := (ldMutex c)(i := (if n \<le> 1 then None else Some (key, n - 1)))\<rparr>)))"

subsection \<open>Bind and unbind\<close>

text \<open>
  The part of \<^verbatim>\<open>simpleBindRequest\<close> up to the options; \<^term>\<open>False\<close> stands for the early returns. The two
  arrays of servers have 200 elements.
\<close>

definition open_ld :: "conn_conf \<Rightarrow> bind_io \<Rightarrow> bool \<Rightarrow> nat \<Rightarrow> conn \<Rightarrow> (bool \<times> conn) result" where
  "open_ld cf io sctrl cell c =
     guard (tcActiveServerId c < 200) OutOfBounds
      (if tcSecuredMode cf \<and> io_init io \<noteq> 0 then Inr (False, c)
       else rbind (set_ld cell (io_ld io) c) (\<lambda>c1.
         if \<not> tcSecuredMode cf \<and> io_ld io = None then Inr (False, c1)
         else if \<not> io_version io then Inr (False, c1)
         else if sctrl \<and> \<not> io_ctrl io then Inr (False, c1)
         else Inr (True, c1)))"

text \<open>\<^verbatim>\<open>ldap_simple_bind_s\<close>, and the release of the connection when it fails with a positive code.\<close>

definition bind_ld :: "conn_conf \<Rightarrow> bind_io \<Rightarrow> nat \<Rightarrow> conn \<Rightarrow> (int \<times> conn) result" where
  "bind_ld cf io cell c =
     rbind (ld_entry c cell) (\<lambda>e.
       if io_bind io > 0 \<and> \<not> quietOnError cf \<and> ld e \<noteq> None
       then Inr (1, put_entry cell (e\<lparr>ld := None\<rparr>) c) else Inr (io_bind io, c))"

text \<open>The loop that notes the server in every entry with the same connection as the calling thread.\<close>

fun note_server :: "conn_conf \<Rightarrow> nat \<Rightarrow> nat list \<Rightarrow> conn \<Rightarrow> conn result" where
  "note_server cf key [] c = Inr c"
| "note_server cf key (i # is) c =
     rbind (ld_entry c i) (\<lambda>e. rbind (tLdap_getLd cf key c) (\<lambda>l.
       note_server cf key is
         (if ld e = l
          then put_entry i (e\<lparr>serverHost := Some (tcActiveServerId c), serverPort := tcServerPort cf (tcActiveServerId c),
                              KeyThead := int key, rebind := 0\<rparr>) c
          else c)))"

definition next_server :: "conn_conf \<Rightarrow> conn \<Rightarrow> conn result" where
  "next_server cf c = (if nbserver cf = 0 then Inl DivByZero
     else Inr (c\<lparr>tcActiveServerId := (tcActiveServerId c + 1) mod nbserver cf\<rparr>))"

definition simpleBindRequest :: "conn_conf \<Rightarrow> bind_io \<Rightarrow> nat \<Rightarrow> nat \<Rightarrow> bool \<Rightarrow> bool \<Rightarrow> conn \<Rightarrow> (int \<times> conn) result option" where
  "simpleBindRequest cf io key cell dolock sctrl c =
     rseq (if dolock then lock_ld cf key c else Some (Inr c)) (\<lambda>c1.
       if bindMutex c1 then None
       else rseq (Some (open_ld cf io sctrl cell (c1\<lparr>bindMutex := True\<rparr>))) (\<lambda>(ok, c2).
         if \<not> ok then Some (Inr (1, c2))
         else Some (rbind (bind_ld cf io cell c2) (\<lambda>(rc, c3).
           rbind (note_server cf key [0..<tcWThreadNb cf] c3) (\<lambda>c4.
           rbind (next_server cf c4) (\<lambda>c5.
           rbind (if dolock then unlock_ld cf key (c5\<lparr>bindMutex := False\<rparr>) else Inr (c5\<lparr>bindMutex := False\<rparr>)) (\<lambda>c6.
           Inr (rc, c6))))))))"

definition unbindRequest :: "conn_conf \<Rightarrow> bind_io \<Rightarrow> nat \<Rightarrow> nat \<Rightarrow> bool \<Rightarrow> conn \<Rightarrow> (int \<times> conn) result option" where
  "unbindRequest cf io key cell dolock c =
     rseq (if dolock then lock_ld cf key c else Some (Inr c)) (\<lambda>c1.
       Some (rbind (ld_entry c1 cell) (\<lambda>e.
         let (rc, c2) = (if ld e \<noteq> None then (io_unbind io, put_entry cell (e\<lparr>ld := None\<rparr>) c1) else (0, c1))
         in rbind (if dolock then unlock_ld cf key c2 else Inr c2) (\<lambda>c3. Inr (rc, c3)))))"

text \<open>The requests of a scenario; the second component tells whether the operation was really made.\<close>

definition tLdap_BindRequest :: "conn_conf \<Rightarrow> bind_io \<Rightarrow> nat \<Rightarrow> bool \<Rightarrow> conn \<Rightarrow> (int \<times> bool \<times> conn) result option" where
  "tLdap_BindRequest cf io key sctrl c =
     rseq (Some (tLdap_getLdId cf key)) (\<lambda>i. rseq (Some (ld_entry c i)) (\<lambda>e.
       if ld e = None then rseq (simpleBindRequest cf io key i True sctrl c) (\<lambda>(rc, c'). Some (Inr (rc, True, c')))
       else Some (Inr (0, False, c))))"

definition tLdap_UnbindRequest :: "conn_conf \<Rightarrow> bind_io \<Rightarrow> nat \<Rightarrow> conn \<Rightarrow> (int \<times> bool \<times> conn) result option" where
  "tLdap_UnbindRequest cf io key c =
     (if tcLdapSessionPolicy cf = LDAP_SES_POLICY_LOCAL_SCE
      then rseq (Some (tLdap_getLdId cf key)) (\<lambda>i.
             rseq (unbindRequest cf io key i True c) (\<lambda>(rc, c'). Some (Inr (rc, True, c'))))
      else Some (Inr (0, False, c)))"

subsection \<open>Errors and re-opening\<close>

definition tLdap_abandon :: "conn_conf \<Rightarrow> bind_io \<Rightarrow> bool \<Rightarrow> nat \<Rightarrow> nat \<Rightarrow> bool \<Rightarrow> conn \<Rightarrow> conn result option" where
  "tLdap_abandon cf io kill_ok key cell dolock c =
     (if abandonMutex c then None
      else rseq (unbindRequest cf io key cell dolock (c\<lparr>abandonMutex := True, c_stat := snd (tStatIncrStationDown (c_stat c))\<rparr>)) (\<lambda>(_, c1).
        if srvDown c1 then Some (Inr (c1\<lparr>abandonMutex := False\<rparr>))
        else rseq (simpleBindRequest cf io key cell dolock False c1) (\<lambda>(rc, c2).
          if rc = 0 then Some (Inr (c2\<lparr>abandonMutex := False\<rparr>))
          else if kill_ok then Some (Inr (c2\<lparr>sigurg := Suc (sigurg c2), abandonMutex := False\<rparr>))
          else Some (Inl (Exit 1)))))"

text \<open>The last entry that is noted for the thread.\<close>

fun find_key :: "nat \<Rightarrow> nat list \<Rightarrow> nat option \<Rightarrow> conn \<Rightarrow> nat option result" where
  "find_key key [] found c = Inr found"
| "find_key key (i # is) found c =
     rbind (ld_entry c i) (\<lambda>e. find_key key is (if KeyThead e = int key then Some i else found) c)"

definition set_rebind :: "nat \<Rightarrow> int \<Rightarrow> conn \<Rightarrow> conn result" where
  "set_rebind i v c = rbind (ld_entry c i) (\<lambda>e. Inr (put_entry i (e\<lparr>rebind := v\<rparr>) c))"

text \<open>
  The loop of \<^verbatim>\<open>tLdap_Rebind\<close>; \<open>rc\<close> is indeterminate at the first test. \<^term>\<open>False\<close> is an early return, with
  the mutex of the connection still locked.
\<close>

fun rebind_loop :: "conn_conf \<Rightarrow> nat \<Rightarrow> int \<Rightarrow> bind_io list \<Rightarrow> conn \<Rightarrow> (bool \<times> conn) result option" where
  "rebind_loop cf cell rc [] c = (if rc = 0 then Some (Inr (True, c)) else None)"
| "rebind_loop cf cell rc (io # ios) c =
     (if rc = 0 then Some (Inr (True, c))
      else rseq (Some (rbind (set_rebind (tcWThreadNb cf) 1 c) (set_ld cell (io_ld io)))) (\<lambda>c1.
        if io_ld io = None \<or> \<not> io_version io then Some (Inr (False, c1))
        else rseq (Some (bind_ld cf io cell c1)) (\<lambda>(rc', c2). rebind_loop cf cell rc' ios c2)))"

definition tLdap_Rebind :: "conn_conf \<Rightarrow> int \<Rightarrow> bind_io list \<Rightarrow> nat \<Rightarrow> nat \<Rightarrow> bool \<Rightarrow> bind_io \<Rightarrow> conn \<Rightarrow> (int \<times> conn) result option" where
  "tLdap_Rebind cf rc0 ios key cell dolock io c =
     rseq (if dolock then lock_ld cf key c else Some (Inr c)) (\<lambda>c1.
     rseq (Some (find_key key [0..<tcWThreadNb cf] None c1)) (\<lambda>found.
       case found of
         None \<Rightarrow> Some (Inl Uninit)
       | Some indiceTab \<Rightarrow>
           rseq (unbindRequest cf io key cell dolock (c1\<lparr>c_stat := snd (tStatIncrStationDown (c_stat c1))\<rparr>)) (\<lambda>(_, c2).
           rseq (Some (ld_entry c2 indiceTab)) (\<lambda>e.
             if rebind e = 0
             then rseq (rebind_loop cf cell rc0 ios c2) (\<lambda>(done, c3).
                    if \<not> done then Some (Inr (1, c3))
                    else Some (rbind (set_rebind (tcWThreadNb cf) 0 c3) (\<lambda>c4.
                      let c5 = c4\<lparr>c_stat := snd (tStatIncrStationRestart (c_stat c4))\<rparr>
                      in rbind (if dolock then unlock_ld cf key c5 else Inr c5) (\<lambda>c6. Inr (0, c6)))))
             else Some (rbind (if dolock then unlock_ld cf key c2 else Inr c2) (\<lambda>c6. Inr (0, c6)))))))"

text \<open>The counting of one answer or error of a search.\<close>

definition count_search :: "bool \<Rightarrow> int \<Rightarrow> int \<Rightarrow> int \<Rightarrow> conn \<Rightarrow> conn result" where
  "count_search ko retry tm delta c =
     rbind (tStatActionTime LDAP_Search_Rq ko retry tm delta (c_stat c)) (\<lambda>st. Inr (c\<lparr>c_stat := st\<rparr>))"

fun count_searches :: "bool \<Rightarrow> int list \<Rightarrow> int \<Rightarrow> conn \<Rightarrow> conn result" where
  "count_searches ko [] delta c = Inr c"
| "count_searches ko (tm # tms) delta c = rbind (count_search ko 0 tm delta c) (count_searches ko tms delta)"

definition treatError_Ld :: "conn_conf \<Rightarrow> bind_io \<Rightarrow> bool \<Rightarrow> timeval \<Rightarrow> int \<Rightarrow> int \<Rightarrow> nat \<Rightarrow> nat \<Rightarrow> int \<Rightarrow> conn \<Rightarrow> conn result option" where
  "treatError_Ld cf io kill_ok now delta ldapTimeout key ldId myerrno c =
     (if myerrno \<in> {LDAP_SERVER_DOWN, LDAP_LOCAL_ERROR, 5}
      then rseq (tLdap_abandon cf io kill_ok key ldId False c) (\<lambda>c1.
           rseq (Some (ld_entry c1 ldId)) (\<lambda>e.
             if ldReq e = None then Some (Inr c1)
             else rseq (fail_pending now myerrno ldId (c_lists c1)) (\<lambda>(tms, ls).
                    Some (count_searches (myerrno \<noteq> 0) tms delta (c1\<lparr>c_lists := ls\<rparr>)))))
      else if myerrno = LDAP_TIMEOUT then Some (count_search (myerrno \<noteq> 0) 1 (ldapTimeout * 1000000) delta c)
      else Some (count_search (myerrno \<noteq> 0) 0 1000 delta c))"

subsection \<open>Start and end\<close>

definition empty_ld :: tLdapLd where
  "empty_ld = \<lparr>ld = None, ldReq = None, ldResp = None, serverHost = None, serverPort = 0, KeyThead = 0, rebind = 0\<rparr>"

definition alloc_tab :: "conn_conf \<Rightarrow> conn \<Rightarrow> conn" where
  "alloc_tab cf c = c\<lparr>c_size := tcLdapBindNb cf + 1, c_lists := (c_lists c)\<lparr>ldTab := (\<lambda>_. empty_ld)\<rparr>, ldMutex := (\<lambda>_. None)\<rparr>"

text \<open>The binds of the policy of shared connections; their return codes are not looked at.\<close>

fun initial_binds :: "conn_conf \<Rightarrow> (nat \<Rightarrow> bind_io) \<Rightarrow> int \<Rightarrow> nat list \<Rightarrow> conn \<Rightarrow> conn result option" where
  "initial_binds cf ios delta [] c = Some (Inr c)"
| "initial_binds cf ios delta (i # is) c =
     rseq (Some (tLdap_getLdId cf i)) (\<lambda>cell.
     rseq (simpleBindRequest cf (ios i) MAINTHR cell True False c) (\<lambda>(_, c1).
     rseq (Some (tStatActionTime LDAP_Bind_Rq False 0 0 delta (c_stat c1))) (\<lambda>st.
     initial_binds cf ios delta is (c1\<lparr>c_stat := st\<rparr>))))"

definition tLdapInit :: "conn_conf \<Rightarrow> bool \<Rightarrow> (int option) \<Rightarrow> int \<Rightarrow> (nat \<Rightarrow> bind_io) \<Rightarrow> int \<Rightarrow> conn \<Rightarrow> (int \<times> conn) result option" where
  "tLdapInit cf alloc cacert mutexRc ios delta c =
     (if \<not> alloc then Some (Inr (1, c))
      else if tcSecuredMode cf \<and> cacert \<noteq> None \<and> cacert \<noteq> Some 0 then Some (Inl (Exit 1))
      else rseq (if tcLdapSessionPolicy cf = LDAP_SES_POLICY_GLOBAL
                 then initial_binds cf ios delta [0..<tcLdapBindNb cf] (alloc_tab cf c)
                 else Some (Inr (alloc_tab cf c))) (\<lambda>c1. Some (Inr (mutexRc, c1))))"

text \<open>Unbind, and bind again, of the threads or connections that are open.\<close>

fun reopen_loop :: "conn_conf \<Rightarrow> (nat \<Rightarrow> bind_io) \<Rightarrow> nat list \<Rightarrow> conn \<Rightarrow> conn result option" where
  "reopen_loop cf ios [] c = Some (Inr c)"
| "reopen_loop cf ios (i # is) c =
     rseq (Some (tLdap_getLdId cf i)) (\<lambda>cell. rseq (Some (ld_entry c cell)) (\<lambda>e.
       if ld e = None then reopen_loop cf ios is c
       else rseq (unbindRequest cf (ios i) MAINTHR cell True c) (\<lambda>(_, c1).
            rseq (simpleBindRequest cf (ios i) MAINTHR cell True False c1) (\<lambda>(_, c2). reopen_loop cf ios is c2))))"

definition tLdapReinit :: "conn_conf \<Rightarrow> (nat \<Rightarrow> bind_io) \<Rightarrow> conn \<Rightarrow> (int \<times> conn) result option" where
  "tLdapReinit cf ios c =
     (if tcNoMattedPair cf then Some (Inr (0, c))
      else rseq (reopen_loop cf ios
             [WORKTHR..<WORKTHR + (if tcLdapSessionPolicy cf = LDAP_SES_POLICY_GLOBAL then tcLdapBindNb cf else tcWThreadNb cf)] c)
             (\<lambda>c1. Some (Inr (0, c1))))"

fun close_loop_ld :: "conn_conf \<Rightarrow> (nat \<Rightarrow> bind_io) \<Rightarrow> nat list \<Rightarrow> conn \<Rightarrow> conn result option" where
  "close_loop_ld cf ios [] c = Some (Inr c)"
| "close_loop_ld cf ios (i # is) c =
     rseq (Some (tLdap_getLdId cf i)) (\<lambda>cell.
     rseq (unbindRequest cf (ios i) MAINTHR cell True c) (\<lambda>(_, c1). close_loop_ld cf ios is c1))"

definition tLdapClose :: "conn_conf \<Rightarrow> (nat \<Rightarrow> bind_io) \<Rightarrow> conn \<Rightarrow> (int \<times> conn) result option" where
  "tLdapClose cf ios c =
     rseq (close_loop_ld cf ios ([WORKTHR..<WORKTHR + tcWThreadNb cf] @ [tcLdapBindNb cf]) c) (\<lambda>c1. Some (Inr (0, c1)))"

subsection \<open>Lemmas\<close>

lemma ld_entry_put [simp]: "ld_entry (put_entry i e c) j = (if j < c_size c then Inr (if j = i then e else ldTab (c_lists c) j) else Inl OutOfBounds)"
  by (simp add: ld_entry_def put_entry_def)

lemma put_entry_sel [simp]:
  "c_size (put_entry i e c) = c_size c" "tcActiveServerId (put_entry i e c) = tcActiveServerId c"
  "bindMutex (put_entry i e c) = bindMutex c" "ldMutex (put_entry i e c) = ldMutex c"
  "ldTab (c_lists (put_entry i e c)) = (ldTab (c_lists c))(i := e)"
  by (simp_all add: put_entry_def)

lemma put_entry_twice [simp]: "put_entry i e (put_entry i d c) = put_entry i e c"
  by (simp add: put_entry_def)

definition noted :: "conn_conf \<Rightarrow> nat \<Rightarrow> nat \<Rightarrow> tLdapLd \<Rightarrow> tLdapLd" where
  "noted cf key srv e = e\<lparr>serverHost := Some srv, serverPort := tcServerPort cf srv, KeyThead := int key, rebind := 0\<rparr>"

lemma noted_sel [simp]:
  "ld (noted cf key srv e) = ld e" "serverHost (noted cf key srv e) = Some srv" "KeyThead (noted cf key srv e) = int key"
  "noted cf key srv (noted cf key srv e) = noted cf key srv e"
  by (simp_all add: noted_def)

lemma note_server_Cons:
  "note_server cf key (i # is) c =
     rbind (ld_entry c i) (\<lambda>e. rbind (tLdap_getLd cf key c) (\<lambda>l.
       note_server cf key is (if ld e = l then put_entry i (noted cf key (tcActiveServerId c) e) c else c)))"
  unfolding noted_def by simp

text \<open>When no other entry has the connection of the thread, only its own entry is noted.\<close>

lemma note_server_own:
  assumes "tLdap_getLdId cf key = Inr own" "own < c_size c" "\<forall>i \<in> set is. i < c_size c"
    "\<forall>i < c_size c. ld (ldTab (c_lists c) i) = ld (ldTab (c_lists c) own) \<longrightarrow> i = own"
  shows "note_server cf key is c =
    Inr (if own \<in> set is then put_entry own (noted cf key (tcActiveServerId c) (ldTab (c_lists c) own)) c else c)"
  using assms
proof (induction "is" arbitrary: c)
  case (Cons i "is")
  have l: "tLdap_getLd cf key c = Inr (ld (ldTab (c_lists c) own))" using Cons.prems by (simp add: tLdap_getLd_def ld_entry_def)
  have e: "ld_entry c i = Inr (ldTab (c_lists c) i)" using Cons.prems by (simp add: ld_entry_def)
  show ?case
  proof (cases "i = own")
    case True
    let ?c = "put_entry own (noted cf key (tcActiveServerId c) (ldTab (c_lists c) own)) c"
    have "note_server cf key is ?c = Inr ?c" using Cons.prems by (subst Cons.IH) auto
    with True l e show ?thesis by (simp add: note_server_Cons del: note_server.simps)
  next
    case False
    then have "ld (ldTab (c_lists c) i) \<noteq> ld (ldTab (c_lists c) own)" using Cons.prems by auto
    with False l e Cons.IH [of c] Cons.prems show ?thesis by (simp add: note_server_Cons del: note_server.simps)
  qed
qed simp

text \<open>The loop runs to the number of threads, whatever the size of the table.\<close>

lemma note_server_outside:
  assumes "tLdap_getLdId cf key = Inr own" "own < c_size c" "a \<le> c_size c" "c_size c < n"
  shows "note_server cf key [a..<n] c = Inl OutOfBounds"
  using assms
proof (induction "c_size c - a" arbitrary: a c)
  case 0
  then have "[a..<n] = a # [Suc a..<n]" "a = c_size c" by (simp_all add: upt_conv_Cons)
  then show ?case by (simp add: ld_entry_def)
next
  case (Suc k)
  then have u: "[a..<n] = a # [Suc a..<n]" "a < c_size c" by (simp_all add: upt_conv_Cons)
  have l: "tLdap_getLd cf key c = Inr (ld (ldTab (c_lists c) own))" using Suc.prems by (simp add: tLdap_getLd_def ld_entry_def)
  have "note_server cf key [Suc a..<n] d = Inl OutOfBounds" if "c_size d = c_size c" for d
    using Suc.hyps(1) [of d "Suc a"] Suc.hyps(2) Suc.prems that by simp
  with u l show ?case by (simp add: ld_entry_def)
qed

text \<open>A table for threads with a connection each, no mutex held, and servers to choose from.\<close>

definition conn_ready :: "conn_conf \<Rightarrow> conn \<Rightarrow> bool" where
  "conn_ready cf c \<longleftrightarrow> \<not> bindMutex c \<and> ldMutex c = (\<lambda>_. None) \<and> tcLdapBindNb cf = tcWThreadNb cf \<and> 0 < tcWThreadNb cf
     \<and> c_size c = tcWThreadNb cf + 1 \<and> 0 < nbserver cf \<and> nbserver cf \<le> 200 \<and> tcActiveServerId c < nbserver cf"

definition good_io :: "nat \<Rightarrow> bind_io" where
  "good_io h = \<lparr>io_init = 0, io_ld = Some h, io_version = True, io_ctrl = True, io_bind = 0, io_unbind = 0\<rparr>"

definition bound :: "conn_conf \<Rightarrow> nat \<Rightarrow> nat \<Rightarrow> conn \<Rightarrow> conn" where
  "bound cf key h c =
     (put_entry (key - WORKTHR) (noted cf key (tcActiveServerId c) ((ldTab (c_lists c) (key - WORKTHR))\<lparr>ld := Some h\<rparr>)) c)
       \<lparr>tcActiveServerId := (tcActiveServerId c + 1) mod nbserver cf\<rparr>"

lemma bind_success:
  assumes r: "conn_ready cf c" and k: "WORKTHR \<le> key" "key < WORKTHR + tcWThreadNb cf"
    and h: "\<forall>i. ld (ldTab (c_lists c) i) \<noteq> Some h"
  shows "simpleBindRequest cf (good_io h) key (key - WORKTHR) True False c = Some (Inr (0, bound cf key h c))"
proof -
  define own where "own = key - WORKTHR"
  have id: "tLdap_getLdId cf key = Inr own" using r k by (simp add: tLdap_getLdId_def conn_ready_def own_def)
  have sz: "own < c_size c" "own < tcWThreadNb cf" using r k by (auto simp: conn_ready_def own_def)
  define c1 where "c1 = c\<lparr>ldMutex := (ldMutex c)(own \<mapsto> (key, 1))\<rparr>"
  have lock: "lock_ld cf key c = Some (Inr c1)" "\<not> bindMutex c1"
    using r sz by (simp_all add: lock_ld_def id ld_entry_def conn_ready_def c1_def)
  define c2 where "c2 = put_entry own ((ldTab (c_lists c) own)\<lparr>ld := Some h\<rparr>) (c1\<lparr>bindMutex := True\<rparr>)"
  have op: "open_ld cf (good_io h) False own (c1\<lparr>bindMutex := True\<rparr>) = Inr (True, c2)"
    using r sz by (simp add: open_ld_def guard_def set_ld_def ld_entry_def good_io_def c2_def c1_def conn_ready_def)
  have bd: "bind_ld cf (good_io h) own c2 = Inr (0, c2)" using sz by (simp add: bind_ld_def ld_entry_def good_io_def c2_def c1_def)
  define c4 where "c4 = put_entry own (noted cf key (tcActiveServerId c) (ldTab (c_lists c2) own)) c2"
  have nt: "note_server cf key [0..<tcWThreadNb cf] c2 = Inr c4"
    using r sz h by (subst note_server_own [OF id]) (auto simp: c4_def c2_def c1_def conn_ready_def)
  define c5 where "c5 = c4\<lparr>tcActiveServerId := (tcActiveServerId c + 1) mod nbserver cf, bindMutex := False\<rparr>"
  have ns: "next_server cf c4 = Inr (c4\<lparr>tcActiveServerId := (tcActiveServerId c + 1) mod nbserver cf\<rparr>)"
    using r by (simp add: next_server_def c4_def c2_def c1_def conn_ready_def)
  have m: "ldMutex c = (\<lambda>_. None)" "\<not> bindMutex c" using r by (simp_all add: conn_ready_def)
  have un: "unlock_ld cf key c5 = Inr (bound cf key h c)"
    using sz m by (simp add: unlock_ld_def id ld_entry_def c5_def c4_def c2_def c1_def bound_def own_def [symmetric] put_entry_def fun_upd_idem)
  show ?thesis
    using un [unfolded c5_def] by (simp add: simpleBindRequest_def own_def [symmetric] lock op bd nt ns)
qed

lemma bound_ready: "conn_ready cf c \<Longrightarrow> conn_ready cf (bound cf key h c)"
  by (simp add: conn_ready_def bound_def)

text \<open>Binds of several threads one after the other.\<close>

fun bind_all :: "conn_conf \<Rightarrow> (nat \<times> bind_io) list \<Rightarrow> conn \<Rightarrow> conn result option" where
  "bind_all cf [] c = Some (Inr c)"
| "bind_all cf ((key, io) # xs) c =
     rseq (simpleBindRequest cf io key (key - WORKTHR) True False c) (\<lambda>(_, c1). bind_all cf xs c1)"

lemma bound_other: "WORKTHR \<le> k \<Longrightarrow> WORKTHR \<le> key \<Longrightarrow> k \<noteq> key \<Longrightarrow> ldTab (c_lists (bound cf key h c)) (k - WORKTHR) = ldTab (c_lists c) (k - WORKTHR)"
  by (simp add: bound_def)

lemma bound_own:
  "ldTab (c_lists (bound cf key h c)) (key - WORKTHR)
    = noted cf key (tcActiveServerId c) ((ldTab (c_lists c) (key - WORKTHR))\<lparr>ld := Some h\<rparr>)"
  by (simp add: bound_def)

lemma bound_handles: "ld (ldTab (c_lists (bound cf key h c)) i) = Some g \<Longrightarrow> g = h \<or> ld (ldTab (c_lists c) i) = Some g"
  by (auto simp: bound_def split: if_splits)

definition thread_bound :: "conn \<Rightarrow> nat \<Rightarrow> nat \<Rightarrow> nat \<Rightarrow> bool" where
  "thread_bound c key h srv \<longleftrightarrow> (let e = ldTab (c_lists c) (key - WORKTHR) in ld e = Some h \<and> serverHost e = Some srv \<and> KeyThead e = int key)"

text \<open>A sequence of binds: each thread gets its server in turn, and keeps it while the others bind.\<close>

lemma bind_all_run:
  assumes "conn_ready cf c" "distinct (map fst xs)" "distinct (map snd xs)"
    "\<forall>(k, h) \<in> set xs. WORKTHR \<le> k \<and> k < WORKTHR + tcWThreadNb cf \<and> (\<forall>i. ld (ldTab (c_lists c) i) \<noteq> Some h)"
  shows "\<exists>c'. bind_all cf (map (\<lambda>(k, h). (k, good_io h)) xs) c = Some (Inr c')
    \<and> (\<forall>k. WORKTHR \<le> k \<and> k \<notin> fst ` set xs \<longrightarrow> ldTab (c_lists c') (k - WORKTHR) = ldTab (c_lists c) (k - WORKTHR))
    \<and> (\<forall>j < length xs. thread_bound c' (fst (xs ! j)) (snd (xs ! j)) ((tcActiveServerId c + j) mod nbserver cf))"
  using assms
proof (induction xs arbitrary: c)
  case (Cons x xs)
  obtain k h where x: "x = (k, h)" by (cases x)
  have k: "WORKTHR \<le> k" "k < WORKTHR + tcWThreadNb cf" "\<forall>i. ld (ldTab (c_lists c) i) \<noteq> Some h" using Cons.prems(4) by (auto simp: x)
  let ?c = "bound cf k h c"
  have act: "tcActiveServerId ?c = (tcActiveServerId c + 1) mod nbserver cf" by (simp add: bound_def)
  have rest: "\<forall>(k, g) \<in> set xs. WORKTHR \<le> k \<and> k < WORKTHR + tcWThreadNb cf \<and> (\<forall>i. ld (ldTab (c_lists ?c) i) \<noteq> Some g)"
  proof (clarify, intro conjI allI notI)
    fix k' g i assume m: "(k', g) \<in> set xs"
    then show "WORKTHR \<le> k'" "k' < WORKTHR + tcWThreadNb cf" using Cons.prems(4) by auto
    assume "ld (ldTab (c_lists ?c) i) = Some g"
    from bound_handles [OF this] show False using m Cons.prems(3,4) by (force simp: x)
  qed
  have d: "distinct (map fst xs)" "distinct (map snd xs)" using Cons.prems(2,3) by simp_all
  obtain c' where c': "bind_all cf (map (\<lambda>(k, h). (k, good_io h)) xs) ?c = Some (Inr c')"
      "\<forall>k'. WORKTHR \<le> k' \<and> k' \<notin> fst ` set xs \<longrightarrow> ldTab (c_lists c') (k' - WORKTHR) = ldTab (c_lists ?c) (k' - WORKTHR)"
      "\<forall>j < length xs. thread_bound c' (fst (xs ! j)) (snd (xs ! j)) ((tcActiveServerId ?c + j) mod nbserver cf)"
    using Cons.IH [OF bound_ready [OF Cons.prems(1)] d rest] by blast
  have "thread_bound c' k h (tcActiveServerId c mod nbserver cf)"
    using c'(2) k(1) Cons.prems(1,2) x by (simp add: thread_bound_def bound_own conn_ready_def image_iff Let_def)
  moreover have "thread_bound c' (fst (xs ! j)) (snd (xs ! j)) ((tcActiveServerId c + Suc j) mod nbserver cf)" if "j < length xs" for j
    using c'(3) that by (simp add: act mod_simps)
  ultimately have "\<forall>j < length (x # xs). thread_bound c' (fst ((x # xs) ! j)) (snd ((x # xs) ! j)) ((tcActiveServerId c + j) mod nbserver cf)"
    by (auto simp: x nth_Cons less_Suc_eq_0_disj)
  moreover have "\<forall>k'. WORKTHR \<le> k' \<and> k' \<notin> fst ` set (x # xs) \<longrightarrow> ldTab (c_lists c') (k' - WORKTHR) = ldTab (c_lists c) (k' - WORKTHR)"
    using c'(2) bound_other k(1) by (auto simp: x)
  ultimately show ?case
    using c'(1) bind_success [OF Cons.prems(1) k] by (intro exI [of _ c']) (simp add: x)
qed simp

lemma blocked_bind: "bindMutex c \<Longrightarrow> simpleBindRequest cf io key cell dolock sctrl c \<noteq> Some (Inr r)"
  by (auto simp: simpleBindRequest_def lock_ld_def rseq_def split: option.splits sum.splits if_splits)

subsection \<open>Properties\<close>


definition conf2 :: conn_conf where
  "conf2 = \<lparr>tcWThreadNb = 3, tcLdapBindNb = 3, nbserver = 2, tcServerPort = (\<lambda>_. 389), tcSecuredMode = False,
     quietOnError = False, tcNoMattedPair = True, tcLdapSessionPolicy = LDAP_SES_POLICY_LOCAL_THR\<rparr>"

definition conn0 :: conn where
  "conn0 = \<lparr>c_lists = lstate0\<lparr>ldTab := (\<lambda>_. empty_ld)\<rparr>, c_size = 4, tcActiveServerId = 0, bindMutex = False, abandonMutex = False,
     ldMutex = (\<lambda>_. None), c_stat = tstat0, srvDown = False, sigurg = 0\<rparr>"


text \<open>
  C34. A bind that fails before the server is asked (no connection structure, or an option that
  cannot be set) returns with \<^verbatim>\<open>bindMutex\<close> locked. From then on no bind of any thread returns.
\<close>

theorem failed_bind_blocks_all:
  assumes "\<not> bindMutex c" "lock_ld cf key c = Some (Inr c1)" "cell < c_size c1" "tcActiveServerId c1 < 200" "\<not> tcSecuredMode cf"
    and "io_ld io = None \<or> \<not> io_version io"
  shows "\<exists>c2. simpleBindRequest cf io key cell True sctrl c = Some (Inr (1, c2))
    \<and> (\<forall>cf' io' key' cell' dolock' sctrl' r. simpleBindRequest cf' io' key' cell' dolock' sctrl' c2 \<noteq> Some (Inr r))"
proof -
  have b: "\<not> bindMutex c1" using assms(1,2) by (auto simp: lock_ld_def rseq_def split: option.splits sum.splits if_splits)
  let ?c = "put_entry cell ((ldTab (c_lists c1) cell)\<lparr>ld := io_ld io\<rparr>) (c1\<lparr>bindMutex := True\<rparr>)"
  have "open_ld cf io sctrl cell (c1\<lparr>bindMutex := True\<rparr>) = Inr (False, ?c)"
    using assms(3-6) by (auto simp: open_ld_def guard_def set_ld_def ld_entry_def)
  then have "simpleBindRequest cf io key cell True sctrl c = Some (Inr (1, ?c))"
    using assms(2) b by (simp add: simpleBindRequest_def)
  moreover have "simpleBindRequest cf' io' key' cell' dolock' sctrl' ?c \<noteq> Some (Inr r)" for cf' io' key' cell' dolock' sctrl' r
    by (rule blocked_bind) simp
  ultimately show ?thesis by blast
qed

theorem failed_bind_blocks_all_witness:
  "\<exists>c2. simpleBindRequest conf2 ((good_io 0)\<lparr>io_ld := None\<rparr>) 12 0 True False conn0 = Some (Inr (1, c2))
     \<and> (\<forall>r. simpleBindRequest conf2 (good_io 71) 13 1 True False c2 \<noteq> Some (Inr r))"
proof -
  have "lock_ld conf2 12 conn0 = Some (Inr (conn0\<lparr>ldMutex := [0 \<mapsto> (12, 1)]\<rparr>))"
    by (simp add: lock_ld_def tLdap_getLdId_def conf2_def conn0_def ld_entry_def WORKTHR_def)
  from failed_bind_blocks_all [OF _ this, of 0 "(good_io 0)\<lparr>io_ld := None\<rparr>" False] show ?thesis
    by (auto simp: conn0_def conf2_def)
qed

text \<open>
  C36. With shared connections and more threads than table entries, the start of tgen accesses memory
  outside the table: the first bind that the server accepts runs its loop over the number of
  threads, not over the entries.
\<close>

theorem global_bind_out_of_bounds:
  assumes "tcLdapSessionPolicy cf = LDAP_SES_POLICY_GLOBAL" "0 < tcLdapBindNb cf" "tcLdapBindNb cf + 1 < tcWThreadNb cf"
    and "\<not> tcSecuredMode cf" "\<not> bindMutex c" "tcActiveServerId c < 200" "ios 0 = good_io h"
  shows "tLdapInit cf True cacert 0 ios delta c = Some (Inl OutOfBounds)"
proof -
  have id: "tLdap_getLdId cf 0 = Inr 0" by (simp add: tLdap_getLdId_def WORKTHR_def)
  define c1 where "c1 = (alloc_tab cf c)\<lparr>ldMutex := [0 \<mapsto> (0, 1)]\<rparr>"
  have lock: "lock_ld cf 0 (alloc_tab cf c) = Some (Inr c1)" "\<not> bindMutex c1"
    using assms(5) by (simp_all add: lock_ld_def id ld_entry_def alloc_tab_def c1_def)
  define c2 where "c2 = put_entry 0 (empty_ld\<lparr>ld := Some h\<rparr>) (c1\<lparr>bindMutex := True\<rparr>)"
  have op: "open_ld cf (good_io h) False 0 (c1\<lparr>bindMutex := True\<rparr>) = Inr (True, c2)"
    using assms(4,6) by (simp add: open_ld_def guard_def set_ld_def ld_entry_def good_io_def c2_def c1_def alloc_tab_def)
  have bd: "bind_ld cf (good_io h) 0 c2 = Inr (0, c2)" by (simp add: bind_ld_def ld_entry_def good_io_def c2_def c1_def alloc_tab_def)
  have "note_server cf 0 [0..<tcWThreadNb cf] c2 = Inl OutOfBounds"
    using assms(3) by (intro note_server_outside [OF id]) (simp_all add: c2_def c1_def alloc_tab_def)
  then have "simpleBindRequest cf (ios 0) MAINTHR 0 True False (alloc_tab cf c) = Some (Inl OutOfBounds)"
    by (simp add: simpleBindRequest_def MAINTHR_def lock op bd assms(7))
  moreover have "[0..<tcLdapBindNb cf] = 0 # [1..<tcLdapBindNb cf]" using assms(2) by (simp add: upt_conv_Cons)
  ultimately show ?thesis using assms(1,4) id by (simp add: tLdapInit_def)
qed

theorem global_bind_out_of_bounds_witness:
  "tLdapInit (conf2\<lparr>tcLdapBindNb := 1, tcLdapSessionPolicy := LDAP_SES_POLICY_GLOBAL\<rparr>) True None 0 (\<lambda>_. good_io 70) 0 conn0
     = Some (Inl OutOfBounds)"
  using global_bind_out_of_bounds [of "conf2\<lparr>tcLdapBindNb := 1, tcLdapSessionPolicy := LDAP_SES_POLICY_GLOBAL\<rparr>" conn0 "\<lambda>_. good_io 70" 70 None 0]
  by (simp add: conf2_def conn0_def)

end
