(* ===== verification/Tgen_LdapAttrs.thy ===== *)
theory Tgen_LdapAttrs
  imports Tgen_Types
begin

section \<open>Attribute lists and modifications (Src/tldap.c)\<close>

text \<open>
  The attribute string of an action, \<^verbatim>\<open>op:type>value&value|op:type>value|...\<close>, is cut into operations,
  types and values, and these are turned into the \<^verbatim>\<open>LDAPMod\<close> array of a request. The functions
  \<^verbatim>\<open>ldap_explode_dn\<close> and \<^verbatim>\<open>ldap_explode_rdn\<close> of the LDAP library are arguments; a null pointer is
  \<^term>\<open>None\<close>.
\<close>

unbundle bit_operations_syntax

subsection \<open>Constants\<close>

definition ATTR_DELIMITER :: char where [simp]: "ATTR_DELIMITER = CHR ''|''"
definition ATTR_ACTION_SCOPE :: char where [simp]: "ATTR_ACTION_SCOPE = CHR '':''"
definition ATTR_EQUALITY :: char where [simp]: "ATTR_EQUALITY = CHR ''>''"
definition ATTR_VALUE_SEPARATOR :: char where [simp]: "ATTR_VALUE_SEPARATOR = CHR ''&''"
definition KEYWD_RDN :: string where "KEYWD_RDN = ''_RDN_''"
definition KEYWD_DN :: string where "KEYWD_DN = ''_DN_''"
definition KEYWD_GETASBASE :: string where "KEYWD_GETASBASE = ''_getAsBase_''"

definition LDAP_MOD_ADD :: int where "LDAP_MOD_ADD = 0"
definition LDAP_MOD_DELETE :: int where "LDAP_MOD_DELETE = 1"
definition LDAP_MOD_REPLACE :: int where "LDAP_MOD_REPLACE = 2"
definition LDAP_MOD_BVALUES :: int where "LDAP_MOD_BVALUES = 128"
definition CMD_GETASBASE :: int where "CMD_GETASBASE = 0"

lemmas mod_consts = LDAP_MOD_ADD_def LDAP_MOD_DELETE_def LDAP_MOD_REPLACE_def LDAP_MOD_BVALUES_def

subsection \<open>Types and values\<close>

text \<open>Trailing white space is removed, but never the first character.\<close>

definition trim_tail :: "string \<Rightarrow> string" where
  "trim_tail s = (case s of [] \<Rightarrow> [] | c # t \<Rightarrow> c # rstrip t)"

datatype what = whatIsValue | whatIsType

text \<open>
  \<^verbatim>\<open>attrTypeValue_getWhat\<close>. For a type the string from the last character before the white space is
  copied, up to the first NUL that the trimming wrote; with nothing before the token this is a read
  before the buffer.
\<close>

definition attrTypeValue_getWhat :: "string \<Rightarrow> char \<Rightarrow> what \<Rightarrow> string option result" where
  "attrTypeValue_getWhat s token w =
     (case strchr s token of
        None \<Rightarrow> Inr None
      | Some str_val \<Rightarrow>
          (let pre = takeWhile (\<lambda>c. c \<noteq> token) s
           in case w of
                whatIsType \<Rightarrow>
                  (if pre = [] then Inl OutOfBounds
                   else if trim_tail pre = pre then Inr (Some (last pre # str_val)) else Inr (Some [last (trim_tail pre)]))
              | whatIsValue \<Rightarrow>
                  (let v = lstrip (tl str_val) in Inr (if v = [] then None else Some v))))"

text \<open>\<^verbatim>\<open>strsub\<close>: the first occurrence is replaced; a null \<open>with\<close> is dereferenced by \<^verbatim>\<open>strlen\<close>.\<close>

definition strsub :: "string \<Rightarrow> string \<Rightarrow> string option \<Rightarrow> string option result" where
  "strsub str repl wth =
     (case strstr str repl of
        None \<Rightarrow> Inr None
      | Some pos \<Rightarrow>
          (case wth of
             None \<Rightarrow> Inl NullDeref
           | Some w \<Rightarrow> Inr (Some (take (length str - length pos) str @ w @ drop (length repl) pos))))"

text \<open>The array functions of the library, and the access to their first element.\<close>

record ldap_dn_lib =
  ldap_explode_dn :: "string option \<Rightarrow> string list option"
  ldap_explode_rdn :: "string \<Rightarrow> string list option"

definition first_of :: "string list option \<Rightarrow> string result" where
  "first_of a = (case a of None \<Rightarrow> Inl NullDeref | Some [] \<Rightarrow> Inl NullDeref | Some (x # xs) \<Rightarrow> Inr x)"

definition attr_value :: "ldap_dn_lib \<Rightarrow> string option \<Rightarrow> string \<Rightarrow> string option result" where
  "attr_value lib udn str_val =
     (if strstr str_val KEYWD_RDN \<noteq> None then
        rbind (first_of (ldap_explode_dn lib udn)) (\<lambda>dne.
        rbind (first_of (ldap_explode_rdn lib dne)) (\<lambda>rdn.
        rbind (attrTypeValue_getWhat rdn (CHR ''='') whatIsValue) (\<lambda>rdnValue.
        strsub str_val KEYWD_RDN rdnValue)))
      else if strstr str_val KEYWD_DN \<noteq> None then
        rbind (first_of (ldap_explode_dn lib udn)) (\<lambda>dne.
        rbind (attrTypeValue_getWhat dne (CHR ''='') whatIsValue) (\<lambda>dnValue.
        strsub str_val KEYWD_DN dnValue))
      else Inr (Some str_val))"

definition attrTypeValue_explode :: "ldap_dn_lib \<Rightarrow> string option \<Rightarrow> string \<Rightarrow> (string \<times> string option) result" where
  "attrTypeValue_explode lib udn s =
     (case strchr s ATTR_EQUALITY of
        None \<Rightarrow> Inr (s, None)
      | Some str_val \<Rightarrow>
          (let ty = trim_tail (takeWhile (\<lambda>c. c \<noteq> ATTR_EQUALITY) s); v = lstrip (tl str_val)
           in if v = [] then Inr (ty, None) else rbind (attr_value lib udn v) (\<lambda>val. Inr (ty, val))))"

subsection \<open>Lists of attributes\<close>

text \<open>The delimiter is counted everywhere but at the last character.\<close>

definition attrs_size :: "string \<Rightarrow> nat" where
  "attrs_size s = Suc (length (filter (\<lambda>c. c = ATTR_DELIMITER) (butlast s)))"

text \<open>
  The operation and what follows it. The keywords are searched in the whole attribute, not only before
  the colon. An unknown operation, and \<^verbatim>\<open>_getAsBase_\<close>, is an addition.
\<close>

definition attr_ope :: "string \<Rightarrow> int \<times> string" where
  "attr_ope str_attr =
     (case strchr str_attr ATTR_ACTION_SCOPE of
        None \<Rightarrow> (LDAP_MOD_BVALUES, str_attr)
      | Some p \<Rightarrow>
          (if strstr str_attr ''add'' \<noteq> None then LDAP_MOD_ADD
           else if strstr str_attr ''delete'' \<noteq> None then LDAP_MOD_DELETE
           else if strstr str_attr ''replace'' \<noteq> None then LDAP_MOD_REPLACE
           else LDAP_MOD_ADD, lstrip (tl p)))"

text \<open>
  The loop of \<^verbatim>\<open>attrs_build\<close> over \<open>n\<close> attributes; the string is the part that is left, or \<^term>\<open>None\<close> when the
  pointer is behind the terminating NUL.
\<close>

fun attrs_loop :: "ldap_dn_lib \<Rightarrow> string option \<Rightarrow> nat \<Rightarrow> string option \<Rightarrow> (string \<times> string option \<times> int) list result" where
  "attrs_loop lib udn 0 rest = Inr []"
| "attrs_loop lib udn (Suc n) None = Inl OutOfBounds"
| "attrs_loop lib udn (Suc n) (Some str) =
     (let str_attr = lstrip str;
          (cur, str_attr_next) = (case strchr str_attr ATTR_DELIMITER of
              None \<Rightarrow> (str_attr, None)
            | Some r \<Rightarrow> (takeWhile (\<lambda>c. c \<noteq> ATTR_DELIMITER) str_attr, Some (tl r)));
          (ope, body) = attr_ope (trim_tail cur)
      in rbind (attrTypeValue_explode lib udn body) (\<lambda>(ty, val).
         rbind (attrs_loop lib udn n str_attr_next) (\<lambda>xs. Inr ((ty, val, ope) # xs))))"

definition attrs_build :: "ldap_dn_lib \<Rightarrow> string option \<Rightarrow> string \<Rightarrow> (string \<times> string option \<times> int) list result" where
  "attrs_build lib udn attr_list = attrs_loop lib udn (attrs_size attr_list) (Some attr_list)"

subsection \<open>Lists of values\<close>

text \<open>
  \<^verbatim>\<open>attrsValues_build\<close> cuts the string in place. The buffer is a list of characters in which NULs have been
  written; behind its end there is the terminating NUL.
\<close>

abbreviation NUL :: char where "NUL \<equiv> CHR 0x00"

definition rd :: "string \<Rightarrow> nat \<Rightarrow> char" where
  "rd b k = (if k < length b then b ! k else NUL)"

definition cstr :: "string \<Rightarrow> nat \<Rightarrow> string" where
  "cstr b k = takeWhile (\<lambda>c. c \<noteq> NUL) (drop k b)"

text \<open>The number of values: one more than the number of groups of adjacent separators.\<close>

fun value_count :: "string \<Rightarrow> nat" where
  "value_count [] = 1"
| "value_count (c # s) =
     (if c = ATTR_VALUE_SEPARATOR \<and> (case s of d # _ \<Rightarrow> d \<noteq> ATTR_VALUE_SEPARATOR | [] \<Rightarrow> True)
      then Suc (value_count s) else value_count s)"

definition skip_blank :: "string \<Rightarrow> nat \<Rightarrow> nat" where
  "skip_blank b k = k + length (takeWhile (\<lambda>c. isspace c \<or> c = ATTR_VALUE_SEPARATOR) (drop k b))"

definition value_end :: "string \<Rightarrow> nat \<Rightarrow> nat" where
  "value_end b k = k + length (takeWhile (\<lambda>c. c \<noteq> NUL \<and> c \<noteq> ATTR_VALUE_SEPARATOR) (drop k b))"

text \<open>\<^verbatim>\<open>while (isspace(*--p)) *p = 0\<close>; the loop can run below the start of the buffer.\<close>

fun trim_back :: "nat \<Rightarrow> string \<Rightarrow> string result" where
  "trim_back 0 b = Inl OutOfBounds"
| "trim_back (Suc p) b = (if isspace (rd b p) then trim_back p (b[p := NUL]) else Inr b)"

text \<open>The array of \<open>n\<close> values; an element that is not assigned is \<^term>\<open>None\<close>.\<close>

fun values_loop :: "nat \<Rightarrow> string \<Rightarrow> nat \<Rightarrow> string option list result" where
  "values_loop 0 b k = Inr []"
| "values_loop (Suc n) b k =
     (if rd b k = NUL then Inr (replicate (Suc n) None)
      else (let str_val = skip_blank b k; e = value_end b str_val
            in rbind (trim_back e b) (\<lambda>b'. rbind (values_loop n b' e) (\<lambda>vs. Inr (Some (cstr b' str_val) # vs)))))"

definition attrsValues_build :: "string option \<Rightarrow> string option list option result" where
  "attrsValues_build v =
     (case v of None \<Rightarrow> Inr None | Some s \<Rightarrow> rbind (values_loop (value_count s) s 0) (\<lambda>vs. Inr (Some vs)))"

subsection \<open>Modifications\<close>

record LDAPMod =
  mod_op :: int
  mod_type :: string
  mod_bvalues :: "string list option"

text \<open>Reading the array up to its final null pointer; an element that was not assigned is indeterminate.\<close>

fun read_values :: "string option list \<Rightarrow> string list result" where
  "read_values [] = Inr []"
| "read_values (None # vs) = Inl Uninit"
| "read_values (Some v # vs) = rbind (read_values vs) (\<lambda>xs. Inr (v # xs))"

definition get_modlist_element :: "int \<Rightarrow> string \<Rightarrow> string option list option \<Rightarrow> LDAPMod result" where
  "get_modlist_element op ty vs =
     (case vs of
        None \<Rightarrow> Inr \<lparr>mod_op = op, mod_type = ty, mod_bvalues = None\<rparr>
      | Some xs \<Rightarrow> rbind (read_values xs) (\<lambda>ys. Inr \<lparr>mod_op = op OR LDAP_MOD_BVALUES, mod_type = ty, mod_bvalues = Some ys\<rparr>))"

definition get_modlist :: "int \<Rightarrow> string \<Rightarrow> string option list option \<Rightarrow> LDAPMod list result" where
  "get_modlist op ty vs = rbind (get_modlist_element op ty vs) (\<lambda>m. Inr [m])"

fun build_mods :: "(string \<times> string option \<times> int) list \<Rightarrow> LDAPMod list result" where
  "build_mods [] = Inr []"
| "build_mods ((ty, val, ope) # xs) =
     rbind (attrsValues_build val) (\<lambda>vs. rbind (get_modlist_element ope ty vs) (\<lambda>m. rbind (build_mods xs) (\<lambda>ms. Inr (m # ms))))"

definition mods_of_list :: "ldap_dn_lib \<Rightarrow> string option \<Rightarrow> string \<Rightarrow> LDAPMod list result" where
  "mods_of_list lib udn attr_list = rbind (attrs_build lib udn attr_list) build_mods"

subsection \<open>A reference for the attribute list\<close>

fun split_bar :: "string \<Rightarrow> string list" where
  "split_bar [] = [[]]"
| "split_bar (c # s) = (if c = ATTR_DELIMITER then [] # split_bar s else (c # hd (split_bar s)) # tl (split_bar s))"

text \<open>The segments between the delimiters, without the empty one behind a final delimiter.\<close>

definition segments :: "string \<Rightarrow> string list" where
  "segments s = (if s \<noteq> [] \<and> last s = ATTR_DELIMITER then butlast (split_bar s) else split_bar s)"

text \<open>One segment: white space removed on both sides, then operation, type and value.\<close>

definition parse_attr :: "ldap_dn_lib \<Rightarrow> string option \<Rightarrow> string \<Rightarrow> (string \<times> string option \<times> int) result" where
  "parse_attr lib udn seg =
     (let (ope, body) = attr_ope (rstrip (lstrip seg))
      in rbind (attrTypeValue_explode lib udn body) (\<lambda>(ty, val). Inr (ty, val, ope)))"

lemma split_bar_nonempty [simp]: "split_bar s \<noteq> []"
  by (induction s) auto

lemma length_split_bar: "length (split_bar s) = Suc (length (filter (\<lambda>c. c = ATTR_DELIMITER) s))"
  by (induction s) auto

lemma split_bar_append: "ATTR_DELIMITER \<notin> set a \<Longrightarrow> split_bar (a @ ATTR_DELIMITER # b) = a # split_bar b"
  by (induction a) auto

lemma split_bar_none: "ATTR_DELIMITER \<notin> set a \<Longrightarrow> split_bar a = [a]"
  by (induction a) auto

lemma segments_take: "segments s = take (attrs_size s) (split_bar s)"
proof (cases s rule: rev_cases)
  case (snoc t c)
  show ?thesis
  proof (cases "c = ATTR_DELIMITER")
    case True
    with snoc have "attrs_size s = length (split_bar s) - 1" by (simp add: attrs_size_def length_split_bar)
    with snoc True show ?thesis by (simp add: segments_def butlast_conv_take)
  next
    case False
    with snoc have "attrs_size s = length (split_bar s)" by (simp add: attrs_size_def length_split_bar)
    with snoc False show ?thesis by (simp add: segments_def)
  qed
qed (simp add: segments_def attrs_size_def)

lemma trim_tail_lstrip: "trim_tail (lstrip s) = rstrip (lstrip s)"
proof (cases "lstrip s")
  case (Cons c t)
  then have c: "\<not> isspace c" using lstrip_hd [of s] by simp
  have "rstrip (c # t) = c # rstrip t"
    using c by (simp add: rstrip_def dropWhile_append)
  with Cons show ?thesis by (simp add: trim_tail_def)
qed (simp add: trim_tail_def)

lemma bar_not_space [simp]: "\<not> isspace (CHR ''|'')"
  by (simp add: isspace_def)

lemma lstrip_segment: "lstrip (a @ CHR ''|'' # b) = lstrip a @ CHR ''|'' # b"
  by (auto simp: lstrip_def dropWhile_append dropWhile_eq_Nil_conv)

lemma set_lstrip: "set (lstrip a) \<subseteq> set a"
  by (auto simp: lstrip_def dest: set_dropWhileD)

text \<open>The loop over the string in place computes the segments.\<close>

lemma attrs_loop_segments:
  "n \<le> length (split_bar str) \<Longrightarrow> attrs_loop lib udn n (Some str) = rmap (parse_attr lib udn) (take n (split_bar str))"
proof (induction n arbitrary: str)
  case (Suc n)
  show ?case
  proof (cases "CHR ''|'' \<in> set str")
    case False
    then have sp: "split_bar str = [str]" using split_bar_none [of str] by simp
    have "CHR ''|'' \<notin> set (lstrip str)" using False set_lstrip [of str] by blast
    with sp Suc.prems show ?thesis
      by (simp add: strchr_None trim_tail_lstrip parse_attr_def Let_def rbind_assoc split_def)
  next
    case True
    then obtain a b where str: "str = a @ CHR ''|'' # b" "CHR ''|'' \<notin> set a" by (auto dest: split_list_first)
    then have sp: "split_bar str = a # split_bar b" using split_bar_append [of a b] by simp
    have "CHR ''|'' \<notin> set (lstrip a)" using str(2) set_lstrip [of a] by blast
    then have "strchr (lstrip str) (CHR ''|'') = Some (CHR ''|'' # b)" "takeWhile (\<lambda>c. c \<noteq> CHR ''|'') (lstrip str) = lstrip a"
      unfolding str(1) lstrip_segment by (simp_all add: strchr_append takeWhile_upto)
    with sp Suc.IH [of b] Suc.prems show ?thesis
      by (simp add: trim_tail_lstrip parse_attr_def Let_def rbind_assoc split_def)
  qed
qed simp

lemma attrs_build_segments: "attrs_build lib udn s = rmap (parse_attr lib udn) (segments s)"
proof -
  have "attrs_size s \<le> length (split_bar s)"
    by (cases s rule: rev_cases) (simp_all add: attrs_size_def length_split_bar)
  then show ?thesis by (simp add: attrs_build_def attrs_loop_segments segments_take)
qed

subsection \<open>Printed attribute lists\<close>

definition print_ope :: "int \<Rightarrow> string" where
  "print_ope ope = (if ope = LDAP_MOD_ADD then ''add:'' else if ope = LDAP_MOD_DELETE then ''delete:''
     else if ope = LDAP_MOD_REPLACE then ''replace:'' else [])"

definition print_attr :: "string \<times> string option \<times> int \<Rightarrow> string" where
  "print_attr x = (case x of (ty, v, ope) \<Rightarrow> print_ope ope @ ty @ (case v of None \<Rightarrow> [] | Some w \<Rightarrow> CHR ''>'' # w))"

fun join_bar :: "string list \<Rightarrow> string" where
  "join_bar [] = []"
| "join_bar [x] = x"
| "join_bar (x # xs) = x @ CHR ''|'' # join_bar xs"

definition no_blank_ends :: "string \<Rightarrow> bool" where
  "no_blank_ends s \<longleftrightarrow> s \<noteq> [] \<and> \<not> isspace (hd s) \<and> \<not> isspace (last s)"

text \<open>
  The attributes that can be written: no meta-characters, no white space at the ends, no
  substitution keyword in the value, and for a deletion or a replacement no earlier keyword anywhere.
\<close>

definition attr_wf :: "string \<times> string option \<times> int \<Rightarrow> bool" where
  "attr_wf x = (case x of (ty, v, ope) \<Rightarrow>
     no_blank_ends ty \<and> set ty \<inter> {CHR ''|'', CHR '':'', CHR ''>''} = {}
     \<and> (\<forall>w. v = Some w \<longrightarrow> no_blank_ends w \<and> set w \<inter> {CHR ''|'', CHR '':''} = {}
             \<and> strstr w KEYWD_RDN = None \<and> strstr w KEYWD_DN = None)
     \<and> ope \<in> {LDAP_MOD_ADD, LDAP_MOD_DELETE, LDAP_MOD_REPLACE, LDAP_MOD_BVALUES}
     \<and> (ope \<in> {LDAP_MOD_DELETE, LDAP_MOD_REPLACE} \<longrightarrow> strstr (print_attr x) ''add'' = None)
     \<and> (ope = LDAP_MOD_REPLACE \<longrightarrow> strstr (print_attr x) ''delete'' = None))"

lemma no_blank_ends_simps:
  "no_blank_ends s \<Longrightarrow> lstrip s = s" "no_blank_ends s \<Longrightarrow> rstrip s = s" "no_blank_ends s \<Longrightarrow> trim_tail s = s"
proof -
  assume s: "no_blank_ends s"
  then show "lstrip s = s" "rstrip s = s" by (auto simp: no_blank_ends_def lstrip_id rstrip_id)
  with trim_tail_lstrip [of s] show "trim_tail s = s" by simp
qed

definition attr_body :: "string \<Rightarrow> string option \<Rightarrow> string" where
  "attr_body ty v = ty @ (case v of None \<Rightarrow> [] | Some w \<Rightarrow> CHR ''>'' # w)"

lemma attr_body_ends:
  assumes "attr_wf (ty, v, ope)"
  shows "no_blank_ends (attr_body ty v)" "CHR '':'' \<notin> set (attr_body ty v)" "CHR ''|'' \<notin> set (attr_body ty v)"
  using assms by (auto simp: attr_wf_def attr_body_def no_blank_ends_def split: option.splits)

lemma explode_body:
  assumes "attr_wf (ty, v, ope)"
  shows "attrTypeValue_explode lib udn (attr_body ty v) = Inr (ty, v)"
proof (cases v)
  case None
  with assms show ?thesis by (auto simp: attr_wf_def attr_body_def attrTypeValue_explode_def strchr_None)
next
  case (Some w)
  have "CHR ''>'' \<notin> set ty" "no_blank_ends ty" "no_blank_ends w" "strstr w KEYWD_RDN = None" "strstr w KEYWD_DN = None"
    using assms Some by (auto simp: attr_wf_def)
  with Some show ?thesis
    by (auto simp: attr_body_def attrTypeValue_explode_def strchr_append takeWhile_upto no_blank_ends_simps attr_value_def
        no_blank_ends_def)
qed

lemma ope_of_print:
  assumes "attr_wf (ty, v, ope)"
  shows "attr_ope (print_attr (ty, v, ope)) = (ope, attr_body ty v)"
proof -
  note B = attr_body_ends [OF assms]
  have pr: "print_attr (ty, v, ope) = print_ope ope @ attr_body ty v" by (simp add: print_attr_def attr_body_def)
  have kw: "attr_ope (kw @ CHR '':'' # attr_body ty v) =
      (if strstr (kw @ CHR '':'' # attr_body ty v) ''add'' \<noteq> None then LDAP_MOD_ADD
       else if strstr (kw @ CHR '':'' # attr_body ty v) ''delete'' \<noteq> None then LDAP_MOD_DELETE
       else if strstr (kw @ CHR '':'' # attr_body ty v) ''replace'' \<noteq> None then LDAP_MOD_REPLACE else LDAP_MOD_ADD, attr_body ty v)"
    if "CHR '':'' \<notin> set kw" for kw
    using that B(1) by (simp add: attr_ope_def strchr_append no_blank_ends_simps)
  consider "ope = LDAP_MOD_ADD" | "ope = LDAP_MOD_DELETE" | "ope = LDAP_MOD_REPLACE" | "ope = LDAP_MOD_BVALUES"
    using assms by (auto simp: attr_wf_def)
  then show ?thesis
  proof cases
    case 1
    then show ?thesis unfolding pr
      using kw [of "''add''"] strstr_prefix [of "''add''" "CHR '':'' # attr_body ty v"] by (simp add: print_ope_def)
  next
    case 2
    then have "strstr (print_attr (ty, v, ope)) ''add'' = None" using assms by (simp add: attr_wf_def)
    with 2 show ?thesis unfolding pr
      using kw [of "''delete''"] strstr_prefix [of "''delete''" "CHR '':'' # attr_body ty v"]
      by (simp add: print_ope_def mod_consts)
  next
    case 3
    then have "strstr (print_attr (ty, v, ope)) ''add'' = None" "strstr (print_attr (ty, v, ope)) ''delete'' = None"
      using assms by (simp_all add: attr_wf_def)
    with 3 show ?thesis unfolding pr
      using kw [of "''replace''"] strstr_prefix [of "''replace''" "CHR '':'' # attr_body ty v"]
      by (simp add: print_ope_def mod_consts)
  next
    case 4
    with B(2) show ?thesis unfolding pr by (simp add: print_ope_def mod_consts attr_ope_def strchr_None)
  qed
qed

lemma no_blank_ends_append: "no_blank_ends b \<Longrightarrow> a \<noteq> [] \<Longrightarrow> \<not> isspace (hd a) \<Longrightarrow> no_blank_ends (a @ b)"
  by (auto simp: no_blank_ends_def)

lemma print_ope_hd: "print_ope ope \<noteq> [] \<Longrightarrow> \<not> isspace (hd (print_ope ope))"
  by (auto simp: print_ope_def isspace_def split: if_splits)

lemma print_attr_ends:
  assumes "attr_wf (ty, v, ope)"
  shows "no_blank_ends (print_attr (ty, v, ope))" "CHR ''|'' \<notin> set (print_attr (ty, v, ope))"
proof -
  have pr: "print_attr (ty, v, ope) = print_ope ope @ attr_body ty v" by (simp add: print_attr_def attr_body_def)
  show "no_blank_ends (print_attr (ty, v, ope))"
    unfolding pr using attr_body_ends(1) [OF assms] print_ope_hd [of ope]
    by (cases "print_ope ope = []") (simp_all add: no_blank_ends_append)
  show "CHR ''|'' \<notin> set (print_attr (ty, v, ope))"
    unfolding pr using attr_body_ends(3) [OF assms] by (auto simp: print_ope_def split: if_splits)
qed

lemma parse_print_attr:
  assumes "attr_wf x"
  shows "parse_attr lib udn (print_attr x) = Inr x"
proof (cases x)
  case (fields ty v ope)
  with assms have w: "attr_wf (ty, v, ope)" by simp
  have "rstrip (lstrip (print_attr (ty, v, ope))) = print_attr (ty, v, ope)"
    by (simp add: no_blank_ends_simps [OF print_attr_ends(1) [OF w]])
  then show ?thesis
    unfolding fields parse_attr_def by (simp add: ope_of_print [OF w] explode_body [OF w])
qed

lemma split_join_bar:
  "xs \<noteq> [] \<Longrightarrow> \<forall>x \<in> set xs. CHR ''|'' \<notin> set x \<Longrightarrow> split_bar (join_bar xs) = xs"
proof (induction xs rule: join_bar.induct)
  case (3 x y ys)
  then show ?case using split_bar_append [of x "join_bar (y # ys)"] by simp
qed (use split_bar_none in auto)

lemma last_join_bar: "xs \<noteq> [] \<Longrightarrow> \<forall>x \<in> set xs. x \<noteq> [] \<Longrightarrow> join_bar xs \<noteq> [] \<and> last (join_bar xs) = last (last xs)"
  by (induction xs rule: join_bar.induct) auto

lemma segments_join_bar:
  assumes "xs \<noteq> []" "\<forall>x \<in> set xs. CHR ''|'' \<notin> set x \<and> x \<noteq> []"
  shows "segments (join_bar xs) = xs"
proof -
  have "last (join_bar xs) = last (last xs)" using last_join_bar [of xs] assms by simp
  moreover have "last (last xs) \<in> set (last xs)" "CHR ''|'' \<notin> set (last xs)" using assms by simp_all
  ultimately have "last (join_bar xs) \<noteq> CHR ''|''" by metis
  with split_join_bar [of xs] assms show ?thesis by (simp add: segments_def)
qed

lemma rmap_all: "\<forall>x \<in> set xs. f (g x) = Inr x \<Longrightarrow> rmap f (map g xs) = Inr xs"
  by (induction xs) auto

subsection \<open>Printed value lists\<close>

fun join_values :: "string list \<Rightarrow> string" where
  "join_values [] = []"
| "join_values [v] = v"
| "join_values (v # vs) = v @ '' & '' @ join_values vs"

definition value_wf :: "string \<Rightarrow> bool" where
  "value_wf v \<longleftrightarrow> no_blank_ends v \<and> CHR ''&'' \<notin> set v \<and> NUL \<notin> set v"

lemma value_wf_hd: "value_wf (c # v) \<Longrightarrow> \<not> isspace c \<and> c \<noteq> CHR ''&'' \<and> c \<noteq> NUL"
  by (auto simp: value_wf_def no_blank_ends_def)

lemma takeWhile_stop: "\<forall>c \<in> set a. P c \<Longrightarrow> (b = [] \<or> \<not> P (hd b)) \<Longrightarrow> takeWhile P (a @ b) = a"
  by (induction a) (auto simp: takeWhile_eq_Nil_iff)

lemma value_spot:
  assumes v: "value_wf v" and lead: "\<forall>c \<in> set lead. isspace c \<or> c = CHR ''&''" and r: "r = [] \<or> hd r = CHR ''&''"
    and sp: "\<forall>c \<in> set sp. c \<noteq> NUL \<and> c \<noteq> CHR ''&''"
  shows "skip_blank (pre @ lead @ v @ sp @ r) (length pre) = length pre + length lead"
    "value_end (pre @ lead @ v @ sp @ r) (length pre + length lead) = length pre + length lead + length v + length sp"
proof -
  obtain c v' where "v = c # v'" using v by (cases v) (auto simp: value_wf_def no_blank_ends_def)
  with value_wf_hd [of c v'] v have "takeWhile (\<lambda>c. isspace c \<or> c = CHR ''&'') (lead @ v @ sp @ r) = lead"
    by (intro takeWhile_stop lead) simp
  then show "skip_blank (pre @ lead @ v @ sp @ r) (length pre) = length pre + length lead"
    by (simp add: skip_blank_def)
  have "takeWhile (\<lambda>c. c \<noteq> NUL \<and> c \<noteq> CHR ''&'') ((v @ sp) @ r) = v @ sp"
    using v sp r by (intro takeWhile_stop) (auto simp: value_wf_def)
  then show "value_end (pre @ lead @ v @ sp @ r) (length pre + length lead) = length pre + length lead + length v + length sp"
    by (simp add: value_end_def)
qed

lemma trim_back_stop:
  assumes "v \<noteq> []" "\<not> isspace (last v)"
  shows "trim_back (length (pre @ v)) (pre @ v @ r) = Inr (pre @ v @ r)"
    "trim_back (Suc (length (pre @ v))) (pre @ v @ CHR '' '' # r) = Inr (pre @ v @ NUL # r)"
proof -
  obtain w c where v: "v = w @ [c]" using assms(1) by (cases v rule: rev_cases) auto
  show *: "trim_back (length (pre @ v)) (pre @ v @ r) = Inr (pre @ v @ r)" for r
    using assms(2) by (simp add: v rd_def nth_append)
  have "(pre @ v @ CHR '' '' # r)[length (pre @ v) := NUL] = pre @ v @ NUL # r"
    by (simp add: list_update_append)
  with * [of "NUL # r"] show "trim_back (Suc (length (pre @ v))) (pre @ v @ CHR '' '' # r) = Inr (pre @ v @ NUL # r)"
    by (simp add: rd_def nth_append isspace_def)
qed

lemma cstr_value:
  assumes "value_wf v" "r = [] \<or> hd r = NUL"
  shows "cstr (pre @ v @ r) (length pre) = v"
proof -
  have "takeWhile (\<lambda>c. c \<noteq> NUL) (v @ r) = v"
    using assms by (intro takeWhile_stop) (auto simp: value_wf_def)
  then show ?thesis by (simp add: cstr_def)
qed

lemma rd_at: "rd (pre @ r) (length pre) = (case r of [] \<Rightarrow> NUL | c # _ \<Rightarrow> c)"
  by (auto simp: rd_def nth_append split: list.splits)

lemma values_start:
  assumes "value_wf v" "\<forall>c \<in> set lead. isspace c \<or> c = CHR ''&''"
  shows "rd (pre @ lead @ v @ r) (length pre) \<noteq> NUL"
proof -
  obtain c v' where "v = c # v'" using assms(1) by (cases v) (auto simp: value_wf_def no_blank_ends_def)
  with assms value_wf_hd [of c v'] show ?thesis by (cases lead) (auto simp: rd_at isspace_def)
qed

lemma values_loop_join:
  "vs \<noteq> [] \<Longrightarrow> \<forall>v \<in> set vs. value_wf v \<Longrightarrow> \<forall>c \<in> set lead. isspace c \<or> c = CHR ''&'' \<Longrightarrow>
   values_loop (length vs) (pre @ lead @ join_values vs) (length pre) = Inr (map Some vs)"
proof (induction vs arbitrary: pre lead rule: join_values.induct)
  case (2 v)
  then have v: "value_wf v" and lead: "\<forall>c \<in> set lead. isspace c \<or> c = CHR ''&''" by simp_all
  have ne: "v \<noteq> []" "\<not> isspace (last v)" using v by (auto simp: value_wf_def no_blank_ends_def)
  show ?case
    using values_start [OF v lead, of pre "[]"] value_spot [OF v lead, of "[]" "[]" pre] cstr_value [OF v, of "[]" "pre @ lead"]
      trim_back_stop(1) [OF ne, of "pre @ lead" "[]"]
    by (simp add: add.assoc)
next
  case (3 v w ws)
  then have v: "value_wf v" and lead: "\<forall>c \<in> set lead. isspace c \<or> c = CHR ''&''" by simp_all
  have ne: "v \<noteq> []" "\<not> isspace (last v)" using v by (auto simp: value_wf_def no_blank_ends_def)
  define t where "t = join_values (w # ws)"
  have IH: "values_loop (length (w # ws)) ((pre @ lead @ v @ [NUL]) @ ''& '' @ t) (length (pre @ lead @ v @ [NUL])) = Inr (map Some (w # ws))"
    unfolding t_def using "3.prems" by (intro "3.IH") (auto simp: isspace_def)
  have j: "join_values (v # w # ws) = v @ '' '' @ ''& '' @ t" by (simp add: t_def)
  show ?case
    unfolding j
    using values_start [OF v lead, of pre "'' & '' @ t"] value_spot [OF v lead, of "''& '' @ t" "'' ''" pre]
      cstr_value [OF v, of "NUL # ''& '' @ t" "pre @ lead"] trim_back_stop(2) [OF ne, of "pre @ lead" "''& '' @ t"] IH
    by (simp add: add.assoc)
qed simp

lemma value_count_free: "CHR ''&'' \<notin> set v \<Longrightarrow> value_count (v @ r) = value_count r"
  by (induction v) auto

lemma value_count_join: "vs \<noteq> [] \<Longrightarrow> \<forall>v \<in> set vs. value_wf v \<Longrightarrow> value_count (join_values vs) = length vs"
proof (induction vs rule: join_values.induct)
  case (2 v)
  then show ?case using value_count_free [of v "[]"] by (simp add: value_wf_def)
next
  case (3 v w ws)
  have "CHR ''&'' \<notin> set v" using "3.prems" by (simp add: value_wf_def)
  with 3 show ?case using value_count_free [of v "'' & '' @ join_values (w # ws)"] by simp
qed simp

subsection \<open>Properties\<close>

text \<open>
  C12. The attribute parser, which cuts a copy of the string in place with moving pointers, computes the
  reference: the string is split at every delimiter, a final delimiter opens no attribute, and each
  segment is stripped on both sides and read by itself. In particular the pointer never goes behind
  the end of the string.
\<close>

theorem attribute_parser_reference: "attrs_build lib udn s = rmap (parse_attr lib udn) (segments s)"
  by (rule attrs_build_segments)

text \<open>
  C13. An attribute list that is written as operations, types and values is read back as it was
  written: the printer's output is parsed into the same list, with the same operations.
\<close>

theorem attribute_list_roundtrip:
  assumes "xs \<noteq> []" "\<forall>x \<in> set xs. attr_wf x"
  shows "attrs_build lib udn (join_bar (map print_attr xs)) = Inr xs"
proof -
  have "CHR ''|'' \<notin> set (print_attr x) \<and> print_attr x \<noteq> []" if "x \<in> set xs" for x
    using print_attr_ends that assms(2) by (cases x) (auto simp: no_blank_ends_def)
  then have "segments (join_bar (map print_attr xs)) = map print_attr xs"
    using assms(1) by (intro segments_join_bar) auto
  then show ?thesis
    unfolding attrs_build_segments using assms(2) by (simp add: rmap_all parse_print_attr)
qed

definition no_lib :: ldap_dn_lib where
  "no_lib = \<lparr>ldap_explode_dn = (\<lambda>d. None), ldap_explode_rdn = (\<lambda>d. None)\<rparr>"

definition roundtrip_ex :: "(string \<times> string option \<times> int) list" where
  "roundtrip_ex = [(''cn'', Some ''Bob Li'', LDAP_MOD_REPLACE), (''mail'', None, LDAP_MOD_DELETE), (''sn'', Some ''x'', LDAP_MOD_BVALUES)]"

lemma roundtrip_ex_wf: "\<forall>x \<in> set roundtrip_ex. attr_wf x"
  by (simp add: roundtrip_ex_def attr_wf_def no_blank_ends_def isspace_def mod_consts print_attr_def print_ope_def
      KEYWD_RDN_def KEYWD_DN_def) code_simp

theorem attribute_list_roundtrip_witness:
  "roundtrip_ex \<noteq> [] \<and> list_all attr_wf roundtrip_ex
   \<and> join_bar (map print_attr roundtrip_ex) = ''replace:cn>Bob Li|delete:mail|sn>x''
   \<and> attrs_build no_lib None (join_bar (map print_attr roundtrip_ex)) = Inr roundtrip_ex"
proof -
  have ne: "roundtrip_ex \<noteq> []" by (simp add: roundtrip_ex_def)
  moreover have "join_bar (map print_attr roundtrip_ex) = ''replace:cn>Bob Li|delete:mail|sn>x''"
    by (simp add: roundtrip_ex_def print_attr_def print_ope_def mod_consts)
  ultimately show ?thesis using attribute_list_roundtrip [OF ne roundtrip_ex_wf] roundtrip_ex_wf by (simp add: list_all_iff)
qed

text \<open>
  C28. A list of values joined by a separator between blanks is read back as these values; the count
  that sizes the array agrees with the loop that fills it, so no element of the array is left
  unassigned, and the loop that removes trailing blanks stays in the buffer.
\<close>

theorem value_list_roundtrip:
  assumes "vs \<noteq> []" "\<forall>v \<in> set vs. value_wf v"
  shows "attrsValues_build (Some (join_values vs)) = Inr (Some (map Some vs))"
  using values_loop_join [OF assms, of "[]" "[]"] value_count_join [OF assms] by (simp add: attrsValues_build_def)

theorem value_list_roundtrip_witness:
  "value_wf ''red'' \<and> value_wf ''dark blue'' \<and> attrsValues_build (Some ''red & dark blue'') = Inr (Some [Some ''red'', Some ''dark blue''])"
  using value_list_roundtrip [of "[''red'', ''dark blue'']"] by (simp add: value_wf_def no_blank_ends_def isspace_def)

text \<open>
  With no blank before the separator the values are not separated: the end of the first value is
  not marked, so the first element of the array is the whole string.
\<close>

theorem tight_separator_kept:
  assumes "value_wf v" "value_wf w"
  shows "attrsValues_build (Some (v @ ''&'' @ w)) = Inr (Some [Some (v @ ''&'' @ w), Some w])"
proof -
  have ne: "v \<noteq> []" "\<not> isspace (last v)" using assms(1) by (auto simp: value_wf_def no_blank_ends_def)
  obtain d w' where w: "w = d # w'" using assms(2) by (cases w) (auto simp: value_wf_def no_blank_ends_def)
  have "value_count (v @ ''&'' @ w) = 2"
    using value_count_free [of v "''&'' @ w"] value_count_free [of w "[]"] assms value_wf_hd [of d w'] w by (simp add: value_wf_def)
  moreover have "cstr (v @ ''&'' @ w) 0 = v @ ''&'' @ w"
    using takeWhile_stop [of "v @ ''&'' @ w" "\<lambda>c. c \<noteq> NUL" "[]"] assms by (auto simp: cstr_def value_wf_def)
  moreover have "values_loop 1 (v @ ''&'' @ w) (length v) = Inr [Some w]"
    using values_loop_join [of "[w]" "''&''" v] assms by simp
  ultimately show ?thesis
    using values_start [OF assms(1), of "[]" "[]" "''&'' @ w"] value_spot [OF assms(1), of "[]" "''&'' @ w" "[]" "[]"]
      trim_back_stop(1) [OF ne, of "[]" "''&'' @ w"]
    by (simp add: attrsValues_build_def numeral_2_eq_2)
qed

theorem tight_separator_kept_witness:
  "value_wf ''a'' \<and> value_wf ''b'' \<and> attrsValues_build (Some ''a&b'') = Inr (Some [Some ''a&b'', Some ''b''])"
  using tight_separator_kept [of "''a''" "''b''"] by (simp add: value_wf_def no_blank_ends_def isspace_def)

end
