(* ===== verification/Tgen_Exec.thy ===== *)
theory Tgen_Exec
  imports Tgen_Scenario Tgen_Timer Tgen_LdapConn Tgen_LdapAttrs
begin

section \<open>Execution of scenarios (Src/texec.c)\<close>

text \<open>
  One pass of a worker thread: it takes an answered search, a context that is due in the timer, or a
  new scenario, and executes the actions until the scenario ends or is suspended. The state joins the
  users, the scenarios and the statistics, the timer and the lists of searches. What the servers, the
  clock, \<^verbatim>\<open>rand\<close> and \<^verbatim>\<open>malloc\<close> give for an action is a record \<open>rq_io\<close>; the execution of the RADIUS and of the
  synchronous LDAP requests is represented by its outcome there. The controls of the LDAP requests, the
  wait for the regulation, the re-opening of a broken connection after an error and the messages are
  left out.
\<close>

unbundle bit_operations_syntax

subsection \<open>State\<close>

record exec_conf =
  x_policy :: int
  tcUserGetPolicy :: int
  tcLdapTimeout :: int
  tcAbortScenario :: bool
  authTypePolicy :: int
  x_ldId :: nat
  x_verbose :: int

record exec_state =
  x_sce :: sce_state
  x_timer :: "nat timer"
  x_lists :: lstate
  stopOnError :: int
  killcalled :: bool
  x_sigint :: nat

record rq_io =
  r_rc :: int
  r_retry :: int
  r_real :: bool
  r_cmdRes :: "tCmdRes option"
  r_db :: "userdb \<Rightarrow> userdb"
  r_now :: int
  r_rand :: nat
  r_delta :: int
  r_delta1 :: int
  r_ctx :: "nat option"
  r_junk :: "nat option"
  r_elem :: bool
  r_ldSet :: bool
  r_reqCtx :: "nat option"
  r_msgid :: int
  r_errno :: int
  r_node :: "nat option"
  r_nodeJunk :: tLdapList
  r_time :: timeval
  r_abandon :: "int \<Rightarrow> int"

datatype ending = NOT_REACHED | REACHED | SUSPENDED | NOT_STARTED

text \<open>The variables of the thread that live through the actions of a pass.\<close>

record frame =
  f_user :: "user_ptr option"
  f_sce :: nat
  f_action :: nat
  f_req :: request
  f_ctx :: "nat option"
  f_reqCtx :: "nat option"
  f_first :: bool

text \<open>What the \<^verbatim>\<open>switch\<close> leaves: \<^verbatim>\<open>rc\<close>, \<^verbatim>\<open>retry\<close>, \<^verbatim>\<open>actionAsARequest\<close> and \<^verbatim>\<open>end\<close>.\<close>

record sw =
  w_rc :: int
  w_retry :: int
  w_count :: bool
  w_end :: ending

definition sw0 :: sw where
  "sw0 = \<lparr>w_rc = 0, w_retry = 0, w_count = False, w_end = NOT_REACHED\<rparr>"

definition x_users :: "exec_state \<Rightarrow> userdb" where "x_users st = s_users (x_sce st)"
definition x_sces :: "exec_state \<Rightarrow> tSce list" where "x_sces st = tsceTab (x_sce st)"

definition set_users :: "userdb \<Rightarrow> exec_state \<Rightarrow> exec_state" where
  "set_users db st = st\<lparr>x_sce := (x_sce st)\<lparr>s_users := db\<rparr>\<rparr>"

definition upd_stat :: "(tstat \<Rightarrow> tstat result) \<Rightarrow> exec_state \<Rightarrow> exec_state result" where
  "upd_stat f st = rbind (f (s_stat (x_sce st))) (\<lambda>s. Inr (st\<lparr>x_sce := (x_sce st)\<lparr>s_stat := s\<rparr>\<rparr>))"

definition upd_user :: "(tUser \<Rightarrow> tUser) \<Rightarrow> user_ptr \<Rightarrow> exec_state \<Rightarrow> exec_state" where
  "upd_user f p st = set_users (set_user p (f (user_at (x_users st) p)) (x_users st)) st"

definition upd_sce :: "(tSce \<Rightarrow> tSce) \<Rightarrow> nat \<Rightarrow> exec_state \<Rightarrow> exec_state" where
  "upd_sce f i st = st\<lparr>x_sce := (x_sce st)\<lparr>tsceTab := (x_sces st)[i := f (x_sces st ! i)]\<rparr>\<rparr>"

definition free_user :: "int \<Rightarrow> user_ptr \<Rightarrow> exec_state \<Rightarrow> exec_state result" where
  "free_user now p st = rbind (tUserFree now (tUserGetId (user_at (x_users st) p)) (x_users st)) (\<lambda>db. Inr (set_users db st))"

definition set_cmdRes :: "tCmdRes option \<Rightarrow> user_ptr \<Rightarrow> exec_state \<Rightarrow> exec_state" where
  "set_cmdRes r = upd_user (\<lambda>u. u\<lparr>cmdRes := r\<rparr>)"

subsection \<open>Counting scenarios\<close>

definition tExecScenarioEnd :: "nat \<Rightarrow> user_ptr option \<Rightarrow> int \<Rightarrow> exec_state \<Rightarrow> exec_state" where
  "tExecScenarioEnd sce user timeoutnb st =
     (let st1 = upd_sce (\<lambda>s. s\<lparr>sce_cnt := sce_cnt s + 1, sce_timeout := sce_timeout s + timeoutnb\<rparr>) sce st
      in case user of None \<Rightarrow> st1 | Some p \<Rightarrow> upd_user (\<lambda>u. u\<lparr>priv := (priv u)\<lparr>priv_cnt := priv_cnt (priv u) + 1\<rparr>\<rparr>) p st1)"

definition tExecScenarioEndKo :: "nat \<Rightarrow> user_ptr option \<Rightarrow> int \<Rightarrow> exec_state \<Rightarrow> exec_state" where
  "tExecScenarioEndKo sce user timeoutnb st =
     tExecScenarioEnd sce user timeoutnb (upd_sce (\<lambda>s. s\<lparr>sce_ko := sce_ko s + 1\<rparr>) sce st)"

subsection \<open>Asynchronous search (Src/tldap.c)\<close>

definition LDAP_CONNECT_ERROR :: int where "LDAP_CONNECT_ERROR = -11"
definition LDAP_NO_MEMORY :: int where "LDAP_NO_MEMORY = -10"

definition build_attrs :: "ldap_dn_lib \<Rightarrow> string option \<Rightarrow> (string \<times> string option \<times> int) list result" where
  "build_attrs lib s = (case s of None \<Rightarrow> Inl NullDeref | Some a \<Rightarrow> attrs_build lib None a)"

definition build_cmds :: "ldap_dn_lib \<Rightarrow> string option \<Rightarrow> (string \<times> string option \<times> int) list result" where
  "build_cmds lib s = (case s of None \<Rightarrow> Inl NullDeref | Some [] \<Rightarrow> Inr [] | Some a \<Rightarrow> attrs_build lib None a)"

text \<open>
  The test of \<^verbatim>\<open>ld\<close> at the start reads an uninitialised variable, whose content is \<^term>\<open>r_ldSet\<close>. The context of
  the request is linked to the sleeping context before the search is sent.
\<close>

definition tLdap_SearchRequest_async ::
  "exec_conf \<Rightarrow> ldap_dn_lib \<Rightarrow> rq_io \<Rightarrow> string option \<Rightarrow> string option \<Rightarrow> nat \<Rightarrow> lstate \<Rightarrow> (int \<times> lstate) result" where
  "tLdap_SearchRequest_async cf lib io attr_list cmd_list ctx s =
     (if \<not> r_ldSet io then Inr (LDAP_CONNECT_ERROR, s)
      else (case r_reqCtx io of
        None \<Rightarrow> Inr (LDAP_NO_MEMORY, s)
      | Some a \<Rightarrow>
          (case sleeps s ctx of
             None \<Rightarrow> Inl UseAfterFree
           | Some c \<Rightarrow>
               rbind (build_attrs lib attr_list) (\<lambda>ats. rbind (build_cmds lib cmd_list) (\<lambda>cs.
                 let rq = \<lparr>rq_attrs = ats, rq_cmds = cs, ctrls = None, res = None, ctx_rc = 0, ctx_time = r_time io\<rparr>;
                     s1 = s\<lparr>sleeps := (sleeps s)(ctx \<mapsto> c\<lparr>sl_req := Some a\<rparr>), reqs := (reqs s)(a \<mapsto> rq)\<rparr>
                 in if r_msgid io = -1 then Inr (r_errno io, s1)
                    else insert_Request (x_verbose cf) (r_node io) (r_nodeJunk io) (x_ldId cf) (r_msgid io) ctx s1)))))"

subsection \<open>The actions\<close>

text \<open>
  Each handler is one \<^verbatim>\<open>case\<close> of the \<^verbatim>\<open>switch\<close> in \<^verbatim>\<open>tExec\<close>. The user of the frame is dereferenced where the code
  does; a result \<^term>\<open>None\<close> is a search for a user that does not end.
\<close>

definition frame_user :: "frame \<Rightarrow> user_ptr result" where
  "frame_user fr = (case f_user fr of None \<Rightarrow> Inl NullDeref | Some p \<Rightarrow> Inr p)"

definition exec_begin :: "exec_conf \<Rightarrow> rq_io \<Rightarrow> frame \<Rightarrow> exec_state \<Rightarrow> (sw \<times> frame \<times> exec_state) result option" where
  "exec_begin cf io fr st =
     rseq (tUserGetRandomly (tcUserGetPolicy cf) (int (r_rand io)) (r_now io) (killcalled st) (x_sces st) (Some (f_sce fr)) (x_users st))
       (\<lambda>(up, sigint, db).
          let st1 = (set_users db st)\<lparr>x_sigint := x_sigint st + (if sigint then 1 else 0)\<rparr>
          in case up of
               None \<Rightarrow> Some (Inr (sw0\<lparr>w_rc := 255, w_end := NOT_STARTED\<rparr>, fr\<lparr>f_user := None\<rparr>, st1))
             | Some p \<Rightarrow> Some (Inr (sw0, fr\<lparr>f_user := Some p\<rparr>,
                          set_cmdRes (tAction_freeCmdRes (cmdRes (user_at db p))) p st1)))"

text \<open>\<^verbatim>\<open>KEYWD_RAND\<close> and \<^verbatim>\<open>KEYWD_VALUE\<close> of texec.h.\<close>

definition KEYWD_RAND :: string where "KEYWD_RAND = ''_RAND_''"
definition KEYWD_VALUE :: string where "KEYWD_VALUE = ''_VALUE_''"

definition scan_dd :: "string \<Rightarrow> (int \<times> int) option" where
  "scan_dd s = (case scan_d s of None \<Rightarrow> None | Some (a, r) \<Rightarrow> map_option (\<lambda>(b, _). (a, b)) (scan_d r))"

text \<open>
  The variable \<^verbatim>\<open>wait\<close> of \<^verbatim>\<open>SCE_Wait\<close>, \<^term>\<open>None\<close> when it has no value. The return code that the range checks set is
  overwritten by the call of \<^verbatim>\<open>tTimerSetUserToSleep\<close>, so a checked value that is out of range is still used.
\<close>

definition wait_time :: "int \<Rightarrow> nat \<Rightarrow> tAction \<Rightarrow> int option result" where
  "wait_time wmax rnd act =
     (if attrs act \<noteq> None \<and> cmds act = Some KEYWD_RAND then
        (case scan_dd (the (attrs act)) of
           None \<Rightarrow> Inr None
         | Some (imin, imax) \<Rightarrow>
             if 0 < imin \<and> imin \<le> wmax \<and> 0 < imax \<and> imax \<le> wmax \<and> imin \<le> imax
             then if imin = imax then Inl DivByZero else Inr (Some (int rnd mod (imax - imin) + imin))
             else Inr None)
      else if attrs act \<noteq> None \<and> cmds act = Some KEYWD_VALUE then
        Inr (map_option fst (scan_d (the (attrs act))))
      else Inr None)"

definition new_ctx :: "nat \<Rightarrow> nat option \<Rightarrow> frame \<Rightarrow> exec_state \<Rightarrow> exec_state" where
  "new_ctx p junk fr st = st\<lparr>x_lists := (x_lists st)\<lparr>sleeps := (sleeps (x_lists st))
     (p \<mapsto> \<lparr>sl_req = junk, sl_user = f_user fr, sl_sce = f_sce fr, sl_action = f_action fr\<rparr>)\<rparr>\<rparr>"

definition free_ctx :: "nat \<Rightarrow> exec_state \<Rightarrow> exec_state" where
  "free_ctx p st = st\<lparr>x_lists := (x_lists st)\<lparr>sleeps := (sleeps (x_lists st))(p := None)\<rparr>\<rparr>"

definition exec_wait :: "rq_io \<Rightarrow> tAction \<Rightarrow> frame \<Rightarrow> exec_state \<Rightarrow> (sw \<times> frame \<times> exec_state) result" where
  "exec_wait io act fr st =
     (case r_ctx io of
        None \<Rightarrow> Inr (sw0\<lparr>w_rc := 1, w_end := SUSPENDED\<rparr>, fr, st)
      | Some p \<Rightarrow>
          rbind (wait_time (tTimerGetMaxSleepTime (x_timer st)) (r_rand io) act) (\<lambda>w.
            case w of
              None \<Rightarrow> Inl Uninit
            | Some wait \<Rightarrow>
                rbind (tTimerSetUserToSleep (r_elem io) (Some p) wait (x_timer st)) (\<lambda>(rc, t).
                  Inr (sw0\<lparr>w_rc := rc, w_end := SUSPENDED\<rparr>, fr\<lparr>f_ctx := Some p\<rparr>, (new_ctx p (r_junk io) fr st)\<lparr>x_timer := t\<rparr>))))"

definition exec_end :: "rq_io \<Rightarrow> frame \<Rightarrow> exec_state \<Rightarrow> (sw \<times> frame \<times> exec_state) result" where
  "exec_end io fr st =
     rbind (case f_user fr of None \<Rightarrow> Inr st | Some p \<Rightarrow> free_user (r_now io) p st) (\<lambda>st1.
       Inr (sw0\<lparr>w_end := REACHED\<rparr>, fr, st1))"

definition exec_bind :: "rq_io \<Rightarrow> frame \<Rightarrow> exec_state \<Rightarrow> (sw \<times> frame \<times> exec_state) result" where
  "exec_bind io fr st = Inr (sw0\<lparr>w_rc := r_rc io, w_count := r_real io\<rparr>, fr, st)"

text \<open>The arguments of a search: base, scope and filter of the user.\<close>

definition search_args :: "user_ptr \<Rightarrow> exec_state \<Rightarrow> unit result" where
  "search_args p st = rbind (tUserGetBase (user_at (x_users st) p)) (\<lambda>_.
     rbind (tUserGetScope (user_at (x_users st) p)) (\<lambda>_. rbind (tUserGetFilter (user_at (x_users st) p)) (\<lambda>_. Inr ())))"

definition exec_search_sync :: "rq_io \<Rightarrow> frame \<Rightarrow> exec_state \<Rightarrow> (sw \<times> frame \<times> exec_state) result" where
  "exec_search_sync io fr st =
     rbind (frame_user fr) (\<lambda>p. rbind (search_args p st) (\<lambda>_.
       Inr (sw0\<lparr>w_rc := r_rc io, w_retry := (if r_rc io = LDAP_TIMEOUT then 1 else 0), w_count := True\<rparr>, fr,
            set_cmdRes (r_cmdRes io) p st)))"

definition exec_search_async :: "exec_conf \<Rightarrow> ldap_dn_lib \<Rightarrow> rq_io \<Rightarrow> tAction \<Rightarrow> frame \<Rightarrow> exec_state \<Rightarrow> (sw \<times> frame \<times> exec_state) result" where
  "exec_search_async cf lib io act fr st =
     rbind (frame_user fr) (\<lambda>p.
     rbind (case r_ctx io of
              None \<Rightarrow> Inr (1, fr, st)
            | Some c \<Rightarrow>
                rbind (tTimerSetUserToSleep (r_elem io) (Some c) (tcLdapTimeout cf) (x_timer st)) (\<lambda>(_, t).
                rbind (search_args p st) (\<lambda>_.
                let st1 = (new_ctx c (r_junk io) fr st)\<lparr>x_timer := t\<rparr>
                in rbind (tLdap_SearchRequest_async cf lib io (attrs act) (cmds act) c (x_lists st1)) (\<lambda>(rc, ls).
                   Inr (rc, fr\<lparr>f_ctx := Some c\<rparr>, st1\<lparr>x_lists := ls\<rparr>))))) (\<lambda>(rc, fr1, st1).
       if rc = 0 then Inr (sw0\<lparr>w_end := SUSPENDED\<rparr>, fr1, st1)
       else Inr (sw0\<lparr>w_rc := rc, w_retry := (if rc = LDAP_TIMEOUT then 1 else 0), w_count := True\<rparr>, fr1, set_cmdRes None p st1)))"

text \<open>\<^verbatim>\<open>LDAP_Search_Resp\<close>: the answer, or the time limit, of a search. The context of the request is freed.\<close>

definition exec_search_resp :: "exec_conf \<Rightarrow> rq_io \<Rightarrow> frame \<Rightarrow> exec_state \<Rightarrow> (sw \<times> frame \<times> exec_state) result option" where
  "exec_search_resp cf io fr st =
     (case f_reqCtx fr of
        None \<Rightarrow> Some (Inl NullDeref)
      | Some a \<Rightarrow>
          (case reqs (x_lists st) a of
             None \<Rightarrow> Some (Inl UseAfterFree)
           | Some rq \<Rightarrow>
               rseq (if ctx_rc rq = LDAP_TIMEOUT
                     then (case f_ctx fr of
                             None \<Rightarrow> Some (Inl NullDeref)
                           | Some c \<Rightarrow> rseq (getAndRemove_Request (r_abandon io) (x_ldId cf) c (x_lists st)) (\<lambda>(_, ls).
                               Some (Inr (0, 1, free_ctx c (st\<lparr>x_lists := ls\<rparr>)))))
                     else Some (rbind (frame_user fr) (\<lambda>p. rbind (search_args p st) (\<lambda>_.
                            Inr (r_rc io, 0, set_cmdRes (r_cmdRes io) p st))))) (\<lambda>(rc, retry, st1).
                 Some (Inr (sw0\<lparr>w_rc := rc, w_retry := retry, w_count := True\<rparr>, fr,
                   st1\<lparr>x_lists := (x_lists st1)\<lparr>reqs := (reqs (x_lists st1))(a := None)\<rparr>\<rparr>)))))"

text \<open>\<^verbatim>\<open>LDAP_Modify_Rq\<close>, \<^verbatim>\<open>LDAP_Add_Rq\<close> and \<^verbatim>\<open>LDAP_Delete_Rq\<close>; a modification drops the result of the last command.\<close>

definition exec_update :: "bool \<Rightarrow> rq_io \<Rightarrow> frame \<Rightarrow> exec_state \<Rightarrow> (sw \<times> frame \<times> exec_state) result" where
  "exec_update modify io fr st =
     rbind (frame_user fr) (\<lambda>p. rbind (tUserGetBase (user_at (x_users st) p)) (\<lambda>_.
       Inr (sw0\<lparr>w_rc := r_rc io, w_count := True\<rparr>, fr, if modify then set_cmdRes None p st else st)))"

text \<open>RADIUS requests. A user that an accounting request aborted leaves the scenario as at its end.\<close>

definition AUTHTYPE_NONE :: int where "AUTHTYPE_NONE = 0"
definition RADIUS_AUTHTYPE_DISTRIB :: int where "RADIUS_AUTHTYPE_DISTRIB = 2"
definition KEYWD_PREPAID :: string where "KEYWD_PREPAID = ''_CreditSession_''"
definition KEYWD_BEINGOFSESSION :: string where "KEYWD_BEINGOFSESSION = ''_BOS_''"
definition KEYWD_SESSIONCONTINUE :: string where "KEYWD_SESSIONCONTINUE = ''_SC_''"

definition tRadiusAuthTypeGet :: "nat \<Rightarrow> userdb \<Rightarrow> int result" where
  "tRadiusAuthTypeGet rnd db = (if rnd mod 100 < length (radAuthTypeTab db) then Inr (radAuthTypeTab db ! (rnd mod 100)) else Inl OutOfBounds)"

text \<open>EAP-SIM, EAP-TTLS, EAP-AKA and EAP-TLS count their requests themselves.\<close>

definition eap_type :: "int \<Rightarrow> bool" where
  "eap_type t \<longleftrightarrow> t \<in> {6, 8, 9, 10}"

definition leave_aborted :: "rq_io \<Rightarrow> user_ptr \<Rightarrow> frame \<Rightarrow> exec_state \<Rightarrow> (sw \<times> frame \<times> exec_state) result" where
  "leave_aborted io p fr st = rbind (free_user (r_now io) p st) (\<lambda>st1. Inr (sw0\<lparr>w_end := REACHED\<rparr>, fr, st1))"

definition bad_flags :: "string \<Rightarrow> tAction \<Rightarrow> bool" where
  "bad_flags kw act \<longleftrightarrow> attrs act \<noteq> None \<and> cmds act = Some kw \<and> scan_dd (the (attrs act)) = None"

definition exec_auth :: "exec_conf \<Rightarrow> rq_io \<Rightarrow> tAction \<Rightarrow> frame \<Rightarrow> exec_state \<Rightarrow> (sw \<times> frame \<times> exec_state) result" where
  "exec_auth cf io act fr st =
     rbind (frame_user fr) (\<lambda>p.
     rbind (tUserIsAborted (tUserGetId (user_at (x_users st) p)) (x_users st)) (\<lambda>ab.
       if ab then leave_aborted io p fr st
       else rbind (if authTypePolicy cf = RADIUS_AUTHTYPE_DISTRIB then tRadiusAuthTypeGet (r_rand io) (x_users st)
                   else tUserGetAuthType (user_at (x_users st) p)) (\<lambda>ty.
              if ty = AUTHTYPE_NONE then Inr (sw0\<lparr>w_rc := (if bad_flags KEYWD_PREPAID act then 1 else 0)\<rparr>, fr, st)
              else (let st1 = set_users (r_db io (x_users st)) st; w = sw0\<lparr>w_rc := r_rc io, w_retry := r_retry io\<rparr>
                    in if eap_type ty
                       then rbind (upd_stat (tStatActionTime (requestId act) (r_rc io \<noteq> 0) (r_retry io) (r_delta1 io) (r_delta io)) st1) (\<lambda>st2. Inr (w, fr, st2))
                       else Inr (w\<lparr>w_count := True\<rparr>, fr, st1)))))"

text \<open>The relocation flag of an accounting request: 0, or the second number of the attributes.\<close>

definition acct_relocation :: "tAction \<Rightarrow> bool" where
  "acct_relocation act =
     (if attrs act \<noteq> None \<and> (requestId act = RADIUS_AccountStart_Rq \<and> cmds act = Some KEYWD_BEINGOFSESSION
            \<or> requestId act = RADIUS_AccountStop_Rq \<and> cmds act = Some KEYWD_SESSIONCONTINUE)
      then (case scan_dd (the (attrs act)) of None \<Rightarrow> False | Some (_, r) \<Rightarrow> r \<noteq> 0) else False)"

definition exec_account :: "rq_io \<Rightarrow> tAction \<Rightarrow> frame \<Rightarrow> exec_state \<Rightarrow> (sw \<times> frame \<times> exec_state) result" where
  "exec_account io act fr st =
     rbind (frame_user fr) (\<lambda>p.
     rbind (tUserIsAborted (tUserGetId (user_at (x_users st) p)) (x_users st)) (\<lambda>ab.
       if ab then leave_aborted io p fr st
       else (let st1 = set_users (r_db io (x_users st)) st; w = sw0\<lparr>w_rc := r_rc io, w_retry := r_retry io, w_count := True\<rparr>
             in if r_rc io = 0 \<and> requestId act = RADIUS_AccountStart_Rq
                then rbind (tUserSetSessionStartTime (r_now io) (acct_relocation act) (user_at (x_users st1) p)) (\<lambda>u.
                       Inr (w, fr, upd_user (\<lambda>_. u) p st1))
                else Inr (w, fr, st1))))"

definition acct_requests :: "request list" where
  "acct_requests = [RADIUS_AccountStart_Rq, RADIUS_AccountInterim_Rq, RADIUS_AccountStop_Rq, RADIUS_AccountOn_Rq, RADIUS_AccountOff_Rq]"

definition exec_switch :: "exec_conf \<Rightarrow> ldap_dn_lib \<Rightarrow> rq_io \<Rightarrow> tAction \<Rightarrow> frame \<Rightarrow> exec_state \<Rightarrow> (sw \<times> frame \<times> exec_state) result option" where
  "exec_switch cf lib io act fr st =
     (case f_req fr of
        SCE_Begin \<Rightarrow> exec_begin cf io fr st
      | SCE_Wait \<Rightarrow> Some (exec_wait io act fr st)
      | SCE_End \<Rightarrow> Some (exec_end io fr st)
      | LDAP_Bind_Rq \<Rightarrow> Some (exec_bind io fr st)
      | LDAP_UnBind_Rq \<Rightarrow> Some (exec_bind io fr st)
      | LDAP_Search_Rq \<Rightarrow> Some (if x_policy cf = LDAP_SES_POLICY_GLOBAL then exec_search_async cf lib io act fr st
                                 else exec_search_sync io fr st)
      | LDAP_Search_Resp \<Rightarrow> exec_search_resp cf io fr st
      | LDAP_Modify_Rq \<Rightarrow> Some (exec_update True io fr st)
      | LDAP_Add_Rq \<Rightarrow> Some (exec_update False io fr st)
      | LDAP_Delete_Rq \<Rightarrow> Some (exec_update False io fr st)
      | RADIUS_Auth_Rq \<Rightarrow> Some (exec_auth cf io act fr st)
      | RADIUS_AuthWP_Rq \<Rightarrow> Some (exec_auth cf io act fr st)
      | rq \<Rightarrow> if rq \<in> set acct_requests then Some (exec_account io act fr st) else Some (Inr (sw0, fr, st)))"

subsection \<open>After an action\<close>

definition count_action :: "rq_io \<Rightarrow> tAction \<Rightarrow> sw \<Rightarrow> exec_state \<Rightarrow> exec_state result" where
  "count_action io act w st =
     (if w_count w
      then upd_stat (\<lambda>s. tStatActionTime (requestId act) (w_rc w \<noteq> 0) (w_retry w) 0 (r_delta io) (tStatCount s)) st
      else Inr st)"

text \<open>
  The treatment of an error: the scenario is counted as failed once per pass, the run may be stopped,
  and with \<^verbatim>\<open>tcAbortScenario\<close> the scenario is given up. The first component tells to leave the loop.
\<close>

definition stop_run :: "exec_state \<Rightarrow> exec_state" where
  "stop_run st = (if stopOnError st AND 1 \<noteq> 0
     then st\<lparr>stopOnError := stopOnError st AND 254, x_sigint := x_sigint st + (if killcalled st then 0 else 1)\<rparr> else st)"

definition treat_error :: "exec_conf \<Rightarrow> rq_io \<Rightarrow> sw \<Rightarrow> frame \<Rightarrow> exec_state \<Rightarrow> (bool \<times> frame \<times> exec_state) result" where
  "treat_error cf io w fr st =
     (if w_rc w = 0 then Inr (False, fr, st)
      else if w_end w = NOT_STARTED then Inr (True, fr, st)
      else (let st1 = stop_run (if f_first fr then tExecScenarioEndKo (f_sce fr) (f_user fr) (w_retry w) st else st);
                fr1 = fr\<lparr>f_first := False\<rparr>
            in if tcAbortScenario cf
               then rbind (case f_user fr of None \<Rightarrow> Inr st1 | Some p \<Rightarrow> free_user (r_now io) p st1) (\<lambda>st2. Inr (True, fr1, st2))
               else Inr (False, fr1, st1)))"

text \<open>
  The loop over the actions that are left; after the last one it reads behind the array. The
  value read there when the scenario has ended is not used, so the next action is read only if
  the loop goes on.
\<close>

fun exec_loop :: "exec_conf \<Rightarrow> ldap_dn_lib \<Rightarrow> (nat \<Rightarrow> rq_io) \<Rightarrow> tAction list \<Rightarrow> frame \<Rightarrow> exec_state
    \<Rightarrow> (ending \<times> int \<times> frame \<times> exec_state) result option" where
  "exec_loop cf lib ios [] fr st = Some (Inl OutOfBounds)"
| "exec_loop cf lib ios (act # acts) fr st =
     rseq (exec_switch cf lib (ios (f_action fr)) act fr st) (\<lambda>(w, fr1, st1).
     rseq (Some (count_action (ios (f_action fr)) act w st1)) (\<lambda>st2.
     rseq (Some (treat_error cf (ios (f_action fr)) w fr1 st2)) (\<lambda>(leave, fr3, st3).
       if leave \<or> w_end w \<noteq> NOT_REACHED then Some (Inr (w_end w, w_retry w, fr3, st3))
       else (case acts of
               [] \<Rightarrow> Some (Inl OutOfBounds)
             | next # _ \<Rightarrow> exec_loop cf lib ios acts (fr3\<lparr>f_action := Suc (f_action fr), f_req := requestId next\<rparr>) st3))))"

definition exec_pass :: "exec_conf \<Rightarrow> ldap_dn_lib \<Rightarrow> (nat \<Rightarrow> rq_io) \<Rightarrow> frame \<Rightarrow> exec_state \<Rightarrow> exec_state result option" where
  "exec_pass cf lib ios fr st =
     rseq (exec_loop cf lib ios (drop (f_action fr) (sce_action (x_sces st ! f_sce fr))) fr st) (\<lambda>(en, retry, fr1, st1).
       Some (Inr (if en = REACHED \<and> f_first fr1 then tExecScenarioEnd (f_sce fr1) (f_user fr1) retry st1 else st1)))"

subsection \<open>Choosing what to do\<close>

text \<open>The result of the choice: wait or go on with the loop, finish the thread, or execute from a frame.\<close>

datatype choice = Continue | Finish | Run frame

definition action_at :: "exec_state \<Rightarrow> nat \<Rightarrow> nat \<Rightarrow> tAction result" where
  "action_at st sce i = (if sce < length (x_sces st) \<and> i < length (sce_action (x_sces st ! sce))
     then Inr (sce_action (x_sces st ! sce) ! i) else Inl OutOfBounds)"

definition set_ctx_req :: "nat \<Rightarrow> tSleep \<Rightarrow> exec_state \<Rightarrow> exec_state" where
  "set_ctx_req c sl st = st\<lparr>x_lists := (x_lists st)\<lparr>sleeps := (sleeps (x_lists st))(c \<mapsto> sl\<lparr>sl_req := None\<rparr>)\<rparr>\<rparr>"

text \<open>An answered search; \<open>old\<close> is the request id left by the last pass, used when there is no context of a request.\<close>

definition resume_response :: "request \<Rightarrow> nat \<Rightarrow> exec_state \<Rightarrow> (choice \<times> exec_state) result" where
  "resume_response old c st =
     (case sleeps (x_lists st) c of
        None \<Rightarrow> Inl UseAfterFree
      | Some sl \<Rightarrow>
          Inr (Run \<lparr>f_user = sl_user sl, f_sce = sl_sce sl, f_action = sl_action sl,
                 f_req = (if sl_req sl \<noteq> None then LDAP_Search_Resp else old), f_ctx = Some c, f_reqCtx = sl_req sl, f_first = True\<rparr>,
               if sl_req sl \<noteq> None then set_ctx_req c sl st else st))"

text \<open>A context that is due: the end of a wait, the time limit of a search, or a search that was answered.\<close>

definition resume_timer :: "nat \<Rightarrow> exec_state \<Rightarrow> (choice \<times> exec_state) result" where
  "resume_timer c st =
     (case sleeps (x_lists st) c of
        None \<Rightarrow> Inl UseAfterFree
      | Some sl \<Rightarrow>
          rbind (action_at st (sl_sce sl) (sl_action sl)) (\<lambda>act.
            if requestId act = SCE_Wait then
              rbind (action_at st (sl_sce sl) (Suc (sl_action sl))) (\<lambda>next.
                Inr (Run \<lparr>f_user = sl_user sl, f_sce = sl_sce sl, f_action = Suc (sl_action sl), f_req = requestId next,
                       f_ctx = Some c, f_reqCtx = sl_req sl, f_first = True\<rparr>, free_ctx c st))
            else (case sl_req sl of
                    None \<Rightarrow> Inr (Continue, free_ctx c st)
                  | Some a \<Rightarrow>
                      (case reqs (x_lists st) a of
                         None \<Rightarrow> Inl UseAfterFree
                       | Some rq \<Rightarrow>
                           Inr (Run \<lparr>f_user = sl_user sl, f_sce = sl_sce sl, f_action = sl_action sl, f_req = LDAP_Search_Resp,
                                  f_ctx = Some c, f_reqCtx = Some a, f_first = True\<rparr>,
                                (set_ctx_req c sl st)\<lparr>x_lists := (x_lists (set_ctx_req c sl st))
                                   \<lparr>reqs := (reqs (x_lists st))(a \<mapsto> rq\<lparr>ctx_rc := LDAP_TIMEOUT\<rparr>)\<rparr>\<rparr>)))))"

text \<open>One turn of the outer loop up to the scenario; \<open>old\<close> is the frame left by the last pass.\<close>

definition exec_choose :: "exec_conf \<Rightarrow> tThreadState \<Rightarrow> nat \<Rightarrow> frame \<Rightarrow> exec_state \<Rightarrow> (choice \<times> exec_state) result" where
  "exec_choose cf state rnd old st =
     rbind (getAndRemove_firstResponse (x_verbose cf) (x_ldId cf) (x_lists st)) (\<lambda>(resp, ls).
       let st1 = st\<lparr>x_lists := ls\<rparr>
       in case resp of
            Some c \<Rightarrow> resume_response (f_req old) c st1
          | None \<Rightarrow>
              rbind (tTimerGetUserToResume (x_timer st1)) (\<lambda>(due, t).
                let st2 = st1\<lparr>x_timer := t\<rparr>
                in case due of
                     Some c \<Rightarrow> resume_timer c st2
                   | None \<Rightarrow>
                       if state = ENDING then Inr (Continue, st2)
                       else if state = ENDING2 then Inr (Finish, st2)
                       else (case tSceGet rnd (x_sce st2) of
                               None \<Rightarrow> Inl NullDeref
                             | Some sce \<Rightarrow>
                                 rbind (action_at st2 sce 0) (\<lambda>act.
                                   Inr (Run (old\<lparr>f_sce := sce, f_action := 0, f_req := requestId act, f_first := True\<rparr>), st2)))))"

subsection \<open>The user of a pass\<close>

text \<open>A user whose index leads back to it and whose parts are allocated.\<close>

definition user_ok :: "userdb \<Rightarrow> user_ptr \<Rightarrow> bool" where
  "user_ok db p \<longleftrightarrow> valid_ptr db p \<and> tUserGet (tUserGetId (user_at db p)) db = Inr p
     \<and> ldapE (user_at db p) \<noteq> None \<and> auth (user_at db p) \<noteq> None \<and> sess (user_at db p) \<noteq> None \<and> length (radAuthTypeTab db) = 100"

definition is_idle :: "userdb \<Rightarrow> user_ptr \<Rightarrow> bool" where
  "is_idle db p \<longleftrightarrow> exeState (priv (user_at db p)) = exeState_IDLE"

lemma x_users_simps [simp]:
  "x_users (set_users db st) = db" "x_sces (set_users db st) = x_sces st"
  "x_users (st\<lparr>x_sigint := n\<rparr>) = x_users st" "x_sces (st\<lparr>x_sigint := n\<rparr>) = x_sces st"
  "x_users (st\<lparr>stopOnError := m\<rparr>) = x_users st" "x_sces (st\<lparr>stopOnError := m\<rparr>) = x_sces st"
  "x_users (upd_sce f i st) = x_users st" "x_sces (upd_sce f i st) = (x_sces st)[i := f (x_sces st ! i)]"
  "x_sces (upd_user g p st) = x_sces st" "x_users (upd_user g p st) = set_user p (g (user_at (x_users st) p)) (x_users st)"
  by (simp_all add: x_users_def x_sces_def set_users_def upd_sce_def upd_user_def)

lemma x_users_stop_run [simp]: "x_users (stop_run st) = x_users st" "x_sces (stop_run st) = x_sces st"
  by (simp_all add: stop_run_def)

lemma user_ok_set_user:
  assumes "user_ok db p" "priv_id (priv u) = priv_id (priv (user_at db p))" "ldapE u \<noteq> None" "auth u \<noteq> None" "sess u \<noteq> None"
  shows "user_ok (set_user p u db) p" "user_at (set_user p u db) p = u"
  using assms by (cases p; auto simp: user_ok_def valid_ptr_def tUserGetId_def tUserGet_def)+

text \<open>Two states with the same users and scenarios.\<close>

definition same_us :: "exec_state \<Rightarrow> exec_state \<Rightarrow> bool" where
  "same_us st st' \<longleftrightarrow> x_users st' = x_users st \<and> x_sces st' = x_sces st"

lemma set_cmdRes_ok:
  assumes "user_ok (x_users st) p"
  shows "user_ok (x_users (set_cmdRes r p st)) p" "x_sces (set_cmdRes r p st) = x_sces st"
  using user_ok_set_user(1) [OF assms, of "(user_at (x_users st) p)\<lparr>cmdRes := r\<rparr>"] assms by (simp_all add: set_cmdRes_def user_ok_def)

lemma free_user_ok:
  assumes "user_ok (x_users st) p"
  shows "\<exists>st'. free_user now p st = Inr st' \<and> user_ok (x_users st') p \<and> is_idle (x_users st') p \<and> x_sces st' = x_sces st"
proof -
  let ?u = "user_at (x_users st) p"
  let ?v = "?u\<lparr>priv := (priv ?u)\<lparr>exeState := exeState_IDLE, lastTime := now\<rparr>\<rparr>"
  have "free_user now p st = Inr (set_users (set_user p ?v (x_users st)) st)"
    using assms by (simp add: free_user_def tUserFree_def set_state_def user_ok_def Let_def)
  with user_ok_set_user [OF assms, of ?v] assms show ?thesis by (simp add: user_ok_def is_idle_def)
qed

lemma tStatActionTime_ok: "reqId \<noteq> SCE_End \<Longrightarrow> \<exists>s'. tStatActionTime reqId ko retry usec delta s = Inr s'"
  by (simp add: tStatActionTime_def Let_def)

lemma upd_stat_ok: "\<exists>s'. f (s_stat (x_sce st)) = Inr s' \<Longrightarrow> \<exists>st'. upd_stat f st = Inr st' \<and> same_us st st'"
  by (auto simp: upd_stat_def same_us_def x_users_def x_sces_def)

lemma count_action_ok:
  assumes "w_count w \<longrightarrow> requestId act \<noteq> SCE_End"
  shows "\<exists>st'. count_action io act w st = Inr st' \<and> same_us st st'"
proof (cases "w_count w")
  case True
  then show ?thesis
    unfolding count_action_def using assms by (simp add: upd_stat_ok tStatActionTime_ok)
qed (simp add: count_action_def same_us_def)

definition ldap_action :: "tAction \<Rightarrow> bool" where
  "ldap_action act \<longleftrightarrow> requestId act \<in> {LDAP_Bind_Rq, LDAP_UnBind_Rq, LDAP_Search_Rq, LDAP_Modify_Rq, LDAP_Add_Rq, LDAP_Delete_Rq}"

text \<open>The actions that end in the same pass.\<close>

definition sync_action :: "exec_conf \<Rightarrow> tAction \<Rightarrow> bool" where
  "sync_action cf act \<longleftrightarrow> requestId act \<notin> {SCE_Begin, SCE_Wait, SCE_End, LDAP_Search_Resp}
     \<and> (requestId act = LDAP_Search_Rq \<longrightarrow> x_policy cf \<noteq> LDAP_SES_POLICY_GLOBAL)"

text \<open>What an action of a pass leaves: it goes on, or the user was aborted and is released.\<close>

definition step_ok :: "user_ptr \<Rightarrow> exec_state \<Rightarrow> sw \<Rightarrow> exec_state \<Rightarrow> bool" where
  "step_ok p st w st' \<longleftrightarrow> user_ok (x_users st') p \<and> x_sces st' = x_sces st
     \<and> (w_end w = NOT_REACHED \<or> w_end w = REACHED \<and> w_rc w = 0 \<and> is_idle (x_users st') p)"

lemma search_args_ok: "user_ok (x_users st) p \<Longrightarrow> search_args p st = Inr ()"
  by (auto simp: search_args_def user_ok_def tUserGetBase_def tUserGetScope_def tUserGetFilter_def tUserGetDN_def deref_def
      split: option.splits)

lemma base_ok: "user_ok db p \<Longrightarrow> \<exists>b. tUserGetBase (user_at db p) = Inr b"
  by (auto simp: user_ok_def tUserGetBase_def tUserGetDN_def deref_def split: option.splits)

lemma aborted_ok: "user_ok db p \<Longrightarrow> tUserIsAborted (tUserGetId (user_at db p)) db = Inr (exeState (priv (user_at db p)) = exeState_ABORT)"
  by (simp add: tUserIsAborted_def user_ok_def)

lemma leave_aborted_ok:
  assumes "user_ok (x_users st) p"
  shows "\<exists>w st'. leave_aborted io p fr st = Inr (w, fr, st') \<and> step_ok p st w st'"
  using free_user_ok [OF assms, of "r_now io"] by (auto simp: leave_aborted_def step_ok_def sw0_def)

lemma auth_type_ok:
  "user_ok db p \<Longrightarrow> \<exists>ty. (if q then tRadiusAuthTypeGet rnd db else tUserGetAuthType (user_at db p)) = Inr ty"
  by (auto simp: user_ok_def tRadiusAuthTypeGet_def tUserGetAuthType_def deref_def)

lemma exec_auth_ok:
  assumes ok: "user_ok (x_users st) p" and fr: "f_user fr = Some p" and r: "user_ok (r_db io (x_users st)) p" and act: "requestId act \<noteq> SCE_End"
  shows "\<exists>w st'. exec_auth cf io act fr st = Inr (w, fr, st') \<and> step_ok p st w st'"
proof (cases "exeState (priv (user_at (x_users st) p)) = exeState_ABORT")
  case True
  then show ?thesis using leave_aborted_ok [OF ok] by (simp add: exec_auth_def frame_user_def fr aborted_ok [OF ok])
next
  case False
  obtain ty where ty: "(if authTypePolicy cf = RADIUS_AUTHTYPE_DISTRIB then tRadiusAuthTypeGet (r_rand io) (x_users st)
      else tUserGetAuthType (user_at (x_users st) p)) = Inr ty" using auth_type_ok [OF ok] by blast
  let ?st = "set_users (r_db io (x_users st)) st"
  obtain st2 where st2: "upd_stat (tStatActionTime (requestId act) (r_rc io \<noteq> 0) (r_retry io) (r_delta1 io) (r_delta io)) ?st = Inr st2" "same_us ?st st2"
    using upd_stat_ok [of "tStatActionTime (requestId act) (r_rc io \<noteq> 0) (r_retry io) (r_delta1 io) (r_delta io)" ?st] tStatActionTime_ok [OF act] by blast
  show ?thesis
    using False ty st2 r ok
    by (simp add: exec_auth_def frame_user_def fr aborted_ok [OF ok] Let_def step_ok_def sw0_def same_us_def)
qed

lemma exec_account_ok:
  assumes ok: "user_ok (x_users st) p" and fr: "f_user fr = Some p" and r: "user_ok (r_db io (x_users st)) p"
  shows "\<exists>w st'. exec_account io act fr st = Inr (w, fr, st') \<and> step_ok p st w st'"
proof (cases "exeState (priv (user_at (x_users st) p)) = exeState_ABORT")
  case True
  then show ?thesis using leave_aborted_ok [OF ok] by (simp add: exec_account_def frame_user_def fr aborted_ok [OF ok])
next
  case False
  let ?db = "r_db io (x_users st)"
  obtain s where s: "sess (user_at ?db p) = Some s" using r by (auto simp: user_ok_def)
  define u where "u = (user_at ?db p)\<lparr>sess := Some (s\<lparr>startTime := (startTime s)(acct_relocation act := r_now io)\<rparr>)\<rparr>"
  have "tUserSetSessionStartTime (r_now io) (acct_relocation act) (user_at ?db p) = Inr u"
    by (simp add: tUserSetSessionStartTime_def upd_sess_def deref_def s u_def)
  moreover have "user_ok (set_user p u ?db) p"
    using r by (intro user_ok_set_user) (simp_all add: u_def user_ok_def)
  ultimately show ?thesis
    using False r by (simp add: exec_account_def frame_user_def fr aborted_ok [OF ok] Let_def step_ok_def sw0_def)
qed

lemma exec_switch_sync:
  assumes ok: "user_ok (x_users st) p" and fr: "f_user fr = Some p" "f_req fr = requestId act" and act: "sync_action cf act"
    and r: "user_ok (r_db io (x_users st)) p"
  shows "\<exists>w st'. exec_switch cf lib io act fr st = Some (Inr (w, fr, st')) \<and> step_ok p st w st'
    \<and> (ldap_action act \<longrightarrow> w_end w = NOT_REACHED \<and> w_rc w = r_rc io)"
proof -
  note sc = set_cmdRes_ok [OF ok]
  obtain b where b: "tUserGetBase (user_at (x_users st) p) = Inr b" using base_ok [OF ok] by blast
  have auth: "\<exists>w st'. exec_auth cf io act fr st = Inr (w, fr, st') \<and> step_ok p st w st'"
    using exec_auth_ok [OF ok fr(1) r] act by (simp add: sync_action_def)
  have acct: "\<exists>w st'. exec_account io act fr st = Inr (w, fr, st') \<and> step_ok p st w st'" using exec_account_ok [OF ok fr(1) r] .
  have go: "exec_bind io fr st = Inr (sw0\<lparr>w_rc := r_rc io, w_count := r_real io\<rparr>, fr, st)" by (simp add: exec_bind_def)
  have srch: "exec_search_sync io fr st = Inr (sw0\<lparr>w_rc := r_rc io, w_retry := (if r_rc io = LDAP_TIMEOUT then 1 else 0), w_count := True\<rparr>, fr,
      set_cmdRes (r_cmdRes io) p st)" by (simp add: exec_search_sync_def frame_user_def fr search_args_ok [OF ok])
  have upd: "exec_update m io fr st = Inr (sw0\<lparr>w_rc := r_rc io, w_count := True\<rparr>, fr, if m then set_cmdRes None p st else st)" for m
    by (simp add: exec_update_def frame_user_def fr b)
  show ?thesis
    using act ok auth acct sc
    by (cases "requestId act") (auto simp: sync_action_def exec_switch_def fr ldap_action_def go srch upd step_ok_def sw0_def acct_requests_def)
qed

text \<open>The counters of a scenario after \<open>c\<close> more executions and \<open>k\<close> more failures.\<close>

definition scored :: "nat \<Rightarrow> int \<Rightarrow> int \<Rightarrow> tSce list \<Rightarrow> tSce list \<Rightarrow> bool" where
  "scored s c k l l' \<longleftrightarrow> length l' = length l \<and> sce_cnt (l' ! s) = sce_cnt (l ! s) + c \<and> sce_ko (l' ! s) = sce_ko (l ! s) + k
     \<and> sce_action (l' ! s) = sce_action (l ! s) \<and> (\<forall>t < length l. t \<noteq> s \<longrightarrow> l' ! t = l ! t)"

lemma scored_refl: "scored s 0 0 l l"
  by (simp add: scored_def)

lemma scored_trans: "scored s c k l l' \<Longrightarrow> scored s d m l' l'' \<Longrightarrow> scored s (c + d) (k + m) l l''"
  by (simp add: scored_def)

lemma scenario_end_ok:
  assumes "user_ok (x_users st) p" "s < length (x_sces st)"
  shows "user_ok (x_users (tExecScenarioEnd s (Some p) n st)) p"
    "is_idle (x_users (tExecScenarioEnd s (Some p) n st)) p = is_idle (x_users st) p"
    "scored s 1 0 (x_sces st) (x_sces (tExecScenarioEnd s (Some p) n st))"
proof -
  let ?u = "user_at (x_users st) p"
  let ?v = "?u\<lparr>priv := (priv ?u)\<lparr>priv_cnt := priv_cnt (priv ?u) + 1\<rparr>\<rparr>"
  from user_ok_set_user [OF assms(1), of ?v] assms(1)
  show "user_ok (x_users (tExecScenarioEnd s (Some p) n st)) p"
    "is_idle (x_users (tExecScenarioEnd s (Some p) n st)) p = is_idle (x_users st) p"
    by (simp_all add: tExecScenarioEnd_def user_ok_def is_idle_def)
  show "scored s 1 0 (x_sces st) (x_sces (tExecScenarioEnd s (Some p) n st))"
    using assms(2) by (simp add: tExecScenarioEnd_def scored_def)
qed

lemma scenario_ko_ok:
  assumes "user_ok (x_users st) p" "s < length (x_sces st)"
  shows "user_ok (x_users (tExecScenarioEndKo s (Some p) n st)) p"
    "scored s 1 1 (x_sces st) (x_sces (tExecScenarioEndKo s (Some p) n st))"
proof -
  let ?st = "upd_sce (\<lambda>s. s\<lparr>sce_ko := sce_ko s + 1\<rparr>) s st"
  have "user_ok (x_users ?st) p" "s < length (x_sces ?st)" using assms by simp_all
  note E = scenario_end_ok [OF this, of n]
  have "scored s 0 1 (x_sces st) (x_sces ?st)" using assms(2) by (simp add: scored_def)
  from scored_trans [OF this E(3)] show "scored s 1 1 (x_sces st) (x_sces (tExecScenarioEndKo s (Some p) n st))"
    by (simp add: tExecScenarioEndKo_def)
  show "user_ok (x_users (tExecScenarioEndKo s (Some p) n st)) p" using E(1) by (simp add: tExecScenarioEndKo_def)
qed

lemma treat_error_ok:
  assumes ok: "user_ok (x_users st) p" and fr: "f_user fr = Some p" "f_sce fr < length (x_sces st)" and w: "w_end w \<noteq> NOT_STARTED"
  shows "\<exists>leave st'. treat_error cf io w fr st = Inr (leave, fr\<lparr>f_first := f_first fr \<and> w_rc w = 0\<rparr>, st') \<and> user_ok (x_users st') p
    \<and> (leave \<longrightarrow> w_rc w \<noteq> 0 \<and> is_idle (x_users st') p) \<and> (w_rc w = 0 \<longrightarrow> st' = st)
    \<and> (let d = of_bool (f_first fr \<and> w_rc w \<noteq> 0) in scored (f_sce fr) d d (x_sces st) (x_sces st'))"
proof (cases "w_rc w = 0")
  case True
  then show ?thesis using ok by (auto simp: treat_error_def scored_refl)
next
  case False
  let ?st = "if f_first fr then tExecScenarioEndKo (f_sce fr) (f_user fr) (w_retry w) st else st"
  have K: "user_ok (x_users (stop_run ?st)) p" "scored (f_sce fr) (of_bool (f_first fr)) (of_bool (f_first fr)) (x_sces st) (x_sces (stop_run ?st))"
    using scenario_ko_ok [OF ok fr(2), of "w_retry w"] ok by (auto simp: fr(1) scored_refl)
  obtain st2 where "free_user (r_now io) p (stop_run ?st) = Inr st2" "user_ok (x_users st2) p" "is_idle (x_users st2) p" "x_sces st2 = x_sces (stop_run ?st)"
    using free_user_ok [OF K(1)] by blast
  with K False w fr(1) show ?thesis
    by (intro exI [of _ "tcAbortScenario cf"] exI [of _ "if tcAbortScenario cf then st2 else stop_run ?st"])
      (simp add: treat_error_def Let_def)
qed

text \<open>
  One turn of the loop on an action that does not suspend the scenario: the loop is left with an idle
  user, or goes on to the next action, and the scenario is counted as failed by its first failure.
\<close>

lemma exec_loop_turn:
  assumes a: "sync_action cf act" "f_req fr = requestId act" and fr: "f_user fr = Some p" "f_sce fr < length (x_sces st)"
    and ok: "user_ok (x_users st) p" and r: "\<forall>i db. user_ok db p \<longrightarrow> user_ok (r_db (ios i) db) p"
  obtains w :: sw and leave st' where
    "exec_loop cf lib ios (act # n # rest) fr st
       = (if leave then Some (Inr (w_end w, w_retry w, fr\<lparr>f_first := f_first fr \<and> w_rc w = 0\<rparr>, st'))
          else exec_loop cf lib ios (n # rest) (fr\<lparr>f_first := f_first fr \<and> w_rc w = 0, f_action := Suc (f_action fr), f_req := requestId n\<rparr>) st')"
    "user_ok (x_users st') p" "leave \<longrightarrow> is_idle (x_users st') p \<and> (w_rc w = 0 \<longrightarrow> w_end w = REACHED)"
    "scored (f_sce fr) (of_bool (f_first fr \<and> w_rc w \<noteq> 0)) (of_bool (f_first fr \<and> w_rc w \<noteq> 0)) (x_sces st) (x_sces st')"
    "ldap_action act \<longrightarrow> (leave \<longrightarrow> w_rc w \<noteq> 0) \<and> w_rc w = r_rc (ios (f_action fr))"
proof -
  let ?io = "ios (f_action fr)"
  have rr: "user_ok (r_db ?io (x_users st)) p" using r ok by blast
  obtain w st1 where w: "exec_switch cf lib ?io act fr st = Some (Inr (w, fr, st1))" "step_ok p st w st1"
      "ldap_action act \<longrightarrow> w_end w = NOT_REACHED \<and> w_rc w = r_rc ?io"
    using exec_switch_sync [OF ok fr(1) a(2,1) rr] by blast
  obtain st2 where st2: "count_action ?io act w st1 = Inr st2" "same_us st1 st2"
    using count_action_ok [of w act ?io st1] a(1) by (auto simp: sync_action_def)
  have us: "user_ok (x_users st2) p" "x_sces st2 = x_sces st" "w_end w \<noteq> NOT_STARTED"
    using w(2) st2(2) by (auto simp: step_ok_def same_us_def)
  obtain leave st3 where st3: "treat_error cf ?io w fr st2 = Inr (leave, fr\<lparr>f_first := f_first fr \<and> w_rc w = 0\<rparr>, st3)" "user_ok (x_users st3) p"
      "leave \<longrightarrow> w_rc w \<noteq> 0 \<and> is_idle (x_users st3) p" "w_rc w = 0 \<longrightarrow> st3 = st2"
      "scored (f_sce fr) (of_bool (f_first fr \<and> w_rc w \<noteq> 0)) (of_bool (f_first fr \<and> w_rc w \<noteq> 0)) (x_sces st) (x_sces st3)"
    using treat_error_ok [OF us(1) fr(1) _ us(3), of cf ?io] fr(2) us(2) by (auto simp: Let_def)
  show thesis
  proof (rule that [of "leave \<or> w_end w \<noteq> NOT_REACHED" w st3])
    show "leave \<or> w_end w \<noteq> NOT_REACHED \<longrightarrow> is_idle (x_users st3) p \<and> (w_rc w = 0 \<longrightarrow> w_end w = REACHED)"
      using st3(3,4) w(2) st2(2) by (auto simp: step_ok_def same_us_def)
    show "ldap_action act \<longrightarrow> (leave \<or> w_end w \<noteq> NOT_REACHED \<longrightarrow> w_rc w \<noteq> 0) \<and> w_rc w = r_rc ?io" using st3(3) w(3) by auto
  qed (use w(1) st2(1) st3 in auto)
qed

text \<open>
  What the loop leaves of a scenario without suspending actions: it ends, releases the user, and is
  counted as failed when it is the first failure of the pass.
\<close>

definition ended :: "user_ptr \<Rightarrow> (nat \<Rightarrow> rq_io) \<Rightarrow> tAction list \<Rightarrow> frame \<Rightarrow> exec_state \<Rightarrow> ending \<Rightarrow> frame \<Rightarrow> exec_state \<Rightarrow> bool" where
  "ended p ios acts fr st en fr' st' \<longleftrightarrow> user_ok (x_users st') p \<and> is_idle (x_users st') p \<and> f_user fr' = Some p \<and> f_sce fr' = f_sce fr
    \<and> (f_first fr' \<longrightarrow> f_first fr \<and> en = REACHED)
    \<and> (let d = of_bool (f_first fr \<and> \<not> f_first fr') in scored (f_sce fr) d d (x_sces st) (x_sces st'))
    \<and> (list_all ldap_action acts \<longrightarrow> f_first fr \<longrightarrow> f_first fr' = (\<forall>j < length acts. r_rc (ios (f_action fr + j)) = 0))"

lemma ended_step:
  assumes "ended p ios acts fr2 sta en fr' st'" "f_sce fr2 = f_sce fr" "f_action fr2 = Suc (f_action fr)" "f_first fr2 = (f_first fr \<and> rc = 0)"
    and "scored (f_sce fr) (of_bool (f_first fr \<and> rc \<noteq> 0)) (of_bool (f_first fr \<and> rc \<noteq> 0)) (x_sces st) (x_sces sta)"
    and "ldap_action act \<longrightarrow> rc = r_rc (ios (f_action fr))"
  shows "ended p ios (act # acts) fr st en fr' st'"
proof -
  have f: "f_first fr' \<longrightarrow> f_first fr2 \<and> en = REACHED" using assms(1) by (simp add: ended_def)
  have "scored (f_sce fr) (of_bool (f_first fr2 \<and> \<not> f_first fr')) (of_bool (f_first fr2 \<and> \<not> f_first fr')) (x_sces sta) (x_sces st')"
    using assms(1,2) by (simp add: ended_def Let_def)
  from scored_trans [OF assms(5) this]
  have "scored (f_sce fr) (of_bool (f_first fr \<and> \<not> f_first fr')) (of_bool (f_first fr \<and> \<not> f_first fr')) (x_sces st) (x_sces st')"
    using f assms(4) by (cases "rc = 0"; cases "f_first fr"; cases "f_first fr'") auto
  moreover have "f_first fr' = (\<forall>j < length (act # acts). r_rc (ios (f_action fr + j)) = 0)" if l: "list_all ldap_action (act # acts)" "f_first fr"
  proof -
    have "list_all ldap_action acts \<longrightarrow> f_first fr2 \<longrightarrow> f_first fr' = (\<forall>j < length acts. r_rc (ios (Suc (f_action fr) + j)) = 0)"
      using assms(1,3) by (simp add: ended_def)
    moreover have "(\<forall>j < length (act # acts). r_rc (ios (f_action fr + j)) = 0)
        = (r_rc (ios (f_action fr)) = 0 \<and> (\<forall>j < length acts. r_rc (ios (Suc (f_action fr) + j)) = 0))"
      by (auto simp: less_Suc_eq_0_disj)
    moreover have "rc = r_rc (ios (f_action fr))" "list_all ldap_action acts" using l(1) assms(6) by simp_all
    ultimately show ?thesis using f l(2) assms(4) by (cases "rc = 0") simp_all
  qed
  moreover have "user_ok (x_users st') p" "is_idle (x_users st') p" "f_user fr' = Some p" "f_sce fr' = f_sce fr2"
    using assms(1) by (simp_all add: ended_def)
  ultimately show ?thesis using f assms(2,4) unfolding ended_def Let_def by (intro conjI) simp_all
qed

lemma exec_loop_sync:
  assumes "list_all (sync_action cf) acts" "requestId e = SCE_End" "f_req fr = requestId (hd (acts @ [e]))"
    and "f_user fr = Some p" "f_sce fr < length (x_sces st)" "user_ok (x_users st) p"
    and r: "\<forall>i db. user_ok db p \<longrightarrow> user_ok (r_db (ios i) db) p"
  shows "\<exists>en retry fr' st'. exec_loop cf lib ios (acts @ [e]) fr st = Some (Inr (en, retry, fr', st')) \<and> ended p ios acts fr st en fr' st'"
  using assms(1-6)
proof (induction acts arbitrary: fr st)
  case Nil
  obtain st1 where st1: "free_user (r_now (ios (f_action fr))) p st = Inr st1" "user_ok (x_users st1) p" "is_idle (x_users st1) p" "x_sces st1 = x_sces st"
    using free_user_ok [OF Nil.prems(6)] by blast
  have "exec_loop cf lib ios [e] fr st = Some (Inr (REACHED, 0, fr, st1))"
    using Nil.prems st1(1) by (simp add: exec_switch_def exec_end_def count_action_def treat_error_def sw0_def)
  with st1 Nil.prems show ?case by (auto simp: scored_refl ended_def)
next
  case (Cons act acts)
  obtain n rest where nr: "acts @ [e] = n # rest" by (cases "acts @ [e]") auto
  have a: "sync_action cf act" "f_req fr = requestId act" using Cons.prems by simp_all
  obtain w :: sw and leave sn where T: "exec_loop cf lib ios (act # n # rest) fr st
       = (if leave then Some (Inr (w_end w, w_retry w, fr\<lparr>f_first := f_first fr \<and> w_rc w = 0\<rparr>, sn))
          else exec_loop cf lib ios (n # rest) (fr\<lparr>f_first := f_first fr \<and> w_rc w = 0, f_action := Suc (f_action fr), f_req := requestId n\<rparr>) sn)"
      "user_ok (x_users sn) p" "leave \<longrightarrow> is_idle (x_users sn) p \<and> (w_rc w = 0 \<longrightarrow> w_end w = REACHED)"
      "scored (f_sce fr) (of_bool (f_first fr \<and> w_rc w \<noteq> 0)) (of_bool (f_first fr \<and> w_rc w \<noteq> 0)) (x_sces st) (x_sces sn)"
      "ldap_action act \<longrightarrow> (leave \<longrightarrow> w_rc w \<noteq> 0) \<and> w_rc w = r_rc (ios (f_action fr))"
    by (rule exec_loop_turn [OF a Cons.prems(4,5,6) r])
  show ?case
  proof (cases leave)
    case True
    then have "ended p ios (act # acts) fr st (w_end w) (fr\<lparr>f_first := f_first fr \<and> w_rc w = 0\<rparr>) sn"
      using T(2-5) Cons.prems(4) unfolding ended_def Let_def by (auto intro!: exI [of _ 0])
    with True T(1) nr show ?thesis by (auto simp del: exec_loop.simps)
  next
    case False
    define fr2 where "fr2 = fr\<lparr>f_first := f_first fr \<and> w_rc w = 0, f_action := Suc (f_action fr), f_req := requestId n\<rparr>"
    have "list_all (sync_action cf) acts" "f_req fr2 = requestId (hd (acts @ [e]))" "f_user fr2 = Some p" "f_sce fr2 < length (x_sces sn)"
      using Cons.prems T(4) nr by (simp_all add: fr2_def scored_def)
    with Cons.IH [OF _ Cons.prems(2), of fr2 sn] T(2) obtain en retry fr' st'
      where IH: "exec_loop cf lib ios (acts @ [e]) fr2 sn = Some (Inr (en, retry, fr', st'))" "ended p ios acts fr2 sn en fr' st'" by blast
    have "ended p ios (act # acts) fr st en fr' st'" by (rule ended_step [OF IH(2) _ _ _ T(4)]) (use T(5) in \<open>simp_all add: fr2_def\<close>)
    with IH(1) T(1) False nr show ?thesis by (auto simp: fr2_def simp del: exec_loop.simps)
  qed
qed

text \<open>The pass that follows the loop counts a scenario that was not counted as failed.\<close>

lemma exec_pass_sync:
  assumes "drop (f_action fr) (sce_action (x_sces st ! f_sce fr)) = acts @ [e]" "list_all (sync_action cf) acts" "requestId e = SCE_End"
    and "f_req fr = requestId (hd (acts @ [e]))" "f_user fr = Some p" "f_sce fr < length (x_sces st)" "user_ok (x_users st) p" "f_first fr"
    and "\<forall>i db. user_ok db p \<longrightarrow> user_ok (r_db (ios i) db) p"
  shows "\<exists>st' k. exec_pass cf lib ios fr st = Some (Inr st') \<and> is_idle (x_users st') p
    \<and> scored (f_sce fr) 1 k (x_sces st) (x_sces st') \<and> k \<in> {0, 1}
    \<and> (list_all ldap_action acts \<longrightarrow> k = of_bool (\<exists>j < length acts. r_rc (ios (f_action fr + j)) \<noteq> 0))"
proof -
  obtain en retry fr' st' where L: "exec_loop cf lib ios (acts @ [e]) fr st = Some (Inr (en, retry, fr', st'))"
      "user_ok (x_users st') p" "is_idle (x_users st') p" "f_user fr' = Some p" "f_sce fr' = f_sce fr" "f_first fr' \<longrightarrow> f_first fr \<and> en = REACHED"
      "let d = of_bool (f_first fr \<and> \<not> f_first fr') in scored (f_sce fr) d d (x_sces st) (x_sces st')"
      "list_all ldap_action acts \<longrightarrow> f_first fr \<longrightarrow> f_first fr' = (\<forall>j < length acts. r_rc (ios (f_action fr + j)) = 0)"
    using exec_loop_sync [OF assms(2-7) assms(9), of lib] unfolding ended_def by blast
  show ?thesis
  proof (cases "f_first fr'")
    case True
    let ?st = "tExecScenarioEnd (f_sce fr) (Some p) retry st'"
    have s0: "scored (f_sce fr) 0 0 (x_sces st) (x_sces st')" using L(7) True by simp
    then have "f_sce fr < length (x_sces st')" using assms(6) by (simp add: scored_def)
    note E = scenario_end_ok [OF L(2) this, of retry]
    have "exec_pass cf lib ios fr st = Some (Inr ?st)" using L(1,4-6) True assms(1) by (simp add: exec_pass_def)
    then show ?thesis
      using scored_trans [OF s0 E(3)] E(2) L(3,8) True assms(8) by (intro exI [of _ ?st] exI [of _ 0]) auto
  next
    case False
    have "exec_pass cf lib ios fr st = Some (Inr st')" using L(1) False assms(1) by (simp add: exec_pass_def)
    then show ?thesis using L(3,7,8) False assms(8) by (intro exI [of _ st'] exI [of _ 1]) auto
  qed
qed

lemma exec_begin_ok:
  assumes "tUserGetRandomly (tcUserGetPolicy cf) (int (r_rand io)) (r_now io) (killcalled st) (x_sces st) (Some (f_sce fr)) (x_users st)
      = Some (Inr (Some p, sg, db))" "user_ok db p"
  obtains st1 where "exec_begin cf io fr st = Some (Inr (sw0, fr\<lparr>f_user := Some p\<rparr>, st1))" "user_ok (x_users st1) p" "x_sces st1 = x_sces st"
    "x_timer st1 = x_timer st" "x_lists st1 = x_lists st"
proof
  let ?st = "(set_users db st)\<lparr>x_sigint := x_sigint st + (if sg then 1 else 0)\<rparr>"
  let ?st1 = "set_cmdRes (tAction_freeCmdRes (cmdRes (user_at db p))) p ?st"
  show "exec_begin cf io fr st = Some (Inr (sw0, fr\<lparr>f_user := Some p\<rparr>, ?st1))"
    using assms(1) by (simp add: exec_begin_def Let_def)
  show "user_ok (x_users ?st1) p" "x_sces ?st1 = x_sces st" using set_cmdRes_ok [of ?st p] assms(2) by simp_all
  show "x_timer ?st1 = x_timer st" "x_lists ?st1 = x_lists st" by (simp_all add: set_cmdRes_def upd_user_def set_users_def)
qed

lemma exec_loop_step:
  "exec_switch cf lib (ios (f_action fr)) act fr st = Some (Inr (w, fr1, sa)) \<Longrightarrow> count_action (ios (f_action fr)) act w sa = Inr sb \<Longrightarrow>
   treat_error cf (ios (f_action fr)) w fr1 sb = Inr (False, fr3, sc) \<Longrightarrow> w_end w = NOT_REACHED \<Longrightarrow>
   exec_loop cf lib ios (act # next # acts) fr st
     = exec_loop cf lib ios (next # acts) (fr3\<lparr>f_action := Suc (f_action fr), f_req := requestId next\<rparr>) sc"
  by simp

lemma timer_kept [simp]:
  "x_timer (stop_run st) = x_timer st" "x_timer (tExecScenarioEndKo s u n st) = x_timer st"
  by (simp_all add: stop_run_def tExecScenarioEndKo_def tExecScenarioEnd_def upd_sce_def upd_user_def set_users_def Let_def split: option.split)

lemma count_action_timer: "count_action io act w st = Inr st' \<Longrightarrow> x_timer st' = x_timer st"
  by (auto simp: count_action_def upd_stat_def split: if_splits)

subsection \<open>Properties\<close>

text \<open>A small configuration: one user, one scenario, all requests answered with the same code.\<close>

definition x_user :: tUser where
  "x_user = (mk_user 0 exeState_IDLE None)\<lparr>ldapE := Some \<lparr>dn = ''cn=a'', base = ''cn=a'', filter_str = [], scope = 0\<rparr>,
     auth := Some \<lparr>nai = [], passwd = [], authType = 0, stateAttrib = (\<lambda>_. []), stateAttribLength = (\<lambda>_. 0), K_aut = [], K_encr = [],
       frId = None, aaa_session_id = [], aaa_session_idLength = 0, ppaq = [], ppaqLength = 0\<rparr>,
     sess := Some \<lparr>sessionId = (\<lambda>_. []), sessionIdLength = (\<lambda>_. 0), startTime = (\<lambda>_. 0), classAttrib = (\<lambda>_. []), classAttribLength = (\<lambda>_. 0), portNb = 0\<rparr>\<rparr>"

definition x_db :: userdb where "x_db = mk_db [x_user]"

definition x_act :: "request \<Rightarrow> tAction" where
  "x_act rq = \<lparr>requestId = rq, cmds = None, attrs = None, unLimitSize = 0\<rparr>"

definition x_wait :: tAction where
  "x_wait = \<lparr>requestId = SCE_Wait, cmds = Some KEYWD_VALUE, attrs = Some (show_int 3), unLimitSize = 0\<rparr>"

definition x_st :: "tAction list \<Rightarrow> exec_state" where
  "x_st acts = \<lparr>x_sce = sce_state0\<lparr>s_users := x_db, tsceTab := [sce1\<lparr>sce_action := acts\<rparr>]\<rparr>,
     x_timer = \<lparr>tTimerCircularTable = replicate 10 [], tTimerCircularTableSize = 10, currentIndex = 0, tableClosed = False\<rparr>,
     x_lists = lstate0, stopOnError = 0, killcalled = False, x_sigint = 0\<rparr>"

definition x_io :: "int \<Rightarrow> rq_io" where
  "x_io rc = \<lparr>r_rc = rc, r_retry = 0, r_real = True, r_cmdRes = None, r_db = id, r_now = 0, r_rand = 0, r_delta = 5, r_delta1 = 5, r_ctx = Some 7,
     r_junk = None, r_elem = True, r_ldSet = True, r_reqCtx = Some 70, r_msgid = 11, r_errno = 0, r_node = Some 4, r_nodeJunk = node0,
     r_time = (0, 0), r_abandon = (\<lambda>_. 0)\<rparr>"

definition x_cf :: "bool \<Rightarrow> exec_conf" where
  "x_cf ab = \<lparr>x_policy = LDAP_SES_POLICY_LOCAL_THR, tcUserGetPolicy = 1, tcLdapTimeout = 5, tcAbortScenario = ab, authTypePolicy = 0, x_ldId = 1, x_verbose = 0\<rparr>"

definition x_fr :: frame where
  "x_fr = \<lparr>f_user = None, f_sce = 0, f_action = 0, f_req = SCE_Begin, f_ctx = None, f_reqCtx = None, f_first = True\<rparr>"

definition x_db1 :: userdb where "x_db1 = reserve (Some 0) (Popul 0) (x_db\<lparr>tUseri := 0\<rparr>)"

lemma x_fr_sel [simp]: "f_sce x_fr = 0" "f_action x_fr = 0" "f_req x_fr = SCE_Begin" "f_first x_fr"
  by (simp_all add: x_fr_def)

lemma x_get:
  "tUserGetRandomly (tcUserGetPolicy (x_cf ab)) (int (r_rand (x_io rc))) (r_now (x_io rc)) (killcalled (x_st acts)) (x_sces (x_st acts)) (Some (f_sce x_fr))
     (x_users (x_st acts)) = Some (Inr (Some (Popul 0), False, x_db1))"
  by (simp add: tUserGetRandomly_def choose_user_def x_cf_def x_io_def x_st_def x_users_def x_db1_def x_db_def userdb0_def tUserGet_def Let_def)

lemma x_user_ok: "user_ok x_db1 (Popul 0)"
  by (simp add: user_ok_def x_db1_def reserve_def x_db_def x_user_def valid_ptr_def tUserGetId_def tUserGet_def userdb0_def Let_def)

lemma x_io_sel [simp]: "r_rc (x_io rc) = rc" "r_db (x_io rc) = id" "r_ctx (x_io rc) = Some 7" "r_elem (x_io rc) = True"
  by (simp_all add: x_io_def)

lemma x_sces_st: "x_sces (x_st acts) = [sce1\<lparr>sce_action := acts\<rparr>]"
  by (simp add: x_st_def x_sces_def)



text \<open>
  The pass of a scenario whose bind fails and that then waits: it is counted as failed, and its
  context remembers the user, the scenario and the wait action.
\<close>

lemma failed_bind_waits:
  assumes "f_sce fr < length (x_sces st)" "sce_action (x_sces st ! f_sce fr) = [b, a, w, e]" "requestId b = SCE_Begin" "requestId a = LDAP_Bind_Rq"
    and "requestId w = SCE_Wait" "cmds w = Some KEYWD_VALUE" "attrs w = Some (show_int n)"
    and "f_action fr = 0" "f_req fr = SCE_Begin" "f_first fr" "\<not> tcAbortScenario cf"
    and "tUserGetRandomly (tcUserGetPolicy cf) (int (r_rand (ios 0))) (r_now (ios 0)) (killcalled st) (x_sces st) (Some (f_sce fr)) (x_users st)
      = Some (Inr (Some p, sg, db))" "user_ok db p"
    and "r_rc (ios 1) \<noteq> 0" "r_ctx (ios 2) = Some c" "tTimerSetUserToSleep (r_elem (ios 2)) (Some c) n (x_timer st) = Inr (0, t)"
    and "-2147483648 \<le> n" "n \<le> 2147483647"
  obtains sa where "exec_pass cf lib ios fr st = Some (Inr sa)" "user_ok (x_users sa) p" "scored (f_sce fr) 1 1 (x_sces st) (x_sces sa)"
    "sleeps (x_lists sa) c = Some \<lparr>sl_req = r_junk (ios 2), sl_user = Some p, sl_sce = f_sce fr, sl_action = 2\<rparr>"
proof -
  obtain s1 where s1: "exec_begin cf (ios 0) fr st = Some (Inr (sw0, fr\<lparr>f_user := Some p\<rparr>, s1))" "user_ok (x_users s1) p" "x_sces s1 = x_sces st"
      "x_timer s1 = x_timer st" using exec_begin_ok [OF assms(12,13)] by blast
  define fr1 where "fr1 = fr\<lparr>f_user := Some p, f_action := 1, f_req := LDAP_Bind_Rq\<rparr>"
  have l1: "exec_loop cf lib ios [b, a, w, e] fr st = exec_loop cf lib ios [a, w, e] fr1 s1"
    using exec_loop_step [of cf lib ios fr b st sw0 "fr\<lparr>f_user := Some p\<rparr>" s1 s1 "fr\<lparr>f_user := Some p\<rparr>" s1 a "[w, e]"] s1(1) assms(4,8,9)
    by (simp add: exec_switch_def count_action_def treat_error_def sw0_def fr1_def)
  define sw where "sw = sw0\<lparr>w_rc := r_rc (ios 1), w_count := r_real (ios 1)\<rparr>"
  have sw: "w_end sw = NOT_REACHED" "w_rc sw \<noteq> 0" using assms(14) by (simp_all add: sw_def sw0_def)
  obtain s2 where s2: "count_action (ios 1) a sw s1 = Inr s2" "same_us s1 s2" using count_action_ok [of sw a "ios 1" s1] assms(4) by auto
  define s3 where "s3 = stop_run (tExecScenarioEndKo (f_sce fr) (Some p) (w_retry sw) s2)"
  have us2: "user_ok (x_users s2) p" "x_sces s2 = x_sces st" using s2(2) s1(2,3) by (simp_all add: same_us_def)
  have K: "user_ok (x_users s3) p" "scored (f_sce fr) 1 1 (x_sces st) (x_sces s3)" "x_timer s3 = x_timer st"
    using scenario_ko_ok [OF us2(1), of "f_sce fr" "w_retry sw"] us2(2) assms(1) count_action_timer [OF s2(1)] s1(4) by (simp_all add: s3_def)
  have te: "treat_error cf (ios 1) sw fr1 s2 = Inr (False, fr1\<lparr>f_first := False\<rparr>, s3)"
    using sw assms(10,11) by (simp add: treat_error_def Let_def s3_def fr1_def)
  define fr3 where "fr3 = fr1\<lparr>f_first := False, f_action := 2, f_req := SCE_Wait\<rparr>"
  have "exec_switch cf lib (ios (f_action fr1)) a fr1 s1 = Some (Inr (sw, fr1, s1))"
    by (simp add: exec_switch_def exec_bind_def sw_def fr1_def)
  from exec_loop_step [of cf lib ios, OF this _ _ sw(1), of s2 "fr1\<lparr>f_first := False\<rparr>" s3 w "[e]"]
  have l2: "exec_loop cf lib ios [a, w, e] fr1 s1 = exec_loop cf lib ios [w, e] fr3 s3"
    using s2(1) te assms(5) by (simp add: fr3_def fr1_def numeral_2_eq_2 del: exec_loop.simps)
  define sa where "sa = (new_ctx c (r_junk (ios 2)) fr3 s3)\<lparr>x_timer := t\<rparr>"
  have wt: "wait_time (tTimerGetMaxSleepTime (x_timer s3)) (r_rand (ios 2)) w = Inr (Some n)"
    using assms(6,7,17,18) scan_d_show_int [of n "[]"] by (simp add: wait_time_def KEYWD_RAND_def KEYWD_VALUE_def)
  have l3: "exec_loop cf lib ios [w, e] fr3 s3 = Some (Inr (SUSPENDED, 0, fr3\<lparr>f_ctx := Some c\<rparr>, sa))"
    using wt assms(15,16) K(3)
    by (simp add: exec_switch_def exec_wait_def fr3_def count_action_def treat_error_def sw0_def sa_def fr1_def)
  have p1: "exec_pass cf lib ios fr st = Some (Inr sa)" using l1 l2 l3 assms(2,8) by (simp add: exec_pass_def)
  have "x_sces sa = x_sces s3" "x_users sa = x_users s3" by (simp_all add: sa_def new_ctx_def x_sces_def x_users_def)
  moreover have "sleeps (x_lists sa) c = Some \<lparr>sl_req = r_junk (ios 2), sl_user = Some p, sl_sce = f_sce fr, sl_action = 2\<rparr>"
    by (simp add: sa_def new_ctx_def fr3_def fr1_def)
  ultimately show thesis using that p1 K by simp
qed

text \<open>
  C37. A scenario that is suspended is counted again when it is resumed. A failed bind is counted as
  one failed execution; the wait that follows ends the pass, and after it the end of the same
  execution is counted a second time, as a success.
\<close>

theorem resumed_scenario_counted_twice:
  assumes "f_sce fr < length (x_sces st)" "sce_action (x_sces st ! f_sce fr) = [b, a, w, e]" "requestId b = SCE_Begin" "requestId a = LDAP_Bind_Rq"
    and "requestId w = SCE_Wait" "cmds w = Some KEYWD_VALUE" "attrs w = Some (show_int n)" "requestId e = SCE_End"
    and "f_action fr = 0" "f_req fr = SCE_Begin" "f_first fr" "\<not> tcAbortScenario cf"
    and "tUserGetRandomly (tcUserGetPolicy cf) (int (r_rand (ios 0))) (r_now (ios 0)) (killcalled st) (x_sces st) (Some (f_sce fr)) (x_users st)
      = Some (Inr (Some p, sg, db))" "user_ok db p" "\<forall>i db. user_ok db p \<longrightarrow> user_ok (r_db (ios i) db) p"
    and "r_rc (ios 1) \<noteq> 0" "r_ctx (ios 2) = Some c" "tTimerSetUserToSleep (r_elem (ios 2)) (Some c) n (x_timer st) = Inr (0, t)"
    and "-2147483648 \<le> n" "n \<le> 2147483647"
  shows "\<exists>sa fr2 sb sc. exec_pass cf lib ios fr st = Some (Inr sa) \<and> resume_timer c sa = Inr (Run fr2, sb)
    \<and> exec_pass cf lib ios fr2 sb = Some (Inr sc) \<and> scored (f_sce fr) 2 1 (x_sces st) (x_sces sc)"
proof -
  obtain sa where sa: "exec_pass cf lib ios fr st = Some (Inr sa)" "user_ok (x_users sa) p" "scored (f_sce fr) 1 1 (x_sces st) (x_sces sa)"
      "sleeps (x_lists sa) c = Some \<lparr>sl_req = r_junk (ios 2), sl_user = Some p, sl_sce = f_sce fr, sl_action = 2\<rparr>"
    by (rule failed_bind_waits [OF assms(1-7,9-14,16-20)])
  have len: "f_sce fr < length (x_sces sa)" "sce_action (x_sces sa ! f_sce fr) = [b, a, w, e]" using sa(3) assms(1,2) by (simp_all add: scored_def)
  define fr2 where "fr2 = \<lparr>f_user = Some p, f_sce = f_sce fr, f_action = 3, f_req = SCE_End, f_ctx = Some c, f_reqCtx = r_junk (ios 2), f_first = True\<rparr>"
  have at: "action_at sa (f_sce fr) 2 = Inr w" "action_at sa (f_sce fr) 3 = Inr e" using len by (simp_all add: action_at_def)
  have rt: "resume_timer c sa = Inr (Run fr2, free_ctx c sa)"
    using at assms(5,8) by (simp add: resume_timer_def sa(4) fr2_def numeral_3_eq_3 numeral_2_eq_2)
  have fc: "x_sces (free_ctx c sa) = x_sces sa" "x_users (free_ctx c sa) = x_users sa" by (simp_all add: free_ctx_def x_sces_def x_users_def)
  have "\<exists>st' k. exec_pass cf lib ios fr2 (free_ctx c sa) = Some (Inr st') \<and> is_idle (x_users st') p
    \<and> scored (f_sce fr2) 1 k (x_sces (free_ctx c sa)) (x_sces st') \<and> k \<in> {0, 1}
    \<and> (list_all ldap_action [] \<longrightarrow> k = of_bool (\<exists>j < length ([]::tAction list). r_rc (ios (f_action fr2 + j)) \<noteq> 0))"
    using len sa(2) assms(8,15) by (intro exec_pass_sync [where e = e]) (simp_all add: fr2_def fc numeral_3_eq_3)
  then obtain sc where sc: "exec_pass cf lib ios fr2 (free_ctx c sa) = Some (Inr sc)" "scored (f_sce fr) 1 0 (x_sces sa) (x_sces sc)"
    by (auto simp: fr2_def fc)
  have "scored (f_sce fr) 2 1 (x_sces st) (x_sces sc)" using scored_trans [OF sa(3) sc(2)] by simp
  with sa(1) rt sc(1) show ?thesis by blast
qed

theorem resumed_scenario_counted_twice_witness:
  "\<exists>sa fr2 sb sc. exec_pass (x_cf False) no_lib (\<lambda>_. x_io 49) x_fr (x_st [x_act SCE_Begin, x_act LDAP_Bind_Rq, x_wait, x_act SCE_End]) = Some (Inr sa)
     \<and> resume_timer 7 sa = Inr (Run fr2, sb) \<and> exec_pass (x_cf False) no_lib (\<lambda>_. x_io 49) fr2 sb = Some (Inr sc)
     \<and> scored 0 2 1 [sce1\<lparr>sce_action := [x_act SCE_Begin, x_act LDAP_Bind_Rq, x_wait, x_act SCE_End]\<rparr>] (x_sces sc)"
proof -
  let ?st = "x_st [x_act SCE_Begin, x_act LDAP_Bind_Rq, x_wait, x_act SCE_End]"
  obtain t where "tTimerSetUserToSleep True (Some 7) 3 (x_timer ?st) = Inr (0, t)"
    by (simp add: tTimerSetUserToSleep_def timer_push_def sleep_delay_def x_st_def Let_def signed_modulo_int_def)
  moreover have "\<not> tcAbortScenario (x_cf False)" by (simp add: x_cf_def)
  ultimately show ?thesis
    using resumed_scenario_counted_twice [of x_fr ?st "x_act SCE_Begin" "x_act LDAP_Bind_Rq" x_wait "x_act SCE_End" 3 "x_cf False" "\<lambda>_. x_io 49" "Popul 0" False x_db1 7 t no_lib]
      x_get [of False 49] x_user_ok
    by (simp add: x_sces_st x_act_def x_wait_def)
qed

text \<open>
  C32. A time limit that is handled by a worker of another connection corrupts memory. The worker
  looks for the pending request in the list of its own connection, does not find it, and frees the
  context; the request stays in the list where it is, and the answer to it uses the freed context.
\<close>

theorem timeout_on_other_connection:
  assumes "board (x_lists st) A" "A (x_ldId cf) Req = []" "A (x_ldId cf) Resp = []" "A i Req = (m, c) # xs" "x_verbose cf < 3"
    and "tTimerGetUserToResume (x_timer st) = Inr (Some c, t)" "sleeps (x_lists st) c = Some sl" "action_at st (sl_sce sl) (sl_action sl) = Inr act"
    and "requestId act = LDAP_Search_Rq"
  shows "\<exists>fr sa w fr' sb. exec_choose cf state rnd old st = Inr (Run fr, sa) \<and> exec_switch cf lib io act fr sa = Some (Inr (w, fr', sb))
    \<and> getAndMove_RequestToResponse (x_verbose cf) now i m msg rc (x_lists sb) = Some (Inl UseAfterFree)"
proof -
  have "(m, c) \<in> set (A i Req)" by (simp add: assms(4))
  then obtain x where "get_req (x_lists st) c = Inr x" using assms(1) unfolding board_def by blast
  then obtain r rq where rq: "sl_req sl = Some r" "reqs (x_lists st) r = Some rq" using assms(7) by (auto simp: get_req_def split: option.splits)
  obtain L where L: "lists_ok (x_lists st) L" "A = (\<lambda>i d. contents (x_lists st) (L i d))" using assms(1) by (auto simp: board_def)
  have no: "lhead (x_lists st) (x_ldId cf) Resp = None" "lhead (x_lists st) (x_ldId cf) Req = None"
    using lists_okD(1) [OF L(1), of "x_ldId cf" Resp] lists_okD(1) [OF L(1), of "x_ldId cf" Req] assms(2,3) by (simp_all add: L(2) contents_def)
  let ?st = "st\<lparr>x_timer := t\<rparr>"
  define fr where "fr = \<lparr>f_user = sl_user sl, f_sce = sl_sce sl, f_action = sl_action sl, f_req = LDAP_Search_Resp,
      f_ctx = Some c, f_reqCtx = Some r, f_first = True\<rparr>"
  define ls where "ls = (x_lists st)\<lparr>sleeps := (sleeps (x_lists st))(c \<mapsto> sl\<lparr>sl_req := None\<rparr>),
      reqs := (reqs (x_lists st))(r \<mapsto> rq\<lparr>ctx_rc := LDAP_TIMEOUT\<rparr>)\<rparr>"
  have "action_at ?st (sl_sce sl) (sl_action sl) = Inr act" using assms(8) by (simp add: action_at_def x_sces_def split: if_splits)
  then have ch: "exec_choose cf state rnd old st = Inr (Run fr, ?st\<lparr>x_lists := ls\<rparr>)"
    using no assms(5-7,9) rq
    by (simp add: exec_choose_def getAndRemove_firstResponse_def resume_timer_def set_ctx_req_def fr_def ls_def)
  define lb where "lb = ls\<lparr>sleeps := (sleeps ls)(c := None), reqs := (reqs ls)(r := None)\<rparr>"
  let ?sb = "?st\<lparr>x_lists := lb\<rparr>"
  have hd: "lhead ls (x_ldId cf) Req = None" using no(2) by (simp add: ls_def lhead_def)
  have gr: "getAndRemove_Request (r_abandon io) (x_ldId cf) c ls = Some (Inr (0, ls))"
    by (simp add: getAndRemove_Request_def hd find_node_step(2))
  have rl: "reqs ls r = Some (rq\<lparr>ctx_rc := LDAP_TIMEOUT\<rparr>)" by (simp add: ls_def)
  have sw: "exec_switch cf lib io act fr (?st\<lparr>x_lists := ls\<rparr>) = Some (Inr (sw0\<lparr>w_retry := 1, w_count := True\<rparr>, fr, ?sb))"
    by (simp add: exec_switch_def exec_search_resp_def fr_def gr rl free_ctx_def sw0_def lb_def)
  have same: "lhead lb j d = lhead (x_lists st) j d" "nodes lb = nodes (x_lists st)" for j d
    by (simp_all add: lhead_def lb_def ls_def split: side.splits)
  have "lists_ok (x_lists ?sb) L" "contents (x_lists ?sb) (L i Req) = (m, c) # xs"
    using L assms(4) by (simp_all add: lists_ok_def same contents_def node_data_def)
  moreover have "get_req (x_lists ?sb) c = Inl UseAfterFree" by (simp add: get_req_def lb_def)
  ultimately have "getAndMove_RequestToResponse (x_verbose cf) now i m msg rc (x_lists ?sb) = Some (Inl UseAfterFree)"
    using getAndMove_fault assms(5) by blast
  with ch sw show ?thesis by blast
qed

definition x_due :: exec_state where
  "x_due = (x_st [x_act LDAP_Search_Rq])
     \<lparr>x_timer := \<lparr>tTimerCircularTable = [[7]], tTimerCircularTableSize = 1, currentIndex = 0, tableClosed = False\<rparr>\<rparr>"

lemma x_due_pending:
  "\<exists>ls. board ls (a_insert 0 11 7 (\<lambda>_ _. [])) \<and> sleeps ls = sleeps lstate0"
proof -
  obtain s1 where s1: "insert_Request 0 (Some 4) node0 0 11 7 lstate0 = Inr (0, s1)" "board s1 (a_insert 0 11 7 (\<lambda>_ _. []))"
    using insert_Request_board [OF board_lstate0, of 4 7 _ 0 node0 0 11] has_req7 by (auto simp: has_req_def lstate0_def)
  have "sleeps s1 = sleeps lstate0"
    using s1(1) by (auto simp: insert_Request_def chain_end_def set_last_def get_node_def lstate0_def lhead_def set_head_def Let_def)
  with s1(2) show ?thesis by blast
qed

theorem timeout_on_other_connection_witness:
  "\<exists>ls fr sa w fr' sb. exec_choose (x_cf False) RUNNING 0 x_fr (x_due\<lparr>x_lists := ls\<rparr>) = Inr (Run fr, sa)
     \<and> exec_switch (x_cf False) no_lib (x_io 0) (x_act LDAP_Search_Rq) fr sa = Some (Inr (w, fr', sb))
     \<and> getAndMove_RequestToResponse 0 (6, 0) 0 11 None 0 (x_lists sb) = Some (Inl UseAfterFree)"
proof -
  obtain ls where ls: "board ls (a_insert 0 11 7 (\<lambda>_ _. []))" "sleeps ls = sleeps lstate0" using x_due_pending by blast
  let ?st = "x_due\<lparr>x_lists := ls\<rparr>"
  have "tTimerGetUserToResume (x_timer ?st) = Inr (Some 7, \<lparr>tTimerCircularTable = [[]], tTimerCircularTableSize = 1, currentIndex = 0, tableClosed = False\<rparr>)"
    by (simp add: x_due_def tTimerGetUserToResume_def)
  moreover have "sleeps (x_lists ?st) 7 = Some \<lparr>sl_req = Some 70, sl_user = None, sl_sce = 0, sl_action = 0\<rparr>"
    by (simp add: ls(2) lstate0_def)
  moreover have "action_at ?st 0 0 = Inr (x_act LDAP_Search_Rq)" by (simp add: action_at_def x_due_def x_st_def x_sces_def)
  ultimately show ?thesis
    using timeout_on_other_connection [of ?st "a_insert 0 11 7 (\<lambda>_ _. [])" "x_cf False" 0 11 7 "[]"] ls(1)
    by (intro exI [of _ ls]) (simp add: x_cf_def a_insert_def x_act_def)
qed

end
