(* ===== verification/Tgen_Md5.thy ===== *)
theory Tgen_Md5
  imports Tgen_Prelude
begin

section \<open>MD5 and HMAC-MD5 (uma/Common/WpaSupplicant/md5.c)\<close>

text \<open>
  The digest that signs and encrypts RADIUS messages: the incremental implementation of MD5, which
  collects the fragments of a message in a buffer of 64 bytes, and HMAC on top of it. Memory is a list
  of bytes; a 32-bit word is read and written in little-endian order, as on the machines of the
  build, where \<^verbatim>\<open>byteReverse\<close> is empty. The incremental code is proved equal to the one-shot definition:
  pad the whole message, cut it into blocks, fold the transformation.
\<close>

unbundle bit_operations_syntax

type_synonym byte = "8 word"
type_synonym u32 = "32 word"
type_synonym md5_state = "u32 \<times> u32 \<times> u32 \<times> u32"

record MD5Context =
  md_buf :: md5_state
  md_bits0 :: u32
  md_bits1 :: u32
  md_in :: "byte list"

subsection \<open>The transformation\<close>

definition le32 :: "byte list \<Rightarrow> nat \<Rightarrow> u32" where
  "le32 m k = ucast (m ! (4 * k)) OR push_bit 8 (ucast (m ! (4 * k + 1)))
     OR push_bit 16 (ucast (m ! (4 * k + 2))) OR push_bit 24 (ucast (m ! (4 * k + 3)))"

definition le_bytes :: "u32 \<Rightarrow> byte list" where
  "le_bytes w = [ucast w, ucast (drop_bit 8 w), ucast (drop_bit 16 w), ucast (drop_bit 24 w)]"

definition F1 :: "u32 \<Rightarrow> u32 \<Rightarrow> u32 \<Rightarrow> u32" where "F1 x y z = z XOR (x AND (y XOR z))"
definition F2 :: "u32 \<Rightarrow> u32 \<Rightarrow> u32 \<Rightarrow> u32" where "F2 x y z = F1 z x y"
definition F3 :: "u32 \<Rightarrow> u32 \<Rightarrow> u32 \<Rightarrow> u32" where "F3 x y z = x XOR y XOR z"
definition F4 :: "u32 \<Rightarrow> u32 \<Rightarrow> u32 \<Rightarrow> u32" where "F4 x y z = y XOR (x OR NOT z)"

definition MD5STEP :: "(u32 \<Rightarrow> u32 \<Rightarrow> u32 \<Rightarrow> u32) \<Rightarrow> u32 \<Rightarrow> u32 \<Rightarrow> u32 \<Rightarrow> u32 \<Rightarrow> u32 \<Rightarrow> nat \<Rightarrow> u32" where
  "MD5STEP f w x y z data s = (let v = w + f x y z + data in (push_bit s v OR drop_bit (32 - s) v) + x)"

text \<open>
  The steps of a round in the order of the source: the word of the block, the constant, the rotation.
  After each step the four variables are rotated, as the argument lists of the macro calls are.
\<close>

fun md5_round :: "(u32 \<Rightarrow> u32 \<Rightarrow> u32 \<Rightarrow> u32) \<Rightarrow> (nat \<times> u32 \<times> nat) list \<Rightarrow> byte list \<Rightarrow> md5_state \<Rightarrow> md5_state" where
  "md5_round f [] m st = st"
| "md5_round f ((k, t, s) # ops) m (a, b, c, d) = md5_round f ops m (d, MD5STEP f a b c d (le32 m k + t) s, b, c)"

definition round1 :: "(nat \<times> u32 \<times> nat) list" where
  "round1 =
    [(0, 0xd76aa478, 7), (1, 0xe8c7b756, 12), (2, 0x242070db, 17), (3, 0xc1bdceee, 22),
     (4, 0xf57c0faf, 7), (5, 0x4787c62a, 12), (6, 0xa8304613, 17), (7, 0xfd469501, 22),
     (8, 0x698098d8, 7), (9, 0x8b44f7af, 12), (10, 0xffff5bb1, 17), (11, 0x895cd7be, 22),
     (12, 0x6b901122, 7), (13, 0xfd987193, 12), (14, 0xa679438e, 17), (15, 0x49b40821, 22)]"

definition round2 :: "(nat \<times> u32 \<times> nat) list" where
  "round2 =
    [(1, 0xf61e2562, 5), (6, 0xc040b340, 9), (11, 0x265e5a51, 14), (0, 0xe9b6c7aa, 20),
     (5, 0xd62f105d, 5), (10, 0x02441453, 9), (15, 0xd8a1e681, 14), (4, 0xe7d3fbc8, 20),
     (9, 0x21e1cde6, 5), (14, 0xc33707d6, 9), (3, 0xf4d50d87, 14), (8, 0x455a14ed, 20),
     (13, 0xa9e3e905, 5), (2, 0xfcefa3f8, 9), (7, 0x676f02d9, 14), (12, 0x8d2a4c8a, 20)]"

definition round3 :: "(nat \<times> u32 \<times> nat) list" where
  "round3 =
    [(5, 0xfffa3942, 4), (8, 0x8771f681, 11), (11, 0x6d9d6122, 16), (14, 0xfde5380c, 23),
     (1, 0xa4beea44, 4), (4, 0x4bdecfa9, 11), (7, 0xf6bb4b60, 16), (10, 0xbebfbc70, 23),
     (13, 0x289b7ec6, 4), (0, 0xeaa127fa, 11), (3, 0xd4ef3085, 16), (6, 0x04881d05, 23),
     (9, 0xd9d4d039, 4), (12, 0xe6db99e5, 11), (15, 0x1fa27cf8, 16), (2, 0xc4ac5665, 23)]"

definition round4 :: "(nat \<times> u32 \<times> nat) list" where
  "round4 =
    [(0, 0xf4292244, 6), (7, 0x432aff97, 10), (14, 0xab9423a7, 15), (5, 0xfc93a039, 21),
     (12, 0x655b59c3, 6), (3, 0x8f0ccc92, 10), (10, 0xffeff47d, 15), (1, 0x85845dd1, 21),
     (8, 0x6fa87e4f, 6), (15, 0xfe2ce6e0, 10), (6, 0xa3014314, 15), (13, 0x4e0811a1, 21),
     (4, 0xf7537e82, 6), (11, 0xbd3af235, 10), (2, 0x2ad7d2bb, 15), (9, 0xeb86d391, 21)]"

definition MD5Transform :: "md5_state \<Rightarrow> byte list \<Rightarrow> md5_state" where
  "MD5Transform st m =
     (case md5_round F4 round4 m (md5_round F3 round3 m (md5_round F2 round2 m (md5_round F1 round1 m st))) of
        (a, b, c, d) \<Rightarrow> case st of (a0, b0, c0, d0) \<Rightarrow> (a0 + a, b0 + b, c0 + c, d0 + d))"

subsection \<open>The incremental interface\<close>

definition md5_iv :: md5_state where
  "md5_iv = (0x67452301, 0xefcdab89, 0x98badcfe, 0x10325476)"

text \<open>\<open>junk\<close> is the content of the buffer before anything is copied into it.\<close>

definition MD5Init :: "byte list \<Rightarrow> MD5Context" where
  "MD5Init junk = \<lparr>md_buf = md5_iv, md_bits0 = 0, md_bits1 = 0, md_in = junk\<rparr>"

text \<open>\<^verbatim>\<open>memcpy(in + off, data, length data)\<close>\<close>

definition put_bytes :: "nat \<Rightarrow> byte list \<Rightarrow> byte list \<Rightarrow> byte list" where
  "put_bytes off data m = take off m @ data @ drop (off + length data) m"

function md5_chunks :: "byte list \<Rightarrow> MD5Context \<Rightarrow> MD5Context" where
  "md5_chunks data ctx =
     (if 64 \<le> length data
      then md5_chunks (drop 64 data)
             (ctx\<lparr>md_in := take 64 data, md_buf := MD5Transform (md_buf ctx) (take 64 data)\<rparr>)
      else ctx\<lparr>md_in := put_bytes 0 data (md_in ctx)\<rparr>)"
  by pat_completeness auto
termination
  by (relation "measure (length \<circ> fst)") auto

declare md5_chunks.simps [simp del]

text \<open>The length is an \<^verbatim>\<open>unsigned\<close>, so the caller's \<^verbatim>\<open>size_t\<close> is reduced to 32 bits.\<close>

definition MD5Update :: "byte list \<Rightarrow> MD5Context \<Rightarrow> MD5Context" where
  "MD5Update data0 ctx =
     (let len = (of_nat (length data0) :: u32);
          data = take (unat len) data0;
          b0 = md_bits0 ctx + push_bit 3 len;
          b1 = md_bits1 ctx + of_bool (b0 < md_bits0 ctx) + drop_bit 29 len;
          ctx1 = ctx\<lparr>md_bits0 := b0, md_bits1 := b1\<rparr>;
          t = unat (drop_bit 3 (md_bits0 ctx) AND 0x3f)
      in if t = 0 then md5_chunks data ctx1
         else if length data < 64 - t then ctx1\<lparr>md_in := put_bytes t data (md_in ctx)\<rparr>
         else let m = put_bytes t (take (64 - t) data) (md_in ctx)
              in md5_chunks (drop (64 - t) data) (ctx1\<lparr>md_in := m, md_buf := MD5Transform (md_buf ctx) m\<rparr>))"

definition digest_bytes :: "md5_state \<Rightarrow> byte list" where
  "digest_bytes st = (case st of (a, b, c, d) \<Rightarrow> le_bytes a @ le_bytes b @ le_bytes c @ le_bytes d)"

definition MD5Final :: "MD5Context \<Rightarrow> byte list" where
  "MD5Final ctx =
     (let count = unat (drop_bit 3 (md_bits0 ctx) AND 0x3f);
          m1 = put_bytes count [0x80] (md_in ctx);
          left = 64 - 1 - count;
          (st2, m2) = (if left < 8
             then let m = put_bytes (count + 1) (replicate left 0) m1
                  in (MD5Transform (md_buf ctx) m, put_bytes 0 (replicate 56 0) m)
             else (md_buf ctx, put_bytes (count + 1) (replicate (left - 8) 0) m1));
          m3 = put_bytes 60 (le_bytes (md_bits1 ctx)) (put_bytes 56 (le_bytes (md_bits0 ctx)) m2)
      in digest_bytes (MD5Transform st2 m3))"

definition md5_vector :: "byte list \<Rightarrow> byte list list \<Rightarrow> byte list" where
  "md5_vector junk frags = MD5Final (fold MD5Update frags (MD5Init junk))"

subsection \<open>HMAC\<close>

text \<open>\<^verbatim>\<open>memset(k_pad, 0, 64); memcpy(k_pad, key, key_len)\<close> and the exclusive or with a constant.\<close>

definition k_pad :: "byte list \<Rightarrow> byte \<Rightarrow> byte list" where
  "k_pad key c = map (\<lambda>b. b XOR c) (put_bytes 0 key (replicate 64 0))"

definition hmac_md5_vector :: "byte list \<Rightarrow> byte list \<Rightarrow> byte list list \<Rightarrow> byte list \<Rightarrow> byte list" where
  "hmac_md5_vector junk key0 frags mac =
     (if length frags > 5 then mac
      else let key = (if length key0 > 64 then md5_vector junk [key0] else key0);
               inner = md5_vector junk (k_pad key 0x36 # frags)
           in md5_vector junk [k_pad key 0x5c, inner])"

definition hmac_md5 :: "byte list \<Rightarrow> byte list \<Rightarrow> byte list \<Rightarrow> byte list \<Rightarrow> byte list" where
  "hmac_md5 junk key data mac = hmac_md5_vector junk key [data] mac"

definition md5_mac :: "byte list \<Rightarrow> byte list \<Rightarrow> byte list \<Rightarrow> byte list" where
  "md5_mac junk key data = md5_vector junk [key, data, key]"

subsection \<open>The one-shot definition\<close>

text \<open>The blocks of a message, and what is left when it has no block any more.\<close>

function run_blocks :: "md5_state \<Rightarrow> byte list \<Rightarrow> md5_state \<times> byte list" where
  "run_blocks st m = (if 64 \<le> length m then run_blocks (MD5Transform st (take 64 m)) (drop 64 m) else (st, m))"
  by pat_completeness auto
termination
  by (relation "measure (length \<circ> snd)") auto

declare run_blocks.simps [simp del]

text \<open>RFC 1321: a bit, zeros up to 56 modulo 64, and the number of bits modulo \<open>2 ^ 64\<close>, low word first.\<close>

definition md5_pad :: "nat \<Rightarrow> byte list" where
  "md5_pad n = 0x80 # replicate ((119 - n mod 64) mod 64) 0
     @ le_bytes (of_nat (8 * n mod (2 ^ 32 * 2 ^ 32) mod 2 ^ 32)) @ le_bytes (of_nat (8 * n mod (2 ^ 32 * 2 ^ 32) div 2 ^ 32))"

definition md5 :: "byte list \<Rightarrow> byte list" where
  "md5 m = digest_bytes (fst (run_blocks md5_iv (m @ md5_pad (length m))))"

text \<open>RFC 2104.\<close>

definition hmac :: "byte list \<Rightarrow> byte list \<Rightarrow> byte list" where
  "hmac key0 text =
     (let key = (if length key0 > 64 then md5 key0 else key0);
          pad = (\<lambda>c. map (\<lambda>b. b XOR c) (key @ replicate (64 - length key) 0))
      in md5 (pad 0x5c @ md5 (pad 0x36 @ text)))"

lemma run_blocks_short: "length m < 64 \<Longrightarrow> run_blocks st m = (st, m)"
  by (subst run_blocks.simps) simp

lemma run_blocks_step: "length b = 64 \<Longrightarrow> run_blocks st (b @ m) = run_blocks (MD5Transform st b) m"
  by (subst run_blocks.simps) simp

lemma run_blocks_append:
  "run_blocks st (xs @ ys) = (case run_blocks st xs of (st', r) \<Rightarrow> run_blocks st' (r @ ys))"
proof (induction st xs rule: run_blocks.induct)
  case (1 st m)
  show ?case
  proof (cases "64 \<le> length m")
    case True
    then have "run_blocks st (m @ ys) = run_blocks (MD5Transform st (take 64 m)) (drop 64 m @ ys)"
      "run_blocks st m = run_blocks (MD5Transform st (take 64 m)) (drop 64 m)"
      using run_blocks_step [of "take 64 m" st "drop 64 m @ ys"] run_blocks_step [of "take 64 m" st "drop 64 m"]
      by (simp_all flip: append_assoc)
    with 1 True show ?thesis by simp
  qed (simp add: run_blocks_short)
qed

lemma run_blocks_rest: "length (snd (run_blocks st m)) = length m mod 64"
proof (induction st m rule: run_blocks.induct)
  case (1 st m)
  show ?case
  proof (cases "64 \<le> length m")
    case True
    with 1 have "length (snd (run_blocks (MD5Transform st (take 64 m)) (drop 64 m))) = (length m - 64) mod 64" by simp
    with True show ?thesis by (subst run_blocks.simps) (simp add: le_mod_geq)
  qed (simp add: run_blocks_short)
qed

lemma length_put_bytes [simp]: "off + length d \<le> length m \<Longrightarrow> length (put_bytes off d m) = length m"
  by (simp add: put_bytes_def)

lemma take_put_bytes [simp]: "off \<le> length m \<Longrightarrow> take (off + length d) (put_bytes off d m) = take off m @ d"
  by (simp add: put_bytes_def)

lemma put_bytes_fill: "off + length d = length m \<Longrightarrow> put_bytes off d m = take off m @ d"
  by (simp add: put_bytes_def)

text \<open>The loop over whole chunks.\<close>

lemma md5_chunks_run:
  "length (md_in ctx) = 64 \<Longrightarrow>
     md_buf (md5_chunks d ctx) = fst (run_blocks (md_buf ctx) d) \<and> length (md_in (md5_chunks d ctx)) = 64
     \<and> take (length d mod 64) (md_in (md5_chunks d ctx)) = snd (run_blocks (md_buf ctx) d)
     \<and> md_bits0 (md5_chunks d ctx) = md_bits0 ctx \<and> md_bits1 (md5_chunks d ctx) = md_bits1 ctx"
proof (induction d ctx rule: md5_chunks.induct)
  case (1 d ctx)
  show ?case
  proof (cases "64 \<le> length d")
    case True
    then have "length d mod 64 = (length d - 64) mod 64" by (rule le_mod_geq)
    then show ?thesis using 1 True by (subst (1 2 3 4 5) md5_chunks.simps, subst (1 2) run_blocks.simps) simp
  next
    case False
    then show ?thesis
      using 1(2) take_put_bytes [of 0 "md_in ctx" d]
      by (subst (1 2 3 4 5) md5_chunks.simps) (simp add: run_blocks_short)
  qed
qed

subsection \<open>The incremental code computes the one-shot definition\<close>

definition md5_inv :: "MD5Context \<Rightarrow> byte list \<Rightarrow> bool" where
  "md5_inv ctx m \<longleftrightarrow> length (md_in ctx) = 64
     \<and> unat (md_bits0 ctx) + 2 ^ 32 * unat (md_bits1 ctx) = 8 * length m mod (2 ^ 32 * 2 ^ 32)
     \<and> run_blocks md5_iv m = (md_buf ctx, take (length m mod 64) (md_in ctx))"

lemma add_two_words:
  fixes A B P Q W :: nat
  assumes "0 < W"
  shows "(A + P) mod W + W * ((B + (A + P) div W + Q) mod W) = (A + W * B + (P + W * Q)) mod (W * W)"
proof -
  have e: "A + W * B + (P + W * Q) = (A + P) + W * (B + Q)" by (simp add: algebra_simps)
  have "((A + P) + W * (B + Q)) div W = B + (A + P) div W + Q" "((A + P) + W * (B + Q)) mod W = (A + P) mod W"
    using assms by simp_all
  then show ?thesis unfolding e mod_mult2_eq by simp
qed

lemma two_words:
  fixes A B W n :: nat
  assumes "A + W * B = n mod (W * W)" "A < W"
  shows "A = n mod (W * W) mod W" "B = n mod (W * W) div W"
  using assms(2) by (simp_all flip: assms(1))

lemma unat_push3: "unat (push_bit 3 (l :: u32)) = 8 * unat l mod 2 ^ 32"
  by (simp add: push_bit_eq_mult unat_word_ariths mult.commute)

lemma bits_filled:
  assumes "unat b0 + 2 ^ 32 * b1 = 8 * n mod (2 ^ 32 * 2 ^ 32)"
  shows "unat (drop_bit 3 (b0 :: u32) AND 0x3f) = n mod 64"
proof -
  have "(0x3f :: u32) = mask 6" by (simp add: mask_eq_decr_exp)
  then have "drop_bit 3 b0 AND 0x3f = take_bit 6 (drop_bit 3 b0)" by (simp add: take_bit_eq_mask)
  then have "unat (drop_bit 3 b0 AND 0x3f) = unat b0 div 8 mod 64"
    by (simp add: take_bit_eq_mod drop_bit_eq_div unat_div unat_mod)
  moreover have "unat b0 = 8 * n mod (2 ^ 32 * 2 ^ 32) mod 2 ^ 32" using two_words(1) [OF assms] unsigned_less [of b0] by simp
  then have "unat b0 = 8 * (n mod 2 ^ 29)" by (simp add: mod_mod_cancel mult_mod_right)
  ultimately show ?thesis by (simp add: mod_mod_cancel)
qed

text \<open>The 64-bit addition in two words.\<close>

lemma bits_add:
  fixes b0 b1 l :: u32
  assumes "unat b0 + 2 ^ 32 * unat b1 = n mod (2 ^ 32 * 2 ^ 32)"
  shows "unat (b0 + push_bit 3 l) + 2 ^ 32 * unat (b1 + of_bool (b0 + push_bit 3 l < b0) + drop_bit 29 l)
      = (n + 8 * unat l) mod (2 ^ 32 * 2 ^ 32)"
proof -
  define A where "A = unat b0"
  define P where "P = 8 * unat l mod 2 ^ 32"
  have r: "A < 2 ^ 32" "P < 2 ^ 32" using unsigned_less [of b0] by (simp_all add: A_def P_def)
  have s: "unat (b0 + push_bit 3 l) = (A + P) mod 2 ^ 32" by (simp add: unat_word_ariths unat_push3 A_def P_def)
  have "b0 + push_bit 3 l < b0 \<longleftrightarrow> (A + P) mod 2 ^ 32 < A" by (simp add: word_less_nat_alt s A_def)
  also have "\<dots> \<longleftrightarrow> 2 ^ 32 \<le> A + P"
    using r by (cases "A + P < 2 ^ 32") (simp_all add: le_mod_geq)
  finally have c: "unat (of_bool (b0 + push_bit 3 l < b0) :: u32) = (A + P) div 2 ^ 32"
    using r by (cases "A + P < 2 ^ 32") (simp_all add: le_div_geq)
  have h: "unat (drop_bit 29 l) = 8 * unat l div 2 ^ 32" by (simp add: drop_bit_eq_div unat_div)
  have "unat (b1 + of_bool (b0 + push_bit 3 l < b0) + drop_bit 29 l) = (unat b1 + (A + P) div 2 ^ 32 + 8 * unat l div 2 ^ 32) mod 2 ^ 32"
    unfolding c [symmetric] h [symmetric] by (simp add: unat_word_ariths mod_add_left_eq)
  then have "unat (b0 + push_bit 3 l) + 2 ^ 32 * unat (b1 + of_bool (b0 + push_bit 3 l < b0) + drop_bit 29 l)
      = (A + 2 ^ 32 * unat b1 + (P + 2 ^ 32 * (8 * unat l div 2 ^ 32))) mod (2 ^ 32 * 2 ^ 32)"
    unfolding s by (simp only: add_two_words [of "2 ^ 32"] zero_less_power zero_less_numeral)
  also have "P + 2 ^ 32 * (8 * unat l div 2 ^ 32) = 8 * unat l" unfolding P_def by (rule mod_mult_div_eq)
  also have "(A + 2 ^ 32 * unat b1 + 8 * unat l) mod (2 ^ 32 * 2 ^ 32) = (n + 8 * unat l) mod (2 ^ 32 * 2 ^ 32)"
    unfolding A_def assms by (rule mod_add_left_eq)
  finally show ?thesis .
qed

lemma md5_inv_init: "length junk = 64 \<Longrightarrow> md5_inv (MD5Init junk) []"
  by (simp add: md5_inv_def MD5Init_def run_blocks_short)

lemma md5_inv_chunks:
  assumes "length (md_in c) = 64" "run_blocks md5_iv m = run_blocks (md_buf c) d" "length d mod 64 = length m mod 64"
    and "unat (md_bits0 c) + 2 ^ 32 * unat (md_bits1 c) = 8 * length m mod (2 ^ 32 * 2 ^ 32)"
  shows "md5_inv (md5_chunks d c) m"
  using md5_chunks_run [OF assms(1), of d] assms(2-4) by (simp add: md5_inv_def)

lemma md5_inv_update:
  assumes inv: "md5_inv ctx m" and len: "length d < 2 ^ 32"
  shows "md5_inv (MD5Update d ctx) (m @ d)"
proof -
  define l where "l = (of_nat (length d) :: u32)"
  define r where "r = take (length m mod 64) (md_in ctx)"
  define c where "c = ctx\<lparr>md_bits0 := md_bits0 ctx + push_bit 3 l,
    md_bits1 := md_bits1 ctx + of_bool (md_bits0 ctx + push_bit 3 l < md_bits0 ctx) + drop_bit 29 l\<rparr>"
  let ?t = "length m mod 64"
  note I = inv [unfolded md5_inv_def]
  have l: "unat l = length d" using len by (simp add: l_def unat_of_nat)
  have bits: "unat (md_bits0 c) + 2 ^ 32 * unat (md_bits1 c) = 8 * length (m @ d) mod (2 ^ 32 * 2 ^ 32)"
  proof -
    have e: "8 * length (m @ d) = 8 * length m + 8 * unat l" by (simp add: l)
    show ?thesis unfolding e using bits_add [of "md_bits0 ctx" "md_bits1 ctx" "8 * length m" l] I by (simp only: c_def) simp
  qed
  have t: "unat (drop_bit 3 (md_bits0 ctx) AND 0x3f) = ?t" using bits_filled I by blast
  have run: "run_blocks md5_iv (m @ d) = run_blocks (md_buf ctx) (r @ d)" using I run_blocks_append [of md5_iv m d] by (simp add: r_def)
  have lr: "length r = ?t" using I by (simp add: r_def)
  have c: "length (md_in c) = 64" "md_buf c = md_buf ctx" "md_in c = md_in ctx" using I by (simp_all add: c_def)
  have upd: "MD5Update d ctx = (if ?t = 0 then md5_chunks d c
      else if length d < 64 - ?t then c\<lparr>md_in := put_bytes ?t d (md_in ctx)\<rparr>
      else md5_chunks (drop (64 - ?t) d)
        (c\<lparr>md_in := put_bytes ?t (take (64 - ?t) d) (md_in ctx), md_buf := MD5Transform (md_buf ctx) (put_bytes ?t (take (64 - ?t) d) (md_in ctx))\<rparr>))"
    unfolding MD5Update_def t Let_def l_def [symmetric] l c_def by simp
  have mod: "length (m @ d) mod 64 = (?t + length d) mod 64" by (simp add: mod_add_left_eq)
  consider "?t = 0" | "?t \<noteq> 0" "length d < 64 - ?t" | "?t \<noteq> 0" "64 - ?t \<le> length d" by linarith
  then show ?thesis
  proof cases
    case 1
    then show ?thesis
      using md5_inv_chunks [OF c(1), of "m @ d" d] bits run lr mod by (simp add: upd c)
  next
    case 2
    then have "length (m @ d) mod 64 = ?t + length d" using mod by simp
    then have "md5_inv (c\<lparr>md_in := put_bytes ?t d (md_in ctx)\<rparr>) (m @ d)"
      unfolding md5_inv_def run using 2 bits lr c take_put_bytes [of ?t "md_in ctx" d] I by (simp add: run_blocks_short r_def)
    with 2 show ?thesis by (simp only: upd if_False if_True)
  next
    case 3
    define b where "b = r @ take (64 - ?t) d"
    have b: "put_bytes ?t (take (64 - ?t) d) (md_in ctx) = b" "length b = 64" "r @ d = b @ drop (64 - ?t) d"
      using 3 I lr by (simp_all add: b_def put_bytes_fill r_def)
    have "?t + length d = 64 + (length d - (64 - ?t))" using 3(2) by simp
    then have "(length d - (64 - ?t)) mod 64 = length (m @ d) mod 64" unfolding mod by (simp only: mod_add_self1)
    then have "md5_inv (md5_chunks (drop (64 - ?t) d) (c\<lparr>md_in := b, md_buf := MD5Transform (md_buf ctx) b\<rparr>)) (m @ d)"
      using bits b run_blocks_step [OF b(2), of "md_buf ctx" "drop (64 - ?t) d"] by (intro md5_inv_chunks) (simp_all add: run)
    moreover have "\<not> length d < 64 - ?t" using 3(2) by simp
    ultimately show ?thesis using 3(1) by (simp only: upd if_False b(1))
  qed
qed

lemma md5_inv_fold:
  "md5_inv ctx m \<Longrightarrow> \<forall>d \<in> set frags. length d < 2 ^ 32 \<Longrightarrow> md5_inv (fold MD5Update frags ctx) (m @ concat frags)"
proof (induction frags arbitrary: ctx m)
  case (Cons d frags)
  then show ?case using md5_inv_update [of ctx m d] Cons.IH [of "MD5Update d ctx" "m @ d"] by simp
qed simp

lemma MD5Final_pad:
  assumes inv: "md5_inv ctx m"
  shows "MD5Final ctx = md5 m"
proof -
  define t where "t = length m mod 64"
  define r where "r = take t (md_in ctx)"
  define w where "w = le_bytes (md_bits0 ctx) @ le_bytes (md_bits1 ctx)"
  note I = inv [unfolded md5_inv_def]
  have t: "unat (drop_bit 3 (md_bits0 ctx) AND 0x3f) = t" "t < 64" using bits_filled I by (auto simp: t_def)
  have lr: "length r = t" using I t(2) by (simp add: r_def)
  have lw: "length w = 8" by (simp add: w_def le_bytes_def)
  have "unat (md_bits0 ctx) = 8 * length m mod (2 ^ 32 * 2 ^ 32) mod 2 ^ 32" "unat (md_bits1 ctx) = 8 * length m mod (2 ^ 32 * 2 ^ 32) div 2 ^ 32"
    using two_words [of "unat (md_bits0 ctx)" "2 ^ 32" "unat (md_bits1 ctx)" "8 * length m"] I unsigned_less [of "md_bits0 ctx"] by simp_all
  then have pad: "md5_pad (length m) = 0x80 # replicate ((119 - t) mod 64) 0 @ w"
    unfolding md5_pad_def t_def w_def by (simp only: flip: \<open>unat (md_bits0 ctx) = _\<close> \<open>unat (md_bits1 ctx) = _\<close>) simp
  have run: "run_blocks md5_iv (m @ md5_pad (length m)) = run_blocks (md_buf ctx) (r @ md5_pad (length m))"
    using I run_blocks_append [of md5_iv m "md5_pad (length m)"] by (simp add: r_def t_def)
  have put: "put_bytes 60 (le_bytes (md_bits1 ctx)) (put_bytes 56 (le_bytes (md_bits0 ctx)) b) = take 56 b @ w" if "length b = 64" for b
    using that by (simp add: put_bytes_def w_def le_bytes_def)
  have fin: "digest_bytes (MD5Transform st b) = digest_bytes (fst (run_blocks st b))" if "length b = 64" for st b
    using run_blocks_step [OF that, of st "[]"] run_blocks_short [of "[]"] by simp
  show ?thesis
  proof (cases "t < 56")
    case True
    define b where "b = put_bytes (t + 1) (replicate (63 - t - 8) 0) (put_bytes t [0x80] (md_in ctx))"
    have "56 - t = Suc (55 - t)" using True by simp
    then have b: "length b = 64" "take 56 b = r @ 0x80 # replicate (55 - t) 0"
      using True I by (simp_all add: b_def put_bytes_def r_def)
    have "\<not> 63 - t < 8" using True by simp
    then have "MD5Final ctx = digest_bytes (MD5Transform (md_buf ctx) (take 56 b @ w))"
      using put [OF b(1)] by (simp add: MD5Final_def Let_def t b_def)
    moreover have "(119 - t) mod 64 = 55 - t"
    proof -
      have "119 - t = 64 + (55 - t)" using True by simp
      then show ?thesis by (simp only: mod_add_self1) simp
    qed
    then have "take 56 b @ w = r @ md5_pad (length m)" "length (r @ md5_pad (length m)) = 64" using True lr lw by (simp_all add: b pad)
    ultimately show ?thesis using fin [of "r @ md5_pad (length m)"] by (simp add: md5_def run)
  next
    case False
    define b where "b = put_bytes (t + 1) (replicate (63 - t) 0) (put_bytes t [0x80] (md_in ctx))"
    have b: "b = r @ 0x80 # replicate (63 - t) 0" "length b = 64"
      using False t(2) I by (simp_all add: b_def put_bytes_def r_def)
    have "(119 - t) mod 64 = (63 - t) + 56" using t(2) False by simp
    then have p: "r @ md5_pad (length m) = b @ replicate 56 0 @ w" unfolding pad b(1) by (simp only: replicate_add append.simps append_assoc)
    have "length (put_bytes 0 (replicate 56 0) b) = 64" "take 56 (put_bytes 0 (replicate 56 0) b) = replicate 56 0"
      using b(2) by (simp_all add: put_bytes_def)
    moreover have "63 - t < 8" using False t(2) by simp
    ultimately have "MD5Final ctx = digest_bytes (MD5Transform (MD5Transform (md_buf ctx) b) (replicate 56 0 @ w))"
      using put [of "put_bytes 0 (replicate 56 0) b"] by (simp add: MD5Final_def Let_def t b_def)
    also have "\<dots> = digest_bytes (fst (run_blocks (MD5Transform (md_buf ctx) b) (replicate 56 0 @ w)))" using lw by (intro fin) simp
    also have "run_blocks (MD5Transform (md_buf ctx) b) (replicate 56 0 @ w) = run_blocks md5_iv (m @ md5_pad (length m))"
      unfolding run p by (rule run_blocks_step [OF b(2), symmetric])
    finally show ?thesis by (simp add: md5_def)
  qed
qed

lemma md5_vector_md5:
  "length junk = 64 \<Longrightarrow> \<forall>d \<in> set frags. length d < 2 ^ 32 \<Longrightarrow> md5_vector junk frags = md5 (concat frags)"
  using MD5Final_pad [OF md5_inv_fold [OF md5_inv_init]] by (simp add: md5_vector_def)

lemma length_md5 [simp]: "length (md5 m) = 16"
  by (simp add: md5_def digest_bytes_def le_bytes_def split: prod.split)

lemma k_pad_reference: "length key \<le> 64 \<Longrightarrow> k_pad key c = map (\<lambda>b. b XOR c) (key @ replicate (64 - length key) 0)"
  by (simp add: k_pad_def put_bytes_def)

lemma length_k_pad [simp]: "length key \<le> 64 \<Longrightarrow> length (k_pad key c) = 64"
  by (simp add: k_pad_def)

lemma hmac_md5_vector_hmac:
  assumes "length junk = 64" "\<forall>d \<in> set frags. length d < 2 ^ 32" "length key0 < 2 ^ 32" "length frags \<le> 5"
  shows "hmac_md5_vector junk key0 frags mac = hmac key0 (concat frags)"
proof -
  define key where "key = (if length key0 > 64 then md5 key0 else key0)"
  have k: "(if length key0 > 64 then md5_vector junk [key0] else key0) = key" "length key \<le> 64"
    using assms(1,3) by (simp_all add: key_def md5_vector_md5)
  have "md5_vector junk (k_pad key 0x36 # frags) = md5 (k_pad key 0x36 @ concat frags)"
    using assms k(2) by (subst md5_vector_md5) auto
  moreover have "md5_vector junk [k_pad key 0x5c, md5 (k_pad key 0x36 @ concat frags)]
      = md5 (k_pad key 0x5c @ md5 (k_pad key 0x36 @ concat frags))"
    using assms k(2) by (subst md5_vector_md5) auto
  ultimately show ?thesis
    using assms(4) k(2) unfolding hmac_md5_vector_def hmac_def Let_def k(1) key_def [symmetric] by (simp add: k_pad_reference)
qed

lemma hmac_md5_hmac:
  "length junk = 64 \<Longrightarrow> length data < 2 ^ 32 \<Longrightarrow> length key < 2 ^ 32 \<Longrightarrow> hmac_md5 junk key data mac = hmac key data"
  using hmac_md5_vector_hmac [of junk "[data]" key mac] by (simp add: hmac_md5_def)

lemma length_hmac [simp]: "length (hmac key text) = 16"
  by (simp add: hmac_def Let_def)

subsection \<open>Property\<close>



end
