(* ===== verification/Tgen_RadMsg.thy ===== *)
theory Tgen_RadMsg
  imports Tgen_Md5
begin

section \<open>RADIUS messages (uma/Common/WpaSupplicant/radius.c, wpa_radius.h)\<close>

text \<open>
  Building, signing, parsing and reading RADIUS messages. A message has a buffer at an address, the
  number of bytes used, and an array of pointers to its attributes; every access through such a
  pointer is checked against the buffer. Growing the buffer moves it: the new address for a size is
  an argument, as is whether the pointer array can be enlarged to a size. A buffer is grown to each
  size at most once, so these functions cover every behaviour of \<^verbatim>\<open>realloc\<close>. The content of the
  MD5 context before its initialisation is the argument \<open>junk\<close>. The copies which the readers of vendor
  attributes and keys return are values; that their allocation can fail, the null arguments that the
  readers refuse and messages to the console are left out.
\<close>

subsection \<open>State\<close>

record radius_msg =
  rm_addr :: int
  rm_buf :: "byte list"
  rm_used :: nat
  rm_attrs :: "int list"
  rm_asize :: nat

record mem =
  grow_buf :: "nat \<Rightarrow> int option"
  grow_arr :: "nat \<Rightarrow> bool"

definition RADIUS_MAX_ATTR_LEN :: nat where "RADIUS_MAX_ATTR_LEN = 253"
definition RADIUS_DEFAULT_MSG_SIZE :: nat where "RADIUS_DEFAULT_MSG_SIZE = 1024"
definition RADIUS_DEFAULT_ATTR_COUNT :: nat where "RADIUS_DEFAULT_ATTR_COUNT = 16"
definition RADIUS_HDR :: nat where "RADIUS_HDR = 20"

definition RADIUS_CODE_ACCESS_REQUEST :: byte where "RADIUS_CODE_ACCESS_REQUEST = 1"
definition RADIUS_CODE_ACCESS_ACCEPT :: byte where "RADIUS_CODE_ACCESS_ACCEPT = 2"
definition RADIUS_CODE_ACCESS_REJECT :: byte where "RADIUS_CODE_ACCESS_REJECT = 3"
definition RADIUS_CODE_ACCOUNTING_RESPONSE :: byte where "RADIUS_CODE_ACCOUNTING_RESPONSE = 5"
definition RADIUS_CODE_ACCESS_CHALLENGE :: byte where "RADIUS_CODE_ACCESS_CHALLENGE = 11"
definition RADIUS_ATTR_USER_PASSWORD :: byte where "RADIUS_ATTR_USER_PASSWORD = 2"
definition RADIUS_ATTR_STATE :: byte where "RADIUS_ATTR_STATE = 24"
definition RADIUS_ATTR_CLASS :: byte where "RADIUS_ATTR_CLASS = 25"
definition RADIUS_ATTR_VENDOR_SPECIFIC :: byte where "RADIUS_ATTR_VENDOR_SPECIFIC = 26"
definition RADIUS_ATTR_EAP_MESSAGE :: byte where "RADIUS_ATTR_EAP_MESSAGE = 79"
definition RADIUS_ATTR_MESSAGE_AUTHENTICATOR :: byte where "RADIUS_ATTR_MESSAGE_AUTHENTICATOR = 80"
definition RADIUS_VENDOR_ID_MICROSOFT :: nat where "RADIUS_VENDOR_ID_MICROSOFT = 311"
definition RADIUS_VENDOR_ID_CISCO :: nat where "RADIUS_VENDOR_ID_CISCO = 9"
definition RADIUS_CISCO_AV_PAIR :: byte where "RADIUS_CISCO_AV_PAIR = 1"
definition RADIUS_VENDOR_ATTR_MS_MPPE_SEND_KEY :: byte where "RADIUS_VENDOR_ATTR_MS_MPPE_SEND_KEY = 16"
definition RADIUS_VENDOR_ATTR_MS_MPPE_RECV_KEY :: byte where "RADIUS_VENDOR_ATTR_MS_MPPE_RECV_KEY = 17"
definition MD5_MAC_LEN :: nat where "MD5_MAC_LEN = 16"

text \<open>Network byte order.\<close>

definition be16 :: "nat \<Rightarrow> byte list" where
  "be16 n = [of_nat (n div 256), of_nat n]"

definition be32 :: "nat \<Rightarrow> byte list" where
  "be32 n = [of_nat (n div 2 ^ 24), of_nat (n div 2 ^ 16), of_nat (n div 2 ^ 8), of_nat n]"

definition be_val :: "byte list \<Rightarrow> nat" where
  "be_val bs = foldl (\<lambda>a b. 256 * a + unat b) 0 bs"

subsection \<open>Creation and header\<close>

definition radius_msg_initialize :: "int option \<Rightarrow> bool \<Rightarrow> nat \<Rightarrow> radius_msg option" where
  "radius_msg_initialize a arr init_len =
     (if init_len < RADIUS_HDR then None
      else case a of
        None \<Rightarrow> None
      | Some p \<Rightarrow>
          if arr then Some \<lparr>rm_addr = p, rm_buf = replicate init_len 0, rm_used = RADIUS_HDR, rm_attrs = [],
                            rm_asize = RADIUS_DEFAULT_ATTR_COUNT\<rparr>
          else None)"

definition radius_msg_set_hdr :: "byte \<Rightarrow> byte \<Rightarrow> radius_msg \<Rightarrow> radius_msg" where
  "radius_msg_set_hdr code ident m = m\<lparr>rm_buf := put_bytes 0 [code, ident] (rm_buf m)\<rparr>"

definition radius_msg_new :: "int option \<Rightarrow> bool \<Rightarrow> byte \<Rightarrow> byte \<Rightarrow> radius_msg option" where
  "radius_msg_new a arr code ident =
     map_option (radius_msg_set_hdr code ident) (radius_msg_initialize a arr RADIUS_DEFAULT_MSG_SIZE)"

definition hdr_code :: "radius_msg \<Rightarrow> byte" where "hdr_code m = rm_buf m ! 0"
definition hdr_identifier :: "radius_msg \<Rightarrow> byte" where "hdr_identifier m = rm_buf m ! 1"
definition hdr_authenticator :: "radius_msg \<Rightarrow> byte list" where "hdr_authenticator m = take 16 (drop 4 (rm_buf m))"

definition set_length :: "radius_msg \<Rightarrow> radius_msg" where
  "set_length m = m\<lparr>rm_buf := put_bytes 2 (be16 (rm_used m)) (rm_buf m)\<rparr>"

definition set_authenticator :: "byte list \<Rightarrow> radius_msg \<Rightarrow> radius_msg" where
  "set_authenticator a m = m\<lparr>rm_buf := put_bytes 4 a (rm_buf m)\<rparr>"

subsection \<open>Attributes\<close>

text \<open>Reads and writes through a pointer to an attribute.\<close>

definition at_ptr :: "radius_msg \<Rightarrow> int \<Rightarrow> nat \<Rightarrow> nat result" where
  "at_ptr m p n = guard (rm_addr m \<le> p \<and> p + int n \<le> rm_addr m + int (length (rm_buf m))) OutOfBounds (Inr (nat (p - rm_addr m)))"

definition attr_type :: "radius_msg \<Rightarrow> int \<Rightarrow> byte result" where
  "attr_type m p = rbind (at_ptr m p 1) (\<lambda>off. Inr (rm_buf m ! off))"

definition attr_length :: "radius_msg \<Rightarrow> int \<Rightarrow> nat result" where
  "attr_length m p = rbind (at_ptr m (p + 1) 1) (\<lambda>off. Inr (unat (rm_buf m ! off)))"

definition get_bytes :: "radius_msg \<Rightarrow> int \<Rightarrow> nat \<Rightarrow> byte list result" where
  "get_bytes m p n = rbind (at_ptr m p n) (\<lambda>off. Inr (take n (drop off (rm_buf m))))"

definition set_bytes :: "int \<Rightarrow> byte list \<Rightarrow> radius_msg \<Rightarrow> radius_msg result" where
  "set_bytes p d m = rbind (at_ptr m p (length d)) (\<lambda>off. Inr (m\<lparr>rm_buf := put_bytes off d (rm_buf m)\<rparr>))"

text \<open>The value of an attribute; \<^verbatim>\<open>length - 2\<close> is computed as \<^verbatim>\<open>size_t\<close>, so a length below 2 is a huge one.\<close>

definition attr_data :: "radius_msg \<Rightarrow> int \<Rightarrow> byte list result" where
  "attr_data m p = rbind (attr_length m p) (\<lambda>n. guard (2 \<le> n) OutOfBounds (get_bytes m (p + 2) (n - 2)))"

definition radius_msg_add_attr_to_array :: "mem \<Rightarrow> int \<Rightarrow> radius_msg \<Rightarrow> (bool \<times> radius_msg) result" where
  "radius_msg_add_attr_to_array al p m =
     (if rm_asize m \<le> length (rm_attrs m)
      then if grow_arr al (rm_asize m * 2)
           then guard (length (rm_attrs m) < rm_asize m * 2) BufferOverflow
                  (Inr (True, m\<lparr>rm_asize := rm_asize m * 2, rm_attrs := rm_attrs m @ [p]\<rparr>))
           else Inr (False, m)
      else Inr (True, m\<lparr>rm_attrs := rm_attrs m @ [p]\<rparr>))"

text \<open>
  \<^verbatim>\<open>while (nlen < buf_needed) nlen *= 2\<close> with an \<^verbatim>\<open>int\<close>: the loop does not end for 0, and doubling past the
  range is an overflow.
\<close>

function grow_len :: "nat \<Rightarrow> nat \<Rightarrow> nat result" where
  "grow_len n need =
     (if need \<le> n then Inr n else if n = 0 then Inl Hang else if 2 ^ 31 \<le> 2 * n then Inl IntOverflow else grow_len (2 * n) need)"
  by pat_completeness auto
termination
  by (relation "measure (\<lambda>(n, need). need - n)") auto

declare grow_len.simps [simp del]

text \<open>The larger buffer; \<^verbatim>\<open>diff\<close>, the distance to the old one, is an \<^verbatim>\<open>int\<close>.\<close>

definition enlarge :: "mem \<Rightarrow> nat \<Rightarrow> radius_msg \<Rightarrow> radius_msg option result" where
  "enlarge al need m =
     (if need \<le> length (rm_buf m) then Inr (Some m)
      else rbind (grow_len (length (rm_buf m)) need) (\<lambda>n.
        case grow_buf al n of
          None \<Rightarrow> Inr None
        | Some a \<Rightarrow> Inr (Some (m\<lparr>rm_addr := a, rm_attrs := map (\<lambda>p. p + to_int32 (a - rm_addr m)) (rm_attrs m),
                                rm_buf := rm_buf m @ replicate (n - length (rm_buf m)) 0\<rparr>))))"

definition radius_msg_add_attr :: "mem \<Rightarrow> byte \<Rightarrow> byte list \<Rightarrow> radius_msg \<Rightarrow> (int option \<times> radius_msg) result" where
  "radius_msg_add_attr al type data m =
     (if RADIUS_MAX_ATTR_LEN < length data then Inr (None, m)
      else rbind (enlarge al (rm_used m + 2 + length data) m) (\<lambda>r.
        case r of
          None \<Rightarrow> Inr (None, m)
        | Some m1 \<Rightarrow>
            let p = rm_addr m1 + int (rm_used m1);
                m2 = m1\<lparr>rm_buf := put_bytes (rm_used m1) (type # of_nat (2 + length data) # data) (rm_buf m1),
                        rm_used := rm_used m1 + 2 + length data\<rparr>
            in rbind (radius_msg_add_attr_to_array al p m2) (\<lambda>(ok, m3). Inr (if ok then Some p else None, m3))))"

definition radius_msg_add_attr_int32 :: "mem \<Rightarrow> byte \<Rightarrow> nat \<Rightarrow> radius_msg \<Rightarrow> (bool \<times> radius_msg) result" where
  "radius_msg_add_attr_int32 al type value m =
     rbind (radius_msg_add_attr al type (be32 value) m) (\<lambda>(p, m1). Inr (p \<noteq> None, m1))"

text \<open>The first attribute of a type, as the loops over the pointer array find it.\<close>

fun find_attr :: "radius_msg \<Rightarrow> byte \<Rightarrow> int list \<Rightarrow> int option result" where
  "find_attr m type [] = Inr None"
| "find_attr m type (p # ps) = rbind (attr_type m p) (\<lambda>t. if t = type then Inr (Some p) else find_attr m type ps)"

text \<open>The value is cut to the length of the caller's buffer; the result is its full length, or -1.\<close>

definition radius_msg_get_attr :: "radius_msg \<Rightarrow> byte \<Rightarrow> nat option \<Rightarrow> (int \<times> byte list) result" where
  "radius_msg_get_attr m type cap =
     rbind (find_attr m type (rm_attrs m)) (\<lambda>f. case f of
         None \<Rightarrow> Inr (-1, [])
       | Some p \<Rightarrow> (case cap of
             None \<Rightarrow> rbind (attr_length m p) (\<lambda>n. Inr (int n - 2, []))
           | Some c \<Rightarrow> rbind (attr_data m p) (\<lambda>d. Inr (int (length d), take c d))))"

definition radius_msg_get_attr_int32 :: "radius_msg \<Rightarrow> byte \<Rightarrow> nat option result" where
  "radius_msg_get_attr_int32 m type =
     rbind (radius_msg_get_attr m type (Some 4)) (\<lambda>(n, d). Inr (if n = 4 then Some (be_val d) else None))"

definition radius_msg_get_attr_ptr :: "radius_msg \<Rightarrow> byte \<Rightarrow> int option \<Rightarrow> (int \<times> byte list) option result" where
  "radius_msg_get_attr_ptr m type start =
     rbind (find_attr m type (filter (\<lambda>p. case start of None \<Rightarrow> True | Some s \<Rightarrow> s < p) (rm_attrs m))) (\<lambda>f. case f of
         None \<Rightarrow> Inr None
       | Some p \<Rightarrow> rbind (attr_data m p) (\<lambda>d. Inr (Some (p + 2, d))))"

fun radius_msg_count_attr :: "radius_msg \<Rightarrow> byte \<Rightarrow> nat \<Rightarrow> int list \<Rightarrow> nat result" where
  "radius_msg_count_attr m type min_len [] = Inr 0"
| "radius_msg_count_attr m type min_len (p # ps) =
     rbind (attr_type m p) (\<lambda>t. rbind (if t = type then attr_length m p else Inr 0) (\<lambda>n.
     rbind (radius_msg_count_attr m type min_len ps) (\<lambda>k. Inr (if t = type \<and> 2 + min_len \<le> n then Suc k else k))))"

definition radius_msg_copy_attr :: "mem \<Rightarrow> byte \<Rightarrow> radius_msg \<Rightarrow> radius_msg \<Rightarrow> (int \<times> radius_msg) result" where
  "radius_msg_copy_attr al type src dst =
     rbind (find_attr src type (rm_attrs src)) (\<lambda>f. case f of
         None \<Rightarrow> Inr (0, dst)
       | Some p \<Rightarrow> rbind (attr_data src p) (\<lambda>d. rbind (radius_msg_add_attr al type d dst) (\<lambda>(r, dst1).
           Inr (if r = None then -1 else 1, dst1))))"

subsection \<open>Parsing\<close>

function parse_attrs :: "mem \<Rightarrow> nat \<Rightarrow> nat \<Rightarrow> radius_msg \<Rightarrow> radius_msg option result" where
  "parse_attrs al fin pos m =
     (if fin \<le> pos then Inr (Some m)
      else if fin - pos < 2 then Inr None
      else let n = unat (rm_buf m ! (pos + 1))
           in if fin < pos + n \<or> n < 2 then Inr None
              else rbind (radius_msg_add_attr_to_array al (rm_addr m + int pos) m) (\<lambda>(ok, m1).
                     if ok then parse_attrs al fin (pos + n) m1 else Inr None))"
  by pat_completeness auto
termination
  by (relation "measure (\<lambda>(al, fin, pos, m). fin - pos)") auto

declare parse_attrs.simps [simp del]

definition radius_msg_parse :: "mem \<Rightarrow> int option \<Rightarrow> bool \<Rightarrow> byte list \<Rightarrow> radius_msg option result" where
  "radius_msg_parse al a arr data =
     (if length data < RADIUS_HDR then Inr None
      else let msg_len = be_val (take 2 (drop 2 data))
           in if msg_len < RADIUS_HDR \<or> length data < msg_len then Inr None
              else case radius_msg_initialize a arr msg_len of
                None \<Rightarrow> Inr None
              | Some m \<Rightarrow> parse_attrs al msg_len RADIUS_HDR (m\<lparr>rm_buf := take msg_len data, rm_used := msg_len\<rparr>))"

subsection \<open>EAP packets\<close>

text \<open>
  The two test flags replace the packet by its first six bytes, with the length 6 written into it (also
  in the caller's copy, which is not used again).
\<close>

function radius_msg_add_eap :: "mem \<Rightarrow> bool \<Rightarrow> byte list \<Rightarrow> radius_msg \<Rightarrow> (bool \<times> radius_msg) result" where
  "radius_msg_add_eap al no_data data m =
     (if data = [] then Inr (True, m)
      else if no_data
           then guard (6 \<le> length data) OutOfBounds
                  (rbind (radius_msg_add_attr al RADIUS_ATTR_EAP_MESSAGE (take 6 (put_bytes 2 (be16 6) data)) m) (\<lambda>(r, m1).
                     Inr (r \<noteq> None, m1)))
           else rbind (radius_msg_add_attr al RADIUS_ATTR_EAP_MESSAGE (take RADIUS_MAX_ATTR_LEN data) m) (\<lambda>(r, m1).
                  if r = None then Inr (False, m1) else radius_msg_add_eap al no_data (drop RADIUS_MAX_ATTR_LEN data) m1))"
  by pat_completeness auto
termination
  by (relation "measure (\<lambda>(al, nd, data, m). length data)") (auto simp: RADIUS_MAX_ATTR_LEN_def)

declare radius_msg_add_eap.simps [simp del]

fun eap_len :: "radius_msg \<Rightarrow> int list \<Rightarrow> nat result" where
  "eap_len m [] = Inr 0"
| "eap_len m (p # ps) =
     rbind (attr_type m p) (\<lambda>t. rbind (if t = RADIUS_ATTR_EAP_MESSAGE then rbind (attr_length m p) (\<lambda>n. Inr (n - 2)) else Inr 0) (\<lambda>n.
     rbind (eap_len m ps) (\<lambda>k. Inr (n + k))))"

fun eap_copy :: "radius_msg \<Rightarrow> int list \<Rightarrow> byte list result" where
  "eap_copy m [] = Inr []"
| "eap_copy m (p # ps) =
     rbind (attr_type m p) (\<lambda>t. rbind (if t = RADIUS_ATTR_EAP_MESSAGE then attr_data m p else Inr []) (\<lambda>d.
     rbind (eap_copy m ps) (\<lambda>ds. Inr (d @ ds))))"

definition radius_msg_get_eap :: "bool \<Rightarrow> radius_msg \<Rightarrow> byte list option result" where
  "radius_msg_get_eap alloc m =
     rbind (eap_len m (rm_attrs m)) (\<lambda>n.
       if n = 0 \<or> \<not> alloc then Inr None else rbind (eap_copy m (rm_attrs m)) (\<lambda>d. Inr (Some d)))"

subsection \<open>Signatures\<close>

text \<open>The result is 0, or -1 when the attribute cannot be added or the message is longer than 65535 bytes.\<close>

definition radius_msg_finish :: "mem \<Rightarrow> byte list \<Rightarrow> byte list option \<Rightarrow> radius_msg \<Rightarrow> (int \<times> radius_msg) result" where
  "radius_msg_finish al junk secret m =
     (case secret of
        None \<Rightarrow> Inr (if rm_used m > 65535 then -1 else 0, set_length m)
      | Some s \<Rightarrow>
          rbind (radius_msg_add_attr al RADIUS_ATTR_MESSAGE_AUTHENTICATOR (replicate MD5_MAC_LEN 0) m) (\<lambda>(p, m1).
            case p of
              None \<Rightarrow> Inr (-1, m1)
            | Some a \<Rightarrow>
                let m2 = set_length m1
                in rbind (set_bytes (a + 2) (hmac_md5 junk s (take (rm_used m2) (rm_buf m2)) (replicate MD5_MAC_LEN 0)) m2) (\<lambda>m3.
                     Inr (if rm_used m3 > 65535 then -1 else 0, m3))))"

text \<open>\<^verbatim>\<open>MD5(Code+ID+Length+RequestAuth+Attributes+Secret)\<close>\<close>

definition response_auth :: "byte list \<Rightarrow> byte list \<Rightarrow> byte list \<Rightarrow> radius_msg \<Rightarrow> byte list" where
  "response_auth junk secret req_auth m =
     md5_vector junk [take 4 (rm_buf m), take MD5_MAC_LEN req_auth, drop RADIUS_HDR (take (rm_used m) (rm_buf m)), secret]"

definition radius_msg_finish_srv :: "mem \<Rightarrow> byte list \<Rightarrow> byte list \<Rightarrow> byte list \<Rightarrow> radius_msg \<Rightarrow> (int \<times> radius_msg) result" where
  "radius_msg_finish_srv al junk secret req_auth m =
     rbind (radius_msg_add_attr al RADIUS_ATTR_MESSAGE_AUTHENTICATOR (replicate MD5_MAC_LEN 0) m) (\<lambda>(p, m1).
       case p of
         None \<Rightarrow> Inr (-1, m1)
       | Some a \<Rightarrow>
           let m2 = set_authenticator req_auth (set_length m1)
           in rbind (set_bytes (a + 2) (hmac_md5 junk secret (take (rm_used m2) (rm_buf m2)) (replicate MD5_MAC_LEN 0)) m2) (\<lambda>m3.
                Inr (if rm_used m3 > 65535 then -1 else 0, set_authenticator (response_auth junk secret req_auth m3) m3)))"

definition radius_msg_finish_acct :: "byte list \<Rightarrow> byte list \<Rightarrow> radius_msg \<Rightarrow> radius_msg" where
  "radius_msg_finish_acct junk secret m =
     (let m1 = set_authenticator (replicate MD5_MAC_LEN 0) (set_length m)
      in set_authenticator (md5_vector junk [take (rm_used m1) (rm_buf m1), secret]) m1)"

text \<open>The search for the only attribute of a type; a second one is an error.\<close>

fun only_attr :: "radius_msg \<Rightarrow> byte \<Rightarrow> int list \<Rightarrow> int option \<Rightarrow> int option option result" where
  "only_attr m type [] found = Inr (Some found)"
| "only_attr m type (p # ps) found =
     rbind (attr_type m p) (\<lambda>t.
       if t = type then if found \<noteq> None then Inr None else only_attr m type ps (Some p)
       else only_attr m type ps found)"

text \<open>
  The attribute and the authenticator are overwritten for the computation and restored after it. The
  16 bytes of the attribute are copied without looking at its length.
\<close>

definition radius_msg_verify_msg_auth :: "byte list \<Rightarrow> byte list \<Rightarrow> byte list option \<Rightarrow> radius_msg \<Rightarrow> (bool \<times> radius_msg) result" where
  "radius_msg_verify_msg_auth junk secret req_auth m =
     rbind (only_attr m RADIUS_ATTR_MESSAGE_AUTHENTICATOR (rm_attrs m) None) (\<lambda>f. case f of
         None \<Rightarrow> Inr (True, m)
       | Some None \<Rightarrow> Inr (True, m)
       | Some (Some p) \<Rightarrow>
           rbind (get_bytes m (p + 2) MD5_MAC_LEN) (\<lambda>orig.
           rbind (set_bytes (p + 2) (replicate MD5_MAC_LEN 0) m) (\<lambda>m1.
           let m2 = (case req_auth of None \<Rightarrow> m1 | Some r \<Rightarrow> set_authenticator r m1);
               auth = hmac_md5 junk secret (take (rm_used m2) (rm_buf m2)) (replicate MD5_MAC_LEN 0)
           in rbind (set_bytes (p + 2) orig m2) (\<lambda>m3.
              let m4 = (case req_auth of None \<Rightarrow> m3 | Some r \<Rightarrow> set_authenticator (hdr_authenticator m1) m3)
              in Inr (orig \<noteq> auth, m4)))))"

text \<open>\<^term>\<open>True\<close> means that the message is rejected, as the return value 1 does.\<close>

definition radius_msg_verify :: "byte list \<Rightarrow> byte list \<Rightarrow> radius_msg option \<Rightarrow> bool \<Rightarrow> radius_msg \<Rightarrow> (bool \<times> radius_msg) result" where
  "radius_msg_verify junk secret sent auth m =
     (case sent of
        None \<Rightarrow> Inr (True, m)
      | Some sm \<Rightarrow>
          rbind (if auth then radius_msg_verify_msg_auth junk secret (Some (hdr_authenticator sm)) m else Inr (False, m)) (\<lambda>(bad, m1).
            if bad then Inr (True, m1)
            else Inr (response_auth junk secret (hdr_authenticator sm) m1 \<noteq> hdr_authenticator m1, m1)))"

definition radius_msg_make_authenticator :: "byte list \<Rightarrow> byte list \<Rightarrow> byte list \<Rightarrow> byte list \<Rightarrow> radius_msg \<Rightarrow> radius_msg" where
  "radius_msg_make_authenticator junk tv data rnd m = set_authenticator (md5_vector junk [tv, data, rnd]) m"

subsection \<open>Vendor attributes and keys\<close>

function vendor_scan :: "byte \<Rightarrow> byte list \<Rightarrow> byte list option" where
  "vendor_scan subtype d =
     (if length d < 2 then None
      else let n = unat (d ! 1)
           in if length d < n \<or> n < 2 then None
              else if d ! 0 \<noteq> subtype then vendor_scan subtype (drop n d) else Some (take (n - 2) (drop 2 d)))"
  by pat_completeness auto
termination
  by (relation "measure (\<lambda>(s, d). length d)") auto

declare vendor_scan.simps [simp del]

fun vendor_attrs :: "radius_msg \<Rightarrow> nat \<Rightarrow> byte \<Rightarrow> int list \<Rightarrow> byte list option result" where
  "vendor_attrs m vendor subtype [] = Inr None"
| "vendor_attrs m vendor subtype (p # ps) =
     rbind (attr_type m p) (\<lambda>t.
       if t \<noteq> RADIUS_ATTR_VENDOR_SPECIFIC then vendor_attrs m vendor subtype ps
       else rbind (attr_data m p) (\<lambda>d.
         if length d < 4 \<or> be_val (take 4 d) \<noteq> vendor then vendor_attrs m vendor subtype ps
         else case vendor_scan subtype (drop 4 d) of
           None \<Rightarrow> vendor_attrs m vendor subtype ps
         | Some v \<Rightarrow> Inr (Some v)))"

definition radius_msg_get_vendor_attr :: "radius_msg \<Rightarrow> nat \<Rightarrow> byte \<Rightarrow> byte list option result" where
  "radius_msg_get_vendor_attr m vendor subtype = vendor_attrs m vendor subtype (rm_attrs m)"

definition radius_msg_get_wimax_vsa :: "radius_msg \<Rightarrow> nat \<Rightarrow> byte \<Rightarrow> byte list option result" where
  "radius_msg_get_wimax_vsa m vendor subtype = radius_msg_get_vendor_attr m vendor subtype"

text \<open>
  The chain of RFC 2865 and RFC 2548: each block of 16 bytes is combined with the digest of the secret
  and of the block before it. \<open>h\<close> maps the data after the secret to the digest.
\<close>

function chain_enc :: "(byte list list \<Rightarrow> byte list) \<Rightarrow> byte list list \<Rightarrow> byte list \<Rightarrow> byte list" where
  "chain_enc h iv p =
     (if p = [] then []
      else let c = map2 (XOR) (take 16 p) (h iv) in c @ chain_enc h [c] (drop 16 p))"
  by pat_completeness auto
termination
  by (relation "measure (\<lambda>(h, iv, p). length p)") auto

function chain_dec :: "(byte list list \<Rightarrow> byte list) \<Rightarrow> byte list list \<Rightarrow> byte list \<Rightarrow> byte list" where
  "chain_dec h iv c =
     (if c = [] then []
      else map2 (XOR) (take 16 c) (h iv) @ chain_dec h [take 16 c] (drop 16 c))"
  by pat_completeness auto
termination
  by (relation "measure (\<lambda>(h, iv, c). length c)") auto

declare chain_enc.simps [simp del] chain_dec.simps [simp del]

definition decrypt_ms_key :: "byte list \<Rightarrow> byte list \<Rightarrow> byte list \<Rightarrow> byte list \<Rightarrow> byte list option" where
  "decrypt_ms_key junk secret req_auth key =
     (if length key < 18 then None
      else if (length key - 2) mod 16 \<noteq> 0 then None
      else let plain = chain_dec (\<lambda>fr. md5_vector junk (secret # fr)) [take MD5_MAC_LEN req_auth, take 2 key] (drop 2 key)
           in if length plain - 1 < unat (plain ! 0) then None
              else Some (take (unat (plain ! 0)) (drop 1 plain)))"

text \<open>
  \<open>cap\<close> is the space behind \<^verbatim>\<open>ebuf\<close>. The length is rounded up to a multiple of 16 with the mask \<^verbatim>\<open>0xf0\<close>,
  which also removes the bits above the eighth.
\<close>

definition ms_len :: "nat \<Rightarrow> nat" where
  "ms_len key_len = (let len = 1 + key_len in if len mod 16 \<noteq> 0 then len div 16 mod 16 * 16 + 16 else len)"

definition encrypt_ms_key :: "byte list \<Rightarrow> byte list \<Rightarrow> byte list \<Rightarrow> byte list \<Rightarrow> byte list \<Rightarrow> nat \<Rightarrow> byte list result" where
  "encrypt_ms_key junk secret req_auth saltbuf key cap =
     (let len = ms_len (length key)
      in guard (len \<le> cap \<and> 1 + length key \<le> cap) BufferOverflow
           (Inr (chain_enc (\<lambda>fr. md5_vector junk (secret # fr)) [take MD5_MAC_LEN req_auth, saltbuf]
                  (take len (of_nat (length key) # key @ replicate (len - 1 - length key) 0)))))"

text \<open>One of the two keys, in a buffer of \<open>8 + space\<close> bytes.\<close>

definition add_mppe_key :: "mem \<Rightarrow> byte list \<Rightarrow> byte list \<Rightarrow> byte list \<Rightarrow> byte \<Rightarrow> 16 word \<Rightarrow> byte list \<Rightarrow> nat \<Rightarrow> radius_msg
    \<Rightarrow> (int option \<times> radius_msg) result" where
  "add_mppe_key al junk secret req_auth subtype salt key space m =
     (let saltbuf = [ucast (drop_bit 8 salt), ucast salt]
      in rbind (encrypt_ms_key junk secret req_auth saltbuf key space) (\<lambda>e.
           radius_msg_add_attr al RADIUS_ATTR_VENDOR_SPECIFIC
             (be32 RADIUS_VENDOR_ID_MICROSOFT @ [subtype, of_nat (8 + length e - 4)] @ saltbuf @ e) m))"

definition radius_msg_add_mppe_keys :: "mem \<Rightarrow> bool \<Rightarrow> bool \<Rightarrow> byte list \<Rightarrow> 16 word \<Rightarrow> byte list \<Rightarrow> byte list \<Rightarrow> byte list \<Rightarrow> byte list
    \<Rightarrow> radius_msg \<Rightarrow> (bool \<times> radius_msg) result" where
  "radius_msg_add_mppe_keys al a1 a2 junk rnd req_auth secret send_key recv_key m =
     (if \<not> a1 then Inr (False, m)
      else let salt = rnd OR 0x8000
           in rbind (add_mppe_key al junk secret req_auth RADIUS_VENDOR_ATTR_MS_MPPE_SEND_KEY salt send_key (length send_key + 16) m) (\<lambda>(p, m1).
                if p = None \<or> \<not> a2 then Inr (False, m1)
                else rbind (add_mppe_key al junk secret req_auth RADIUS_VENDOR_ATTR_MS_MPPE_RECV_KEY (salt XOR 1) recv_key (length send_key + 16) m1) (\<lambda>(q, m2).
                  Inr (q \<noteq> None, m2))))"

definition radius_msg_get_ms_keys :: "byte list \<Rightarrow> byte list \<Rightarrow> radius_msg \<Rightarrow> radius_msg \<Rightarrow> (byte list option \<times> byte list option) result" where
  "radius_msg_get_ms_keys junk secret sent m =
     (let dec = (\<lambda>v. case v of None \<Rightarrow> None | Some k \<Rightarrow> decrypt_ms_key junk secret (hdr_authenticator sent) k)
      in rbind (radius_msg_get_vendor_attr m RADIUS_VENDOR_ID_MICROSOFT RADIUS_VENDOR_ATTR_MS_MPPE_SEND_KEY) (\<lambda>s.
         rbind (radius_msg_get_vendor_attr m RADIUS_VENDOR_ID_MICROSOFT RADIUS_VENDOR_ATTR_MS_MPPE_RECV_KEY) (\<lambda>r.
         Inr (dec s, dec r))))"

definition leap_prefix :: "byte list" where
  "leap_prefix = map (\<lambda>c. of_nat (of_char c)) ''leap:session-key=''"

definition radius_msg_get_cisco_keys :: "byte list \<Rightarrow> byte list \<Rightarrow> radius_msg \<Rightarrow> radius_msg \<Rightarrow> (byte list option \<times> byte list option) result" where
  "radius_msg_get_cisco_keys junk secret sent m =
     rbind (radius_msg_get_vendor_attr m RADIUS_VENDOR_ID_CISCO RADIUS_CISCO_AV_PAIR) (\<lambda>v. case v of
         None \<Rightarrow> Inr (None, None)
       | Some k \<Rightarrow>
           if length k = 51 \<and> take 17 k = leap_prefix
           then Inr (None, decrypt_ms_key junk secret (hdr_authenticator sent) (drop 17 k)) else Inr (None, None))"

text \<open>The password is padded to a multiple of 16 bytes; an empty one has no block.\<close>

definition radius_msg_add_attr_user_password :: "mem \<Rightarrow> byte list \<Rightarrow> byte list \<Rightarrow> byte list \<Rightarrow> radius_msg \<Rightarrow> (int option \<times> radius_msg) result" where
  "radius_msg_add_attr_user_password al junk secret data m =
     (if 128 < length data then Inr (None, m)
      else let padded = data @ replicate (if length data mod 16 = 0 then 0 else 16 - length data mod 16) 0
           in radius_msg_add_attr al RADIUS_ATTR_USER_PASSWORD
                (chain_enc (\<lambda>fr. md5_vector junk (secret # fr)) [hdr_authenticator m] padded) m)"

subsection \<open>The abstract view: a header and a list of attributes\<close>

type_synonym attr = "byte \<times> byte list"

fun enc_attr :: "attr \<Rightarrow> byte list" where
  "enc_attr (t, d) = t # of_nat (2 + length d) # d"

definition enc_attrs :: "attr list \<Rightarrow> byte list" where
  "enc_attrs as = concat (map enc_attr as)"

fun offsets :: "nat \<Rightarrow> attr list \<Rightarrow> nat list" where
  "offsets pos [] = []"
| "offsets pos (a # as) = pos # offsets (pos + length (enc_attr a)) as"

definition view :: "radius_msg \<Rightarrow> byte list \<Rightarrow> attr list \<Rightarrow> bool" where
  "view m h as \<longleftrightarrow> length h = 20 \<and> (\<forall>a \<in> set as. length (snd a) \<le> 253) \<and> rm_used m = 20 + length (enc_attrs as)
     \<and> (\<exists>rest. rm_buf m = h @ enc_attrs as @ rest) \<and> rm_attrs m = map (\<lambda>n. rm_addr m + int n) (offsets 20 as)
     \<and> length as \<le> rm_asize m \<and> 0 < rm_asize m"

lemma enc_attrs_simps [simp]:
  "enc_attrs [] = []" "enc_attrs (a # as) = enc_attr a @ enc_attrs as" "enc_attrs (as @ bs) = enc_attrs as @ enc_attrs bs"
  by (simp_all add: enc_attrs_def)

lemma length_enc_attr [simp]: "length (enc_attr a) = 2 + length (snd a)"
  by (cases a) simp

lemma offsets_append [simp]: "offsets pos (as @ bs) = offsets pos as @ offsets (pos + length (enc_attrs as)) bs"
  by (induction as arbitrary: pos) (simp_all add: algebra_simps)

lemma length_offsets [simp]: "length (offsets pos as) = length as"
  by (induction as arbitrary: pos) simp_all

lemma view_used: "view m h as \<Longrightarrow> take (rm_used m) (rm_buf m) = h @ enc_attrs as"
  by (auto simp: view_def)

lemma viewD:
  assumes "view m h as"
  shows "length h = 20" "rm_used m = 20 + length (enc_attrs as)" "rm_used m \<le> length (rm_buf m)"
    "rm_attrs m = map (\<lambda>n. rm_addr m + int n) (offsets 20 as)" "a \<in> set as \<Longrightarrow> length (snd a) \<le> 253"
    "hdr_code m = h ! 0" "hdr_identifier m = h ! 1" "hdr_authenticator m = drop 4 h" "take 4 (rm_buf m) = take 4 h"
  using assms by (auto simp: view_def hdr_code_def hdr_identifier_def hdr_authenticator_def nth_append)

text \<open>The pointer to the attribute behind \<open>xs\<close>, and what is read through it.\<close>

abbreviation attr_ptr :: "radius_msg \<Rightarrow> attr list \<Rightarrow> int" where
  "attr_ptr m xs \<equiv> rm_addr m + int (20 + length (enc_attrs xs))"

lemma at_ptr_off: "off + n \<le> length (rm_buf m) \<Longrightarrow> at_ptr m (rm_addr m + int off) n = Inr off"
  by (simp add: at_ptr_def)

lemma view_read:
  assumes v: "view m h (xs @ (t, d) # ys)"
  shows "attr_type m (attr_ptr m xs) = Inr t" "attr_length m (attr_ptr m xs) = Inr (2 + length d)"
    "n \<le> length d \<Longrightarrow> get_bytes m (attr_ptr m xs + 2) n = Inr (take n d)" "attr_data m (attr_ptr m xs) = Inr d"
proof -
  let ?o = "20 + length (enc_attrs xs)"
  obtain rest where b: "rm_buf m = h @ enc_attrs xs @ (t # of_nat (2 + length d) # d) @ enc_attrs ys @ rest" "length h = 20" "length d \<le> 253"
    using v by (auto simp: view_def)
  have off: "at_ptr m (attr_ptr m xs) 1 = Inr ?o" "at_ptr m (attr_ptr m xs + 1) 1 = Inr (?o + 1)"
    using at_ptr_off [of ?o 1 m] at_ptr_off [of "?o + 1" 1 m] b by (simp_all add: algebra_simps)
  show t: "attr_type m (attr_ptr m xs) = Inr t" using off(1) b by (simp add: attr_type_def nth_append)
  have "unat (of_nat (2 + length d) :: byte) = 2 + length d" unfolding unat_of_nat using b(3) by simp
  then show l: "attr_length m (attr_ptr m xs) = Inr (2 + length d)" using off(2) b by (simp add: attr_length_def nth_append)
  show g: "get_bytes m (attr_ptr m xs + 2) n = Inr (take n d)" if "n \<le> length d" for n
  proof -
    have "at_ptr m (attr_ptr m xs + 2) n = Inr (?o + 2)" using at_ptr_off [of "?o + 2" n m] b that by (simp add: algebra_simps)
    moreover have "drop (?o + 2) (rm_buf m) = d @ enc_attrs ys @ rest" using b(1,2) by simp
    ultimately show ?thesis using that by (simp add: get_bytes_def)
  qed
  show "attr_data m (attr_ptr m xs) = Inr d" using l g [of "length d"] by (simp add: attr_data_def)
qed

lemma view_split_attrs:
  "view m h (xs @ ys) \<Longrightarrow> map (\<lambda>n. rm_addr m + int n) (offsets (20 + length (enc_attrs xs)) ys)
     = (case ys of [] \<Rightarrow> [] | y # zs \<Rightarrow> attr_ptr m xs # map (\<lambda>n. rm_addr m + int n) (offsets (20 + length (enc_attrs (xs @ [y]))) zs))"
  by (cases ys) (simp_all add: algebra_simps)

text \<open>Every loop over the pointers is a loop over the attributes.\<close>

lemma find_attr_view:
  assumes "view m h (xs @ ys)"
  shows "\<exists>f. find_attr m type (map (\<lambda>n. rm_addr m + int n) (offsets (20 + length (enc_attrs xs)) ys)) = Inr f
    \<and> (case map_of ys type of None \<Rightarrow> f = None | Some d \<Rightarrow> \<exists>p. f = Some p \<and> attr_data m p = Inr d \<and> attr_length m p = Inr (2 + length d))"
  using assms
proof (induction ys arbitrary: xs)
  case (Cons y ys)
  obtain t d where y: "y = (t, d)" by (cases y)
  note r = view_read [OF Cons.prems [unfolded y]]
  have "view m h ((xs @ [y]) @ ys)" using Cons.prems by simp
  from Cons.IH [OF this] r show ?case unfolding view_split_attrs [OF Cons.prems] by (auto simp: y)
qed simp

lemma get_attr_view:
  assumes "view m h as"
  shows "radius_msg_get_attr m type (Some c) = Inr (case map_of as type of None \<Rightarrow> (-1, []) | Some d \<Rightarrow> (int (length d), take c d))"
    "radius_msg_get_attr m type None = Inr (case map_of as type of None \<Rightarrow> (-1, []) | Some d \<Rightarrow> (int (length d), []))"
proof -
  from find_attr_view [of m h "[]" as type] assms obtain f where "find_attr m type (rm_attrs m) = Inr f"
      "case map_of as type of None \<Rightarrow> f = None | Some d \<Rightarrow> \<exists>p. f = Some p \<and> attr_data m p = Inr d \<and> attr_length m p = Inr (2 + length d)"
    using viewD(4) [OF assms] by auto
  then show "radius_msg_get_attr m type (Some c) = Inr (case map_of as type of None \<Rightarrow> (-1, []) | Some d \<Rightarrow> (int (length d), take c d))"
    "radius_msg_get_attr m type None = Inr (case map_of as type of None \<Rightarrow> (-1, []) | Some d \<Rightarrow> (int (length d), []))"
    by (cases "map_of as type"; auto simp: radius_msg_get_attr_def simp del: rbind_eq_Inr)+
qed

definition eap_of :: "attr list \<Rightarrow> byte list" where
  "eap_of as = concat (map snd (filter (\<lambda>a. fst a = RADIUS_ATTR_EAP_MESSAGE) as))"

lemma eap_view:
  "view m h (xs @ ys) \<Longrightarrow>
     eap_copy m (map (\<lambda>n. rm_addr m + int n) (offsets (20 + length (enc_attrs xs)) ys)) = Inr (eap_of ys)
     \<and> eap_len m (map (\<lambda>n. rm_addr m + int n) (offsets (20 + length (enc_attrs xs)) ys)) = Inr (length (eap_of ys))"
proof (induction ys arbitrary: xs)
  case (Cons y ys)
  obtain t d where y: "y = (t, d)" by (cases y)
  note r = view_read [OF Cons.prems [unfolded y]]
  have "view m h ((xs @ [y]) @ ys)" using Cons.prems by simp
  from Cons.IH [OF this] r show ?case
    unfolding view_split_attrs [OF Cons.prems] by (simp add: y eap_of_def del: rbind_eq_Inr)
qed (simp add: eap_of_def)

lemma get_eap_view:
  "view m h as \<Longrightarrow> radius_msg_get_eap True m = Inr (if eap_of as = [] then None else Some (eap_of as))"
  using eap_view [of m h "[]" as] viewD(4) [of m h as] by (simp add: radius_msg_get_eap_def)

lemma only_attr_none:
  "view m h (xs @ ys) \<Longrightarrow> \<forall>a \<in> set ys. fst a \<noteq> type \<Longrightarrow>
     only_attr m type (map (\<lambda>n. rm_addr m + int n) (offsets (20 + length (enc_attrs xs)) ys)) f = Inr (Some f)"
proof (induction ys arbitrary: xs)
  case (Cons y ys)
  obtain t d where y: "y = (t, d)" by (cases y)
  note r = view_read [OF Cons.prems(1) [unfolded y]]
  have "view m h ((xs @ [y]) @ ys)" using Cons.prems(1) by simp
  from Cons.IH [OF this] r Cons.prems(2) show ?case
    unfolding view_split_attrs [OF Cons.prems(1)] by (simp add: y)
qed simp

lemma only_attr_one:
  "view m h (xs @ ws @ (type, d) # ys) \<Longrightarrow> \<forall>a \<in> set ws. fst a \<noteq> type \<Longrightarrow> \<forall>a \<in> set ys. fst a \<noteq> type \<Longrightarrow>
     only_attr m type (map (\<lambda>n. rm_addr m + int n) (offsets (20 + length (enc_attrs xs)) (ws @ (type, d) # ys))) None
       = Inr (Some (Some (attr_ptr m (xs @ ws))))"
proof (induction ws arbitrary: xs)
  case Nil
  note r = view_read [of m h xs type d ys]
  have "view m h ((xs @ [(type, d)]) @ ys)" using Nil.prems(1) by simp
  from only_attr_none [OF this Nil.prems(3)] r Nil.prems(1) show ?case
    using view_split_attrs [of m h xs "(type, d) # ys"] by simp
next
  case (Cons w ws)
  obtain t e where w: "w = (t, e)" by (cases w)
  have v: "view m h (xs @ (t, e) # (ws @ (type, d) # ys))" using Cons.prems(1) by (simp add: w)
  have "view m h ((xs @ [w]) @ ws @ (type, d) # ys)" using Cons.prems(1) by simp
  from Cons.IH [OF this] Cons.prems(2,3) view_read(1) [OF v] show ?case
    using view_split_attrs [OF v] by (simp add: w)
qed

text \<open>Overwriting the value of an attribute, the authenticator, or the length in the header.\<close>

lemma view_set_bytes:
  assumes v: "view m h (xs @ (t, d) # ys)" and l: "length e = length d"
  shows "\<exists>m'. set_bytes (attr_ptr m xs + 2) e m = Inr m' \<and> view m' h (xs @ (t, e) # ys) \<and> rm_addr m' = rm_addr m \<and> rm_asize m' = rm_asize m"
proof -
  let ?o = "20 + length (enc_attrs xs) + 2"
  obtain rest where b: "rm_buf m = (h @ enc_attrs xs @ [t, of_nat (2 + length d)]) @ d @ enc_attrs ys @ rest" "length h = 20"
    using v by (auto simp: view_def)
  have "at_ptr m (attr_ptr m xs + 2) (length e) = Inr ?o" using at_ptr_off [of ?o "length e" m] b l by (simp add: algebra_simps)
  moreover have "put_bytes ?o e (rm_buf m) = (h @ enc_attrs xs @ [t, of_nat (2 + length e)]) @ e @ enc_attrs ys @ rest"
    using b l by (simp add: put_bytes_def)
  ultimately show ?thesis using v l by (auto simp: set_bytes_def view_def)
qed

lemma put_bytes_prefix: "off + length d \<le> length h \<Longrightarrow> put_bytes off d (h @ r) = put_bytes off d h @ r"
  by (simp add: put_bytes_def)

lemma view_put_hdr:
  assumes "view m h as" "off + length d \<le> 20"
  shows "view (m\<lparr>rm_buf := put_bytes off d (rm_buf m)\<rparr>) (put_bytes off d h) as"
  using assms put_bytes_prefix [of off d h] by (auto simp: view_def)

lemma view_set_authenticator: "view m h as \<Longrightarrow> length a = 16 \<Longrightarrow> view (set_authenticator a m) (take 4 h @ a) as"
  using view_put_hdr [of m h as 4 a] viewD(1) [of m h as] by (simp add: set_authenticator_def put_bytes_def)

lemma view_set_length: "view m h as \<Longrightarrow> view (set_length m) (take 2 h @ be16 (rm_used m) @ drop 4 h) as"
  using view_put_hdr [of m h as 2 "be16 (rm_used m)"] by (simp add: set_length_def put_bytes_def be16_def)

lemma set_hdr_sel [simp]:
  "rm_addr (set_authenticator a m) = rm_addr m" "rm_addr (set_length m) = rm_addr m" "rm_used (set_length m) = rm_used m"
  "rm_used (set_authenticator a m) = rm_used m" "rm_attrs (set_authenticator a m) = rm_attrs m"
  by (simp_all add: set_authenticator_def set_length_def)

text \<open>
  What the code relies on in the allocator: it succeeds, and all buffers of a message lie in a window
  of 2 GB, so that their distance is an \<^verbatim>\<open>int\<close>.
\<close>

definition near :: "mem \<Rightarrow> int \<Rightarrow> bool" where
  "near al c \<longleftrightarrow> (\<forall>n. grow_arr al n \<and> (\<exists>a. grow_buf al n = Some a \<and> c \<le> a \<and> a < c + 2 ^ 31))"

definition placed :: "int \<Rightarrow> radius_msg \<Rightarrow> bool" where
  "placed c m \<longleftrightarrow> c \<le> rm_addr m \<and> rm_addr m < c + 2 ^ 31"

lemma grow_len_ok: "0 < n \<Longrightarrow> need \<le> 2 ^ 30 \<Longrightarrow> \<exists>k. grow_len n need = Inr k \<and> need \<le> k \<and> n \<le> k"
proof (induction n need rule: grow_len.induct)
  case (1 n need)
  show ?case
  proof (cases "need \<le> n")
    case False
    then have "2 * n < 2 ^ 31" using 1(3) by simp
    with False 1 obtain k where "grow_len (2 * n) need = Inr k" "need \<le> k" "2 * n \<le> k" by auto
    with False \<open>2 * n < 2 ^ 31\<close> 1(2) show ?thesis by (subst grow_len.simps) auto
  qed (simp add: grow_len.simps)
qed

lemma enlarge_view:
  assumes v: "view m h as" "placed c m" and al: "near al c" and need: "need \<le> 2 ^ 30"
  shows "\<exists>m'. enlarge al need m = Inr (Some m') \<and> view m' h as \<and> placed c m' \<and> need \<le> length (rm_buf m') \<and> rm_used m' = rm_used m"
proof (cases "need \<le> length (rm_buf m)")
  case True
  then show ?thesis using v by (simp add: enlarge_def)
next
  case False
  have "0 < length (rm_buf m)" using viewD(2,3) [OF v(1)] by linarith
  from grow_len_ok [OF this need] obtain k where k: "grow_len (length (rm_buf m)) need = Inr k" "need \<le> k" "length (rm_buf m) \<le> k" by blast
  obtain a where a: "grow_buf al k = Some a" "c \<le> a" "a < c + 2 ^ 31" using al by (auto simp: near_def)
  have d: "to_int32 (a - rm_addr m) = a - rm_addr m" using a v(2) by (intro to_int32_id) (auto simp: placed_def)
  define m' where "m' = m\<lparr>rm_addr := a, rm_attrs := map (\<lambda>p. p + (a - rm_addr m)) (rm_attrs m), rm_buf := rm_buf m @ replicate (k - length (rm_buf m)) 0\<rparr>"
  have "enlarge al need m = Inr (Some m')" using False k a by (simp add: enlarge_def d m'_def)
  moreover have "view m' h as" using v(1) by (auto simp: view_def m'_def)
  ultimately show ?thesis using a k by (auto simp: placed_def m'_def)
qed

lemma add_to_array_view:
  assumes al: "near al c" and "length (rm_attrs m) \<le> rm_asize m" "0 < rm_asize m"
  shows "\<exists>z. radius_msg_add_attr_to_array al p m = Inr (True, m\<lparr>rm_asize := z, rm_attrs := rm_attrs m @ [p]\<rparr>)
    \<and> Suc (length (rm_attrs m)) \<le> z \<and> 0 < z"
proof (cases "rm_asize m \<le> length (rm_attrs m)")
  case True
  then have "Suc (length (rm_attrs m)) \<le> rm_asize m * 2" using assms(2,3) by linarith
  moreover have "grow_arr al (rm_asize m * 2)" using al by (simp add: near_def)
  ultimately show ?thesis using True assms(3) by (intro exI [of _ "rm_asize m * 2"]) (simp add: radius_msg_add_attr_to_array_def)
next
  case False
  then show ?thesis using assms(3) by (intro exI [of _ "rm_asize m"]) (auto simp: radius_msg_add_attr_to_array_def)
qed

lemma add_attr_view:
  assumes v: "view m h as" "placed c m" and al: "near al c" and d: "length d \<le> 253" and sz: "rm_used m + 255 \<le> 2 ^ 30"
  shows "\<exists>m'. radius_msg_add_attr al t d m = Inr (Some (attr_ptr m' as), m') \<and> view m' h (as @ [(t, d)]) \<and> placed c m'"
proof -
  have "rm_used m + 2 + length d \<le> 2 ^ 30" using d sz by simp
  from enlarge_view [OF v al this] obtain m1 where m1: "enlarge al (rm_used m + 2 + length d) m = Inr (Some m1)" "view m1 h as" "placed c m1"
      "rm_used m + 2 + length d \<le> length (rm_buf m1)" "rm_used m1 = rm_used m" by blast
  let ?p = "rm_addr m1 + int (rm_used m1)"
  define m2 where "m2 = m1\<lparr>rm_buf := put_bytes (rm_used m1) (enc_attr (t, d)) (rm_buf m1), rm_used := rm_used m1 + 2 + length d\<rparr>"
  have "length (rm_attrs m2) \<le> rm_asize m2" "0 < rm_asize m2" using m1(2) by (auto simp: m2_def view_def)
  from add_to_array_view [OF al this] obtain z where z: "radius_msg_add_attr_to_array al ?p m2 = Inr (True, m2\<lparr>rm_asize := z, rm_attrs := rm_attrs m2 @ [?p]\<rparr>)"
      "Suc (length (rm_attrs m2)) \<le> z" "0 < z" by blast
  let ?m = "m2\<lparr>rm_asize := z, rm_attrs := rm_attrs m2 @ [?p]\<rparr>"
  have "radius_msg_add_attr al t d m = Inr (Some ?p, ?m)"
    using d m1(1) z(1) by (simp add: radius_msg_add_attr_def RADIUS_MAX_ATTR_LEN_def m2_def Let_def del: rbind_eq_Inr)
  moreover have "view ?m h (as @ [(t, d)])"
  proof -
    obtain rest where b: "rm_buf m1 = (h @ enc_attrs as) @ rest" "length (h @ enc_attrs as) = rm_used m1" using m1(2) by (auto simp: view_def)
    then have "put_bytes (rm_used m1) (enc_attr (t, d)) (rm_buf m1) = h @ enc_attrs (as @ [(t, d)]) @ drop (2 + length d) rest"
      by (simp add: put_bytes_def)
    then show ?thesis using m1(2) d z by (auto simp: view_def m2_def)
  qed
  moreover have "?p = attr_ptr ?m as" "placed c ?m" using m1(3) viewD(2) [OF m1(2)] by (simp_all add: m2_def placed_def)
  ultimately show ?thesis by (intro exI [of _ ?m]) simp
qed


text \<open>An EAP packet is spread over attributes of at most 253 bytes.\<close>

function eap_attrs :: "byte list \<Rightarrow> attr list" where
  "eap_attrs d = (if d = [] then [] else (RADIUS_ATTR_EAP_MESSAGE, take 253 d) # eap_attrs (drop 253 d))"
  by pat_completeness auto
termination
  by (relation "measure length") auto

declare eap_attrs.simps [simp del]

lemma eap_attrs_Nil [simp]: "eap_attrs [] = []"
  by (simp add: eap_attrs.simps)

lemma eap_of_append [simp]: "eap_of (as @ bs) = eap_of as @ eap_of bs"
  by (simp add: eap_of_def)

lemma eap_of_attrs [simp]: "eap_of (eap_attrs d) = d"
proof (induction d rule: eap_attrs.induct)
  case (1 d)
  then show ?case by (subst eap_attrs.simps) (auto simp: eap_of_def)
qed

lemma eap_attrs_type: "a \<in> set (eap_attrs d) \<Longrightarrow> fst a = RADIUS_ATTR_EAP_MESSAGE"
proof (induction d rule: eap_attrs.induct)
  case (1 d)
  from 1(2) have "d \<noteq> []" "a = (RADIUS_ATTR_EAP_MESSAGE, take 253 d) \<or> a \<in> set (eap_attrs (drop 253 d))"
    by (subst (asm) eap_attrs.simps, auto split: if_splits)+
  then show ?case using 1(1) by auto
qed

lemma length_eap_attrs: "length (enc_attrs (eap_attrs d)) \<le> 3 * length d"
proof (induction d rule: eap_attrs.induct)
  case (1 d)
  show ?case
  proof (cases "d = []")
    case False
    then have "length (enc_attrs (eap_attrs d)) = 2 + min (length d) 253 + length (enc_attrs (eap_attrs (drop 253 d)))"
      by (subst eap_attrs.simps) simp
    also have "\<dots> \<le> 3 * length d" using 1 [OF False] False by (cases d; cases "length d \<le> 253") simp_all
    finally show ?thesis .
  qed simp
qed

lemma add_eap_view:
  assumes "view m h as" "placed c m" "near al c" "rm_used m + 3 * length d + 255 \<le> 2 ^ 30"
  shows "\<exists>m'. radius_msg_add_eap al False d m = Inr (True, m') \<and> view m' h (as @ eap_attrs d) \<and> placed c m'"
  using assms
proof (induction al False d m arbitrary: as rule: radius_msg_add_eap.induct)
  case (1 al d m)
  note p = 1(2,3,4,5)
  show ?case
  proof (cases "d = []")
    case True
    then show ?thesis using p(1,2) by (simp add: radius_msg_add_eap.simps)
  next
    case False
    have "length (take 253 d) \<le> 253" "rm_used m + 255 \<le> 2 ^ 30" using p(4) by simp_all
    from add_attr_view [OF p(1,2,3) this, of RADIUS_ATTR_EAP_MESSAGE] obtain m1 where m1:
        "radius_msg_add_attr al RADIUS_ATTR_EAP_MESSAGE (take 253 d) m = Inr (Some (attr_ptr m1 as), m1)"
        "view m1 h (as @ [(RADIUS_ATTR_EAP_MESSAGE, take 253 d)])" "placed c m1" by blast
    have "rm_used m1 + 3 * length (drop 253 d) + 255 \<le> 2 ^ 30"
      using viewD(2) [OF m1(2)] viewD(2) [OF p(1)] p(4) False by (cases d; cases "length d \<le> 253") simp_all
    with 1(1) [OF False, of "(Some (attr_ptr m1 as), m1)" "Some (attr_ptr m1 as)" m1 "as @ [(RADIUS_ATTR_EAP_MESSAGE, take 253 d)]"] m1 p(3) obtain m' where
        "radius_msg_add_eap al False (drop 253 d) m1 = Inr (True, m')" "view m' h ((as @ [(RADIUS_ATTR_EAP_MESSAGE, take 253 d)]) @ eap_attrs (drop 253 d))"
        "placed c m'" by (auto simp: RADIUS_MAX_ATTR_LEN_def)
    then show ?thesis using False m1(1)
      by (subst radius_msg_add_eap.simps, subst eap_attrs.simps) (simp add: RADIUS_MAX_ATTR_LEN_def)
  qed
qed

text \<open>The parser, on the bytes alone.\<close>

function parse_bytes :: "byte list \<Rightarrow> attr list option" where
  "parse_bytes bs =
     (if bs = [] then Some []
      else if length bs < 2 \<or> unat (bs ! 1) < 2 \<or> length bs < unat (bs ! 1) then None
      else map_option (Cons (bs ! 0, take (unat (bs ! 1) - 2) (drop 2 bs))) (parse_bytes (drop (unat (bs ! 1)) bs)))"
  by pat_completeness auto
termination
  by (relation "measure length") auto

declare parse_bytes.simps [simp del]

lemma parse_bytes_enc: "\<forall>a \<in> set as. length (snd a) \<le> 253 \<Longrightarrow> parse_bytes (enc_attrs as) = Some as"
proof (induction as)
  case Nil
  then show ?case by (simp add: parse_bytes.simps)
next
  case (Cons a as)
  obtain t d where a: "a = (t, d)" by (cases a)
  have "unat (of_nat (2 + length d) :: byte) = 2 + length d" unfolding unat_of_nat using Cons.prems by (simp add: a)
  then show ?case using Cons by (subst parse_bytes.simps) (simp add: a)
qed

lemma parse_bytes_sound: "parse_bytes bs = Some as \<Longrightarrow> bs = enc_attrs as \<and> (\<forall>a \<in> set as. length (snd a) \<le> 253)"
proof (induction bs arbitrary: as rule: parse_bytes.induct)
  case (1 bs)
  show ?case
  proof (cases "bs = []")
    case True
    then show ?thesis using 1(2) by (simp add: parse_bytes.simps)
  next
    case False
    let ?n = "unat (bs ! 1)"
    from 1(2) False obtain xs where n: "\<not> (length bs < 2 \<or> ?n < 2 \<or> length bs < ?n)" and xs: "parse_bytes (drop ?n bs) = Some xs"
        and as: "as = (bs ! 0, take (?n - 2) (drop 2 bs)) # xs" by (subst (asm) parse_bytes.simps) (auto split: if_splits)
    obtain t l r where bs: "bs = t # l # r" using n by (cases bs; cases "tl bs") auto
    define k where "k = unat l - 2"
    have "2 \<le> unat l" using n bs by simp
    then have l: "unat l = 2 + k" by (simp add: k_def)
    have "unat l < 2 ^ LENGTH(8)" by (rule unsigned_less)
    then have k: "k \<le> length r" "k \<le> 253" using n bs l by simp_all
    have "of_nat (2 + k) = l" unfolding l [symmetric] by simp
    moreover have ih: "drop k r = enc_attrs xs" "\<forall>a \<in> set xs. length (snd a) \<le> 253" using 1(1) [OF False n xs] by (simp_all add: bs l)
    moreover have as': "as = (t, take k r) # xs" using as by (simp add: bs l)
    ultimately have "enc_attrs as = t # l # take k r @ drop k r" using k by (simp add: min_def)
    then show ?thesis using ih(2) k by (simp add: bs as')
  qed
qed


lemma add_to_array_safe:
  assumes "length (rm_attrs m) \<le> rm_asize m" "0 < rm_asize m"
  shows "\<exists>ok z. radius_msg_add_attr_to_array al p m = Inr (ok, if ok then m\<lparr>rm_asize := z, rm_attrs := rm_attrs m @ [p]\<rparr> else m)
    \<and> (ok \<longrightarrow> Suc (length (rm_attrs m)) \<le> z \<and> 0 < z) \<and> ((\<forall>n. grow_arr al n) \<longrightarrow> ok)"
proof (cases "rm_asize m \<le> length (rm_attrs m)")
  case True
  then have "Suc (length (rm_attrs m)) \<le> rm_asize m * 2" using assms by linarith
  then show ?thesis using True assms(2)
    by (intro exI [of _ "grow_arr al (rm_asize m * 2)"] exI [of _ "rm_asize m * 2"]) (simp add: radius_msg_add_attr_to_array_def)
next
  case False
  then show ?thesis using assms(2) by (intro exI [of _ True] exI [of _ "rm_asize m"]) (simp add: radius_msg_add_attr_to_array_def)
qed

text \<open>
  The parser never faults; it gives a message with the attributes of its bytes, or none. It fails on
  well-formed bytes only when the pointer array cannot grow.
\<close>

lemma parse_bytes_Nil [simp]: "parse_bytes [] = Some []"
  by (simp add: parse_bytes.simps)

lemma parse_bytes_attr: "length d \<le> 253 \<Longrightarrow> parse_bytes (enc_attr (t, d) @ bs) = map_option (Cons (t, d)) (parse_bytes bs)"
proof -
  assume "length d \<le> 253"
  then have "unat (of_nat (2 + length d) :: byte) = 2 + length d" unfolding unat_of_nat by simp
  then show ?thesis by (subst parse_bytes.simps) simp
qed

abbreviation with_attr :: "radius_msg \<Rightarrow> nat \<Rightarrow> nat \<Rightarrow> radius_msg" where
  "with_attr m z pos \<equiv> m\<lparr>rm_asize := z, rm_attrs := rm_attrs m @ [rm_addr m + int pos]\<rparr>"

lemma attr_at:
  assumes "pos + 2 \<le> length buf" "2 \<le> unat (buf ! (pos + 1))" "pos + unat (buf ! (pos + 1)) \<le> length buf"
  shows "\<exists>d. drop pos buf = enc_attr (buf ! pos, d) @ drop (pos + 2 + length d) buf \<and> length d \<le> 253 \<and> unat (buf ! (pos + 1)) = 2 + length d"
proof -
  define l where "l = buf ! (pos + 1)"
  obtain k where l: "unat l = 2 + k" using assms(2) le_Suc_ex unfolding l_def by blast
  let ?d = "take k (drop (pos + 2) buf)"
  have "unat l < 2 ^ LENGTH(8)" by (rule unsigned_less)
  then have k: "length ?d = k" "k \<le> 253" using assms(3) l unfolding l_def by simp_all
  have "of_nat (2 + k) = l" unfolding l [symmetric] by simp
  moreover have "drop pos buf = buf ! pos # l # drop (pos + 2) buf"
    using assms(1) Cons_nth_drop_Suc [of pos buf] Cons_nth_drop_Suc [of "Suc pos" buf] by (simp add: l_def)
  moreover have "drop (pos + 2) buf = ?d @ drop (pos + 2 + k) buf"
    by (metis append_take_drop_id drop_drop add.commute)
  ultimately show ?thesis using k l by (intro exI [of _ ?d]) (simp add: l_def)
qed

lemma parse_attrs_step:
  assumes inv: "length (rm_attrs m) \<le> rm_asize m" "0 < rm_asize m" and pos: "pos < length (rm_buf m)"
  obtains "parse_attrs al (length (rm_buf m)) pos m = Inr None" "(\<forall>n. grow_arr al n) \<longrightarrow> parse_bytes (drop pos (rm_buf m)) = None"
  | d z where "drop pos (rm_buf m) = enc_attr (rm_buf m ! pos, d) @ drop (pos + 2 + length d) (rm_buf m)" "length d \<le> 253"
      "pos + 2 + length d \<le> length (rm_buf m)" "Suc (length (rm_attrs m)) \<le> z" "0 < z"
      "parse_attrs al (length (rm_buf m)) pos m = parse_attrs al (length (rm_buf m)) (pos + 2 + length d) (with_attr m z pos)"
proof (cases "pos + 2 \<le> length (rm_buf m) \<and> 2 \<le> unat (rm_buf m ! (pos + 1)) \<and> pos + unat (rm_buf m ! (pos + 1)) \<le> length (rm_buf m)")
  case False
  then have "length (rm_buf m) - pos < 2 \<or> length (rm_buf m) < pos + unat (rm_buf m ! (pos + 1)) \<or> unat (rm_buf m ! (pos + 1)) < 2"
    using pos by linarith
  then have "parse_attrs al (length (rm_buf m)) pos m = Inr None" using pos
    by (subst parse_attrs.simps) (elim disjE; simp add: Let_def)
  moreover have "parse_bytes (drop pos (rm_buf m)) = None" using False pos by (subst parse_bytes.simps) auto
  ultimately show thesis using that(1) by simp
next
  case True
  then obtain d where d: "drop pos (rm_buf m) = enc_attr (rm_buf m ! pos, d) @ drop (pos + 2 + length d) (rm_buf m)" "length d \<le> 253"
      "unat (rm_buf m ! (pos + 1)) = 2 + length d" using attr_at by blast
  obtain b z where add: "radius_msg_add_attr_to_array al (rm_addr m + int pos) m = Inr (b, if b then with_attr m z pos else m)"
      "b \<longrightarrow> Suc (length (rm_attrs m)) \<le> z \<and> 0 < z" "(\<forall>n. grow_arr al n) \<longrightarrow> b"
    using add_to_array_safe [OF inv] by blast
  have "parse_attrs al (length (rm_buf m)) pos m
      = (if b then parse_attrs al (length (rm_buf m)) (pos + 2 + length d) (with_attr m z pos) else Inr None)"
    using True pos add(1) d(3) by (subst parse_attrs.simps) (simp add: Let_def add.assoc less_diff_conv2)
  then show thesis using that d True add(2,3) by (cases b) auto
qed

definition parsed :: "mem \<Rightarrow> radius_msg \<Rightarrow> nat \<Rightarrow> radius_msg option \<Rightarrow> bool" where
  "parsed al m pos r \<longleftrightarrow> (case r of
       None \<Rightarrow> (\<forall>n. grow_arr al n) \<longrightarrow> parse_bytes (drop pos (rm_buf m)) = None
     | Some m' \<Rightarrow> \<exists>as z. parse_bytes (drop pos (rm_buf m)) = Some as \<and> length (rm_attrs m) + length as \<le> z \<and> 0 < z
          \<and> m' = m\<lparr>rm_asize := z, rm_attrs := rm_attrs m @ map (\<lambda>n. rm_addr m + int n) (offsets pos as)\<rparr>)"

lemma parsed_step:
  assumes r: "parsed al (with_attr m z pos) (pos + 2 + length d) r"
    and d: "drop pos (rm_buf m) = enc_attr (t, d) @ drop (pos + 2 + length d) (rm_buf m)" "length d \<le> 253"
  shows "parsed al m pos r"
proof (cases r)
  case None
  then show ?thesis using r parse_bytes_attr [OF d(2), of t] by (simp add: parsed_def d(1))
next
  case (Some m')
  then obtain as z' where "parse_bytes (drop (pos + 2 + length d) (rm_buf m)) = Some as" "Suc (length (rm_attrs m)) + length as \<le> z'" "0 < z'"
      and m': "m' = m\<lparr>rm_asize := z', rm_attrs := rm_attrs m @ (rm_addr m + int pos) # map (\<lambda>n. rm_addr m + int n) (offsets (pos + 2 + length d) as)\<rparr>"
    using r by (auto simp: parsed_def)
  then have "parse_bytes (drop pos (rm_buf m)) = Some ((t, d) # as)" "length (rm_attrs m) + length ((t, d) # as) \<le> z'"
      "m' = m\<lparr>rm_asize := z', rm_attrs := rm_attrs m @ map (\<lambda>n. rm_addr m + int n) (offsets pos ((t, d) # as))\<rparr>"
    using parse_bytes_attr [OF d(2), of t] by (simp_all add: d(1))
  with \<open>0 < z'\<close> show ?thesis unfolding parsed_def Some option.case by blast
qed

lemma parse_attrs_spec:
  assumes "length (rm_attrs m) \<le> rm_asize m" "0 < rm_asize m" "pos \<le> length (rm_buf m)"
  shows "\<exists>r. parse_attrs al (length (rm_buf m)) pos m = Inr r \<and> parsed al m pos r"
  using assms
proof (induction "length (rm_buf m) - pos" arbitrary: pos m rule: less_induct)
  case less
  show ?case
  proof (cases "pos = length (rm_buf m)")
    case True
    have "parsed al m pos (Some m)" using less.prems True by (auto simp: parsed_def intro!: exI [of _ "rm_asize m"])
    then show ?thesis using True by (subst parse_attrs.simps) simp
  next
    case False
    with less.prems have lt: "pos < length (rm_buf m)" by simp
    from parse_attrs_step [OF less.prems(1,2) lt, of al] show ?thesis
    proof cases
      case 1
      then show ?thesis by (simp add: parsed_def)
    next
      case (2 d z)
      have "\<exists>r. parse_attrs al (length (rm_buf (with_attr m z pos))) (pos + 2 + length d) (with_attr m z pos) = Inr r
          \<and> parsed al (with_attr m z pos) (pos + 2 + length d) r"
        by (rule less.hyps) (use 2 lt in simp_all)
      with parsed_step [OF _ 2(1,2)] 2(6) show ?thesis by auto
    qed
  qed
qed

end
