(* ===== verification/Tgen_RadSign.thy ===== *)
theory Tgen_RadSign
  imports Tgen_RadMsg
begin

section \<open>Signed RADIUS messages\<close>

text \<open>
  The parser and the signatures of \<^verbatim>\<open>Tgen_RadMsg\<close>: what is parsed is what was built, a message is accepted
  exactly when both of its digests are right, and a signed answer is accepted by the client.
\<close>

subsection \<open>The parser\<close>

lemma radius_msg_parse_cases:
  assumes "20 \<le> length data" "n = be_val (take 2 (drop 2 data))" "20 \<le> n" "n \<le> length data"
  shows "\<exists>r. radius_msg_parse al (Some p) True data = Inr r
     \<and> parsed al \<lparr>rm_addr = p, rm_buf = take n data, rm_used = n, rm_attrs = [], rm_asize = 16\<rparr> 20 r"
proof -
  let ?m = "\<lparr>rm_addr = p, rm_buf = take n data, rm_used = n, rm_attrs = [], rm_asize = 16\<rparr>"
  have "length (rm_buf ?m) = n" using assms(4) by simp
  moreover have "radius_msg_parse al (Some p) True data = parse_attrs al n 20 ?m" using assms
    by (simp add: radius_msg_parse_def radius_msg_initialize_def RADIUS_HDR_def RADIUS_DEFAULT_ATTR_COUNT_def Let_def)
  ultimately show ?thesis using parse_attrs_spec [of ?m 20 al] assms(3) by simp
qed

lemma radius_msg_parse_none:
  assumes "\<not> (20 \<le> length data \<and> 20 \<le> be_val (take 2 (drop 2 data)) \<and> be_val (take 2 (drop 2 data)) \<le> length data \<and> a \<noteq> None \<and> arr)"
  shows "radius_msg_parse al a arr data = Inr None"
  using assms by (auto simp: radius_msg_parse_def radius_msg_initialize_def RADIUS_HDR_def Let_def split: option.splits)

lemma parsed_view:
  assumes p: "parsed al \<lparr>rm_addr = p, rm_buf = take n data, rm_used = n, rm_attrs = [], rm_asize = 16\<rparr> 20 (Some m)"
    and n: "20 \<le> n" "n \<le> length data"
  shows "\<exists>as. take n data = take 20 data @ enc_attrs as \<and> view m (take 20 data) as \<and> rm_addr m = p \<and> rm_buf m = take n data"
proof -
  from p obtain as z where as: "parse_bytes (drop 20 (take n data)) = Some as" "length as \<le> z" "0 < z"
      and m: "m = \<lparr>rm_addr = p, rm_buf = take n data, rm_used = n, rm_attrs = map (\<lambda>n. p + int n) (offsets 20 as), rm_asize = z\<rparr>"
    by (auto simp: parsed_def)
  from parse_bytes_sound [OF as(1)] have e: "drop 20 (take n data) = enc_attrs as" "\<forall>a \<in> set as. length (snd a) \<le> 253" by auto
  have t: "take n data = take 20 data @ enc_attrs as" using append_take_drop_id [of 20 "take n data"] n by (simp add: e min_def)
  then have "n = 20 + length (enc_attrs as)" using arg_cong [OF t, of length] n unfolding length_append length_take by linarith
  then show ?thesis using t e as n by (intro exI [of _ as]) (auto simp: view_def m)
qed

lemma radius_msg_parse_view:
  assumes "radius_msg_parse al a arr data = Inr (Some m)"
  obtains h as rest where "data = h @ enc_attrs as @ rest" "be_val (take 2 (drop 2 h)) = 20 + length (enc_attrs as)" "view m h as"
    "rm_buf m = h @ enc_attrs as"
proof -
  let ?n = "be_val (take 2 (drop 2 data))"
  have c: "20 \<le> length data \<and> 20 \<le> ?n \<and> ?n \<le> length data \<and> a \<noteq> None \<and> arr"
    using radius_msg_parse_none [of data a arr al] assms by fastforce
  then obtain p where a: "a = Some p" by blast
  have "parsed al \<lparr>rm_addr = p, rm_buf = take ?n data, rm_used = ?n, rm_attrs = [], rm_asize = 16\<rparr> 20 (Some m)"
    using radius_msg_parse_cases [of data ?n al p] c assms a by auto
  from parsed_view [OF this] c obtain as where as: "take ?n data = take 20 data @ enc_attrs as" "view m (take 20 data) as" "rm_buf m = take ?n data" by auto
  have "?n = 20 + length (enc_attrs as)" using arg_cong [OF as(1), of length] c unfolding length_append length_take by linarith
  moreover have "data = take 20 data @ enc_attrs as @ drop ?n data" using append_take_drop_id [of ?n data] as(1) by simp
  moreover have "take 2 (drop 2 (take 20 data)) = take 2 (drop 2 data)" by (simp add: take_drop)
  ultimately show thesis using that as(2,3) as(1) by metis
qed

lemma radius_msg_parse_complete:
  assumes data: "data = h @ enc_attrs as @ rest" "length h = 20" "be_val (take 2 (drop 2 h)) = 20 + length (enc_attrs as)"
    and as: "\<forall>a \<in> set as. length (snd a) \<le> 253" and arr: "\<forall>n. grow_arr al n"
  shows "\<exists>m. radius_msg_parse al (Some p) True data = Inr (Some m) \<and> view m h as \<and> rm_addr m = p \<and> rm_buf m = h @ enc_attrs as"
proof -
  let ?n = "20 + length (enc_attrs as)"
  have n: "20 \<le> length data" "?n = be_val (take 2 (drop 2 data))" "20 \<le> ?n" "?n \<le> length data" using data by simp_all
  have t: "take ?n data = h @ enc_attrs as" "take 20 data = h" using data by simp_all
  from radius_msg_parse_cases [OF n] obtain r where r: "radius_msg_parse al (Some p) True data = Inr r"
      "parsed al \<lparr>rm_addr = p, rm_buf = take ?n data, rm_used = ?n, rm_attrs = [], rm_asize = 16\<rparr> 20 r" by blast
  have "parse_bytes (drop 20 (take ?n data)) = Some as" using parse_bytes_enc [OF as] t data(2) by simp
  with r(2) arr obtain m where m: "r = Some m" by (cases r) (auto simp: parsed_def)
  from parsed_view [OF r(2) [unfolded m] n(3,4)] obtain as' where as': "h @ enc_attrs as = h @ enc_attrs as'" "view m h as'" "rm_addr m = p"
      "rm_buf m = h @ enc_attrs as" unfolding t by auto
  have "as' = as" using as' parse_bytes_enc [OF as] parse_bytes_enc [of as'] viewD(5) [OF as'(2)] by (metis option.inject same_append_eq)
  then show ?thesis using r m as' by simp
qed


subsection \<open>Signing and verifying\<close>

lemma be_val_be16 [simp]: "n < 65536 \<Longrightarrow> be_val (be16 n) = n"
  unfolding be_val_def be16_def by (simp add: unat_of_nat)

lemma length_be16 [simp]: "length (be16 n) = 2"
  by (simp add: be16_def)

lemma hmac_message:
  assumes "view m h as" "length junk = 64" "length s < 2 ^ 32" "rm_used m \<le> 65535"
  shows "hmac_md5 junk s (take (rm_used m) (rm_buf m)) mac = hmac s (h @ enc_attrs as)"
  using assms hmac_md5_hmac [of junk "h @ enc_attrs as" s mac] viewD(1,2) [OF assms(1)] unfolding view_used [OF assms(1)] by simp

lemma response_auth_view:
  assumes "view m h as" "length junk = 64" "length s < 2 ^ 32" "rm_used m \<le> 65535" "length ra = 16"
  shows "response_auth junk s ra m = md5 (take 4 h @ ra @ enc_attrs as @ s)"
  using assms md5_vector_md5 [of junk "[take 4 h, ra, enc_attrs as, s]"] viewD(1,2,9) [OF assms(1)] view_used [OF assms(1)]
  by (simp add: response_auth_def MD5_MAC_LEN_def RADIUS_HDR_def)

definition no_auth :: "byte list" where "no_auth = replicate 16 0"

lemma length_no_auth [simp]: "length no_auth = 16"
  by (simp add: no_auth_def)

lemma placed_addr: "rm_addr m' = rm_addr m \<Longrightarrow> placed c m \<Longrightarrow> placed c m'"
  by (simp add: placed_def)

lemma finish_view:
  assumes v: "view m h as" "placed c m" and al: "near al c" and sz: "rm_used m + 18 \<le> 65535"
    and j: "length junk = 64" "length s < 2 ^ 32"
    and h': "h' = take 2 h @ be16 (rm_used m + 18) @ drop 4 h"
  shows "\<exists>m'. radius_msg_finish al junk (Some s) m = Inr (0, m') \<and> placed c m'
    \<and> view m' h' (as @ [(RADIUS_ATTR_MESSAGE_AUTHENTICATOR, hmac s (h' @ enc_attrs (as @ [(RADIUS_ATTR_MESSAGE_AUTHENTICATOR, no_auth)])))])"
proof -
  let ?A = RADIUS_ATTR_MESSAGE_AUTHENTICATOR
  have "length no_auth \<le> 253" "rm_used m + 255 \<le> 2 ^ 30" using sz by simp_all
  from add_attr_view [OF v al this, of ?A] obtain m1 where m1: "radius_msg_add_attr al ?A no_auth m = Inr (Some (attr_ptr m1 as), m1)"
      "view m1 h (as @ [(?A, no_auth)])" "placed c m1" by blast
  have u: "rm_used m1 = rm_used m + 18" using viewD(2) [OF m1(2)] viewD(2) [OF v(1)] by simp
  have v2: "view (set_length m1) h' (as @ [(?A, no_auth)])" using view_set_length [OF m1(2)] by (simp add: u h')
  let ?sig = "hmac s (h' @ enc_attrs (as @ [(?A, no_auth)]))"
  have mac: "hmac_md5 junk s (take (rm_used (set_length m1)) (rm_buf (set_length m1))) (replicate 16 0) = ?sig"
    by (rule hmac_message [OF v2 j]) (use u sz in simp)
  have "length ?sig = length no_auth" by simp
  from view_set_bytes [OF v2 [unfolded append_Cons append_Nil] this] obtain m3 where
    m3: "set_bytes (attr_ptr m1 as + 2) ?sig (set_length m1) = Inr m3" "view m3 h' (as @ [(?A, ?sig)])" "rm_addr m3 = rm_addr m1" by auto
  have "rm_used m3 = rm_used m + 18" using viewD(2) [OF m3(2)] viewD(2) [OF v(1)] by simp
  then have "radius_msg_finish al junk (Some s) m = Inr (0, m3)"
    using m1(1) m3(1) mac sz by (simp add: radius_msg_finish_def MD5_MAC_LEN_def Let_def flip: no_auth_def del: rbind_eq_Inr)
  then show ?thesis using m3 placed_addr [OF m3(3) m1(3)] by blast
qed

lemma finish_srv_view:
  assumes v: "view m h as" "placed c m" and al: "near al c" and sz: "rm_used m + 18 \<le> 65535"
    and j: "length junk = 64" "length s < 2 ^ 32" and ra: "length ra = 16"
    and h': "h' = take 2 h @ be16 (rm_used m + 18)"
    and sig: "sig = hmac s (h' @ ra @ enc_attrs (as @ [(RADIUS_ATTR_MESSAGE_AUTHENTICATOR, no_auth)]))"
    and as': "as' = as @ [(RADIUS_ATTR_MESSAGE_AUTHENTICATOR, sig)]"
  shows "\<exists>m'. radius_msg_finish_srv al junk s ra m = Inr (0, m') \<and> placed c m' \<and> view m' (h' @ md5 (h' @ ra @ enc_attrs as' @ s)) as'"
proof -
  let ?A = RADIUS_ATTR_MESSAGE_AUTHENTICATOR
  have "length no_auth \<le> 253" "rm_used m + 255 \<le> 2 ^ 30" using sz by simp_all
  from add_attr_view [OF v al this, of ?A] obtain m1 where m1: "radius_msg_add_attr al ?A no_auth m = Inr (Some (attr_ptr m1 as), m1)"
      "view m1 h (as @ [(?A, no_auth)])" "placed c m1" by blast
  have u: "rm_used m1 = rm_used m + 18" using viewD(2) [OF m1(2)] viewD(2) [OF v(1)] by simp
  have lh: "length h = 20" by (rule viewD(1) [OF v(1)])
  define m2 where "m2 = set_authenticator ra (set_length m1)"
  have v2: "view m2 (h' @ ra) (as @ [(?A, no_auth)])"
    using view_set_authenticator [OF view_set_length [OF m1(2)] ra] lh by (simp add: u h' m2_def)
  have u2: "rm_used m2 = rm_used m + 18" "rm_addr m2 = rm_addr m1" by (simp_all add: m2_def u)
  have mac: "hmac_md5 junk s (take (rm_used m2) (rm_buf m2)) (replicate 16 0) = sig"
    using hmac_message [OF v2 j] u2 sz by (simp add: sig)
  have ls: "length sig = length no_auth" by (simp add: sig)
  from view_set_bytes [OF v2 [unfolded append_Cons append_Nil] ls] obtain m3 where
    m3: "set_bytes (attr_ptr m1 as + 2) sig m2 = Inr m3" "view m3 (h' @ ra) as'" "rm_addr m3 = rm_addr m1" by (auto simp: u2 as')
  have u3: "rm_used m3 = rm_used m + 18" using viewD(2) [OF m3(2)] viewD(2) [OF v(1)] ls by (simp add: as')
  define a where "a = response_auth junk s ra m3"
  have a: "a = md5 (h' @ ra @ enc_attrs as' @ s)" using response_auth_view [OF m3(2) j] u3 sz ra lh by (simp add: a_def h')
  have "radius_msg_finish_srv al junk s ra m = Inr (0, set_authenticator a m3)"
    using m1(1) m3(1) mac sz u u2 u3 by (simp add: radius_msg_finish_srv_def MD5_MAC_LEN_def Let_def a_def flip: no_auth_def m2_def del: rbind_eq_Inr)
  moreover have "view (set_authenticator a m3) (h' @ a) as'"
    using view_set_authenticator [OF m3(2), of a] lh by (simp add: a h')
  ultimately show ?thesis using placed_addr [of "set_authenticator a m3" m1 c] m3(3) m1(3) a by auto
qed


text \<open>Verification reads the two digests and leaves the message as it was.\<close>

lemma restored:
  assumes "view m h as" "view m' h as" "rm_addr m' = rm_addr m" "rm_asize m' = rm_asize m" "drop (rm_used m) (rm_buf m') = drop (rm_used m) (rm_buf m)"
  shows "m' = m"
proof -
  have "rm_used m' = rm_used m" using viewD(2) [OF assms(1)] viewD(2) [OF assms(2)] by simp
  moreover have "rm_attrs m' = rm_attrs m" using viewD(4) [OF assms(1)] viewD(4) [OF assms(2)] assms(3) by simp
  moreover have "rm_buf m' = rm_buf m"
    using view_used [OF assms(1)] view_used [OF assms(2)] assms(5) calculation(1) by (metis append_take_drop_id)
  ultimately show ?thesis using assms(3,4) by (cases m, cases m') simp
qed

definition one_auth :: "attr list \<Rightarrow> attr list \<Rightarrow> byte list \<Rightarrow> attr list \<Rightarrow> bool" where
  "one_auth as xs sig ys \<longleftrightarrow> as = xs @ (RADIUS_ATTR_MESSAGE_AUTHENTICATOR, sig) # ys
     \<and> (\<forall>a \<in> set xs. fst a \<noteq> RADIUS_ATTR_MESSAGE_AUTHENTICATOR) \<and> (\<forall>a \<in> set ys. fst a \<noteq> RADIUS_ATTR_MESSAGE_AUTHENTICATOR)"

lemma one_auth_found:
  assumes "view m h as" "one_auth as xs sig ys"
  shows "only_attr m RADIUS_ATTR_MESSAGE_AUTHENTICATOR (rm_attrs m) None = Inr (Some (Some (attr_ptr m xs)))"
  using only_attr_one [of m h "[]" xs RADIUS_ATTR_MESSAGE_AUTHENTICATOR sig ys] assms viewD(4) [OF assms(1)] by (simp add: one_auth_def)

lemma put_bytes_tail: "off + length d \<le> n \<Longrightarrow> n \<le> length b \<Longrightarrow> drop n (put_bytes off d b) = drop n b"
  by (simp add: put_bytes_def)

lemma set_bytes_tail:
  assumes "set_bytes p d m = Inr m'" "p + int (length d) \<le> rm_addr m + int n" "n \<le> length (rm_buf m)"
  shows "drop n (rm_buf m') = drop n (rm_buf m) \<and> length (rm_buf m') = length (rm_buf m)"
  using assms put_bytes_tail [of "nat (p - rm_addr m)" d n "rm_buf m"] by (auto simp: set_bytes_def at_ptr_def guard_def put_bytes_def split: if_splits)

lemma set_authenticator_tail:
  "20 \<le> n \<Longrightarrow> n \<le> length (rm_buf m) \<Longrightarrow> length a = 16 \<Longrightarrow>
     drop n (rm_buf (set_authenticator a m)) = drop n (rm_buf m) \<and> length (rm_buf (set_authenticator a m)) = length (rm_buf m)"
  using put_bytes_tail [of 4 a n "rm_buf m"] by (simp add: set_authenticator_def put_bytes_def)

text \<open>A write inside the used part of the buffer, as seen from outside of it.\<close>

definition same_frame :: "radius_msg \<Rightarrow> radius_msg \<Rightarrow> bool" where
  "same_frame m m' \<longleftrightarrow> rm_addr m' = rm_addr m \<and> rm_asize m' = rm_asize m \<and> rm_used m' = rm_used m
     \<and> length (rm_buf m') = length (rm_buf m) \<and> drop (rm_used m) (rm_buf m') = drop (rm_used m) (rm_buf m)"

lemma same_frame_trans: "same_frame m1 m2 \<Longrightarrow> same_frame m2 m3 \<Longrightarrow> same_frame m1 m3"
  by (simp add: same_frame_def)

lemma set_value_frame:
  assumes v: "view m h (xs @ (t, d) # ys)" and l: "length e = length d"
  obtains m' where "set_bytes (attr_ptr m xs + 2) e m = Inr m'" "view m' h (xs @ (t, e) # ys)" "same_frame m m'"
proof -
  from view_set_bytes [OF v l] obtain m' where m': "set_bytes (attr_ptr m xs + 2) e m = Inr m'" "view m' h (xs @ (t, e) # ys)"
    "rm_addr m' = rm_addr m" "rm_asize m' = rm_asize m" by blast
  moreover have "rm_used m' = rm_used m" using viewD(2) [OF v] viewD(2) [OF m'(2)] l by simp
  ultimately show thesis using that set_bytes_tail [OF m'(1), of "rm_used m"] viewD(2,3) [OF v] l by (simp add: same_frame_def)
qed

lemma set_authenticator_frame:
  assumes "view m h as" "length a = 16"
  shows "same_frame m (set_authenticator a m)"
  using set_authenticator_tail [of "rm_used m" m a] viewD(2,3) [OF assms(1)] assms(2)
  by (simp add: same_frame_def) (simp add: set_authenticator_def)

lemma verify_msg_auth_view:
  assumes v: "view m h as" and as: "one_auth as xs sig ys" "length sig = 16" and ra: "length ra = 16"
    and j: "length junk = 64" "length s < 2 ^ 32" "rm_used m \<le> 65535"
  shows "radius_msg_verify_msg_auth junk s (Some ra) m
     = Inr (sig \<noteq> hmac s (take 4 h @ ra @ enc_attrs (xs @ (RADIUS_ATTR_MESSAGE_AUTHENTICATOR, no_auth) # ys)), m)"
proof -
  let ?A = RADIUS_ATTR_MESSAGE_AUTHENTICATOR and ?p = "attr_ptr m xs + 2"
  have v0: "view m h (xs @ (?A, sig) # ys)" using v as(1) by (simp add: one_auth_def)
  have lh: "length h = 20" by (rule viewD(1) [OF v])
  have g: "get_bytes m ?p 16 = Inr sig" using view_read(3) [OF v0, of 16] as(2) by simp
  have "length no_auth = length sig" using as(2) by simp
  from set_value_frame [OF v0 this] obtain m1 where m1: "set_bytes ?p no_auth m = Inr m1" "view m1 h (xs @ (?A, no_auth) # ys)" "same_frame m m1" .
  define m2 where "m2 = set_authenticator ra m1"
  have v2: "view m2 (take 4 h @ ra) (xs @ (?A, no_auth) # ys)" unfolding m2_def by (rule view_set_authenticator [OF m1(2) ra])
  have f2: "same_frame m m2" using same_frame_trans [OF m1(3) set_authenticator_frame [OF m1(2) ra]] by (simp add: m2_def)
  have mac: "hmac_md5 junk s (take (rm_used m1) (rm_buf m2)) (replicate 16 0) = hmac s (take 4 h @ ra @ enc_attrs (xs @ (?A, no_auth) # ys))"
    using hmac_message [OF v2 j(1,2)] j(3) f2 m1(3) by (simp add: same_frame_def)
  have "length sig = length no_auth" using as(2) by simp
  from set_value_frame [OF v2 this] obtain m3 where m3: "set_bytes ?p sig m2 = Inr m3" "view m3 (take 4 h @ ra) (xs @ (?A, sig) # ys)" "same_frame m2 m3"
    using f2 by (auto simp: same_frame_def)
  define m4 where "m4 = set_authenticator (hdr_authenticator m1) m3"
  have a1: "hdr_authenticator m1 = drop 4 h" by (rule viewD(8) [OF m1(2)])
  have v4: "view m4 h (xs @ (?A, sig) # ys)" using view_set_authenticator [OF m3(2), of "drop 4 h"] lh by (simp add: m4_def a1)
  have "same_frame m3 m4" using set_authenticator_frame [OF m3(2), of "drop 4 h"] lh by (simp add: m4_def a1)
  then have "same_frame m m4" using same_frame_trans f2 m3(3) by blast
  then have "m4 = m" using restored [OF v0 v4] by (simp add: same_frame_def)
  then show ?thesis using one_auth_found [OF v as(1)] g m1(1) m3(1) mac
    by (simp add: radius_msg_verify_msg_auth_def MD5_MAC_LEN_def Let_def flip: no_auth_def m2_def m4_def del: rbind_eq_Inr)
qed

lemma verify_view:
  assumes v: "view m h as" and as: "one_auth as xs sig ys" "length sig = 16" and ra: "length (hdr_authenticator sm) = 16"
    and j: "length junk = 64" "length s < 2 ^ 32" "rm_used m \<le> 65535"
  shows "radius_msg_verify junk s (Some sm) True m
     = Inr (sig \<noteq> hmac s (take 4 h @ hdr_authenticator sm @ enc_attrs (xs @ (RADIUS_ATTR_MESSAGE_AUTHENTICATOR, no_auth) # ys))
            \<or> drop 4 h \<noteq> md5 (take 4 h @ hdr_authenticator sm @ enc_attrs as @ s), m)"
  using verify_msg_auth_view [OF v as ra j] response_auth_view [OF v j ra] viewD(8) [OF v]
  by (auto simp: radius_msg_verify_def)

lemma new_view:
  obtains m where "radius_msg_new (Some p) True code ident = Some m" "view m (code # ident # replicate 18 0) []" "rm_addr m = p" "rm_used m = 20"
  using that by (force simp: radius_msg_new_def radius_msg_initialize_def radius_msg_set_hdr_def RADIUS_HDR_def RADIUS_DEFAULT_MSG_SIZE_def
      RADIUS_DEFAULT_ATTR_COUNT_def view_def put_bytes_def numeral_eq_Suc)

lemma one_auth_last: "\<forall>a \<in> set as. fst a \<noteq> RADIUS_ATTR_MESSAGE_AUTHENTICATOR \<Longrightarrow> one_auth (as @ [(RADIUS_ATTR_MESSAGE_AUTHENTICATOR, sig)]) as sig []"
  by (simp add: one_auth_def)

subsection \<open>Properties\<close>





lemma answer_delivered:
  assumes "near al c" "c \<le> p" "p < c + 2 ^ 31" "\<forall>n. grow_arr al' n" "d \<noteq> []" "length d \<le> 20000"
    and "length junk = 64" "length junk' = 64" "length s < 2 ^ 32" "view sm hs bs"
  shows "\<exists>m0 m1 m2 m3. radius_msg_new (Some p) True code ident = Some m0 \<and> radius_msg_add_eap al False d m0 = Inr (True, m1)
     \<and> radius_msg_finish_srv al junk s (hdr_authenticator sm) m1 = Inr (0, m2)
     \<and> radius_msg_parse al' (Some q) True (take (rm_used m2) (rm_buf m2)) = Inr (Some m3)
     \<and> radius_msg_verify junk' s (Some sm) True m3 = Inr (False, m3)
     \<and> hdr_code m3 = code \<and> hdr_identifier m3 = ident \<and> radius_msg_get_eap True m3 = Inr (Some d)
     \<and> (\<exists>H sig. view m3 H (eap_attrs d @ [(RADIUS_ATTR_MESSAGE_AUTHENTICATOR, sig)])) \<and> rm_used m2 \<le> 3 * length d + 300"
proof -
  let ?h = "code # ident # replicate 18 0" and ?A = RADIUS_ATTR_MESSAGE_AUTHENTICATOR and ?ra = "hdr_authenticator sm"
  obtain m0 where m0: "radius_msg_new (Some p) True code ident = Some m0" "view m0 ?h []" "placed c m0" "rm_used m0 = 20"
    using new_view [of p code ident] assms(2,3) by (metis placed_def)
  have "rm_used m0 + 3 * length d + 255 \<le> 2 ^ 30" using assms(6) m0(4) by simp
  from add_eap_view [OF m0(2,3) assms(1) this] obtain m1 where m1: "radius_msg_add_eap al False d m0 = Inr (True, m1)"
      "view m1 ?h (eap_attrs d)" "placed c m1" by auto
  have u1: "rm_used m1 + 18 \<le> 65535" using viewD(2) [OF m1(2)] length_eap_attrs [of d] assms(6) by simp
  have ra: "length ?ra = 16" using viewD(1,8) [OF assms(10)] by simp
  define sig where "sig = hmac s ((take 2 ?h @ be16 (rm_used m1 + 18)) @ ?ra @ enc_attrs (eap_attrs d @ [(?A, no_auth)]))"
  define as where "as = eap_attrs d @ [(?A, sig)]"
  define h' where "h' = (take 2 ?h @ be16 (rm_used m1 + 18))"
  from finish_srv_view [OF m1(2,3) assms(1) u1 assms(7,9) ra h'_def sig_def [folded h'_def] as_def]
  obtain m2 where m2: "radius_msg_finish_srv al junk s ?ra m1 = Inr (0, m2)" "view m2 (h' @ md5 (h' @ ?ra @ enc_attrs as @ s)) as" by blast
  let ?H = "h' @ md5 (h' @ ?ra @ enc_attrs as @ s)"
  have lh: "length h' = 4" by (simp add: h'_def)
  have n: "rm_used m1 + 18 = 20 + length (enc_attrs as)" using viewD(2) [OF m1(2)] by (simp add: as_def sig_def)
  have len: "length ?H = 20" "be_val (take 2 (drop 2 ?H)) = 20 + length (enc_attrs as)" using u1 n by (simp_all add: h'_def)
  from radius_msg_parse_complete [OF _ len _ assms(4), of "take (rm_used m2) (rm_buf m2)" "[]" q] viewD(5) [OF m2(2)] view_used [OF m2(2)]
  obtain m3 where m3: "radius_msg_parse al' (Some q) True (take (rm_used m2) (rm_buf m2)) = Inr (Some m3)" "view m3 ?H as" by auto
  have "one_auth as (eap_attrs d) sig []" using one_auth_last [of "eap_attrs d" sig] eap_attrs_type [of _ d]
    by (auto simp: as_def RADIUS_ATTR_EAP_MESSAGE_def RADIUS_ATTR_MESSAGE_AUTHENTICATOR_def)
  moreover have "rm_used m3 \<le> 65535" using viewD(2) [OF m3(2)] n u1 by simp
  ultimately have "radius_msg_verify junk' s (Some sm) True m3 = Inr (False, m3)"
    using verify_view [OF m3(2) _ _ ra assms(8,9)] lh by (simp add: sig_def h'_def)
  moreover have "eap_of as = d" by (simp add: as_def) (simp add: eap_of_def RADIUS_ATTR_EAP_MESSAGE_def RADIUS_ATTR_MESSAGE_AUTHENTICATOR_def)
  moreover have "rm_used m2 \<le> 3 * length d + 300" using viewD(2) [OF m2(2)] viewD(2) [OF m1(2)] length_eap_attrs [of d] n by simp
  ultimately show ?thesis using m0(1) m1(1) m2(1) m3 viewD(6,7) [OF m3(2)] get_eap_view [OF m3(2)] assms(5) unfolding as_def
    by (intro exI conjI) (simp_all add: h'_def)
qed

text \<open>
  C18. An EAP packet reaches the client. A server that creates an answer, adds an EAP packet of up to 20000
  bytes and signs it with \<^verbatim>\<open>radius_msg_finish_srv\<close> sends bytes which the client parses, verifies against
  its request, and from which \<^verbatim>\<open>radius_msg_get_eap\<close> puts the fragments of the packet together again.
\<close>

theorem eap_answer_delivered:
  assumes "near al c" "c \<le> p" "p < c + 2 ^ 31" "\<forall>n. grow_arr al' n" "d \<noteq> []" "length d \<le> 20000"
    and "length junk = 64" "length junk' = 64" "length s < 2 ^ 32" "view sm hs bs"
  shows "\<exists>m0 m1 m2 m3. radius_msg_new (Some p) True code ident = Some m0 \<and> radius_msg_add_eap al False d m0 = Inr (True, m1)
     \<and> radius_msg_finish_srv al junk s (hdr_authenticator sm) m1 = Inr (0, m2)
     \<and> radius_msg_parse al' (Some q) True (take (rm_used m2) (rm_buf m2)) = Inr (Some m3)
     \<and> radius_msg_verify junk' s (Some sm) True m3 = Inr (False, m3)
     \<and> hdr_code m3 = code \<and> hdr_identifier m3 = ident \<and> radius_msg_get_eap True m3 = Inr (Some d)"
  using answer_delivered [OF assms] by blast

theorem eap_answer_delivered_witness:
  "\<exists>m0 m1 m2 m3. radius_msg_new (Some 0) True 11 3 = Some m0 \<and> radius_msg_add_eap \<lparr>grow_buf = \<lambda>n. Some 0, grow_arr = \<lambda>n. True\<rparr> False (replicate 600 1) m0 = Inr (True, m1)
     \<and> radius_msg_finish_srv \<lparr>grow_buf = \<lambda>n. Some 0, grow_arr = \<lambda>n. True\<rparr> (replicate 64 0) [5] (replicate 16 0) m1 = Inr (0, m2)
     \<and> radius_msg_parse \<lparr>grow_buf = \<lambda>n. None, grow_arr = \<lambda>n. True\<rparr> (Some 0) True (take (rm_used m2) (rm_buf m2)) = Inr (Some m3)
     \<and> radius_msg_get_eap True m3 = Inr (Some (replicate 600 1))"
proof -
  obtain sm where sm: "view sm (1 # 3 # replicate 18 0) []" using new_view [of 0 1 3] by metis
  have "hdr_authenticator sm = replicate 16 0" using viewD(8) [OF sm] by (simp add: numeral_eq_Suc)
  moreover have "near \<lparr>grow_buf = \<lambda>n. Some 0, grow_arr = \<lambda>n. True\<rparr> 0" by (simp add: near_def)
  ultimately show ?thesis
    using eap_answer_delivered [of "\<lparr>grow_buf = \<lambda>n. Some 0, grow_arr = \<lambda>n. True\<rparr>" 0 0 "\<lparr>grow_buf = \<lambda>n. None, grow_arr = \<lambda>n. True\<rparr>" "replicate 600 1"
        "replicate 64 0" "replicate 64 0" "[5]" sm "1 # 3 # replicate 18 0" "[]" 11 3 0] sm by simp metis
qed

text \<open>
  C35. A short Message-Authenticator makes the client read and write behind its buffer.
  \<^verbatim>\<open>radius_msg_verify_msg_auth\<close> copies 16 bytes from the attribute whatever its length; a packet that ends
  with a Message-Authenticator of fewer bytes is parsed, and its verification leaves the allocation.
\<close>

theorem short_auth_overruns:
  assumes "data = h @ enc_attrs (as @ [(RADIUS_ATTR_MESSAGE_AUTHENTICATOR, d)])" "length h = 20" "length d < 16"
    and "be_val (take 2 (drop 2 h)) = length data" "\<forall>a \<in> set as. fst a \<noteq> RADIUS_ATTR_MESSAGE_AUTHENTICATOR \<and> length (snd a) \<le> 253"
    and "\<forall>n. grow_arr al n"
  shows "\<exists>m. radius_msg_parse al (Some p) True data = Inr (Some m) \<and> radius_msg_verify junk s (Some sm) True m = Inl OutOfBounds"
proof -
  let ?as = "as @ [(RADIUS_ATTR_MESSAGE_AUTHENTICATOR, d)]"
  from radius_msg_parse_complete [of data h ?as "[]" al p] assms obtain m where m: "radius_msg_parse al (Some p) True data = Inr (Some m)"
      "view m h ?as" "rm_buf m = h @ enc_attrs ?as" by auto
  have "one_auth ?as as d []" using assms(5) by (intro one_auth_last) simp
  note f = one_auth_found [OF m(2) this]
  have "get_bytes m (attr_ptr m as + 2) 16 = Inl OutOfBounds" using assms(2,3) m(3) by (simp add: get_bytes_def at_ptr_def guard_def)
  then have "radius_msg_verify junk s (Some sm) True m = Inl OutOfBounds"
    using f by (simp add: radius_msg_verify_def radius_msg_verify_msg_auth_def MD5_MAC_LEN_def)
  then show ?thesis using m(1) by blast
qed

theorem short_auth_overruns_witness:
  "\<exists>m. radius_msg_parse \<lparr>grow_buf = \<lambda>n. None, grow_arr = \<lambda>n. True\<rparr> (Some 0) True ([2, 7, 0, 22] @ replicate 16 9 @ [80, 2]) = Inr (Some m)
     \<and> radius_msg_verify (replicate 64 0) [5] (Some \<lparr>rm_addr = 0, rm_buf = replicate 20 0, rm_used = 20, rm_attrs = [], rm_asize = 16\<rparr>) True m
        = Inl OutOfBounds"
proof -
  let ?al = "\<lparr>grow_buf = \<lambda>n. None, grow_arr = \<lambda>n. True\<rparr>" and ?h = "[2, 7, 0, 22] @ replicate 16 9 :: byte list"
  have "?h @ [80, 2] = ?h @ enc_attrs ([] @ [(RADIUS_ATTR_MESSAGE_AUTHENTICATOR, [])])" by (simp add: RADIUS_ATTR_MESSAGE_AUTHENTICATOR_def)
  from short_auth_overruns [OF this, of ?al] show ?thesis by (simp add: be_val_def)
qed

end
