(* ===== verification/Tgen_RadKeys.thy ===== *)
theory Tgen_RadKeys
  imports Tgen_RadSign
begin

section \<open>Keys and passwords in RADIUS messages\<close>

text \<open>
  The MS-MPPE keys that a server puts into its answer are the keys that the client takes out of it.
  The chain of digests that hides them is a stream of 16-byte pads; all that is needed of the pads is
  their length.
\<close>

subsection \<open>The chain of pads\<close>

lemma chain_Nil [simp]: "chain_enc h iv [] = []" "chain_dec h iv [] = []"
  by (simp_all add: chain_enc.simps chain_dec.simps)

locale pad_source =
  fixes h :: "byte list list \<Rightarrow> byte list"
  assumes length_pad: "length (h fr) = 16"
begin

lemma enc_step:
  assumes "p \<noteq> []"
  shows "chain_enc h iv p = map2 (XOR) (take 16 p) (h iv) @ chain_enc h [map2 (XOR) (take 16 p) (h iv)] (drop 16 p)"
    "length (map2 (XOR) (take 16 p) (h iv)) = min 16 (length p)"
  using assms by (simp_all add: chain_enc.simps [of h iv p] Let_def length_pad min.commute)

lemma length_enc: "length (chain_enc h iv p) = length p"
proof (induction "length p" arbitrary: iv p rule: less_induct)
  case less
  show ?case
  proof (cases "p = []")
    case False
    then show ?thesis using enc_step [OF False, of iv] less [of "drop 16 p"] by (simp add: min_def)
  qed simp
qed

lemma xor_pad: "length xs \<le> length ys \<Longrightarrow> map2 (XOR) (map2 (XOR) xs ys) ys = (xs :: byte list)"
  by (induction xs ys rule: list_induct2') (simp_all add: xor.assoc)

lemma dec_enc: "chain_dec h iv (chain_enc h iv p) = p"
proof (induction "length p" arbitrary: iv p rule: less_induct)
  case less
  show ?case
  proof (cases "p = []")
    case False
    let ?c = "map2 (XOR) (take 16 p) (h iv)"
    note e = enc_step [OF False, of iv]
    have t: "take 16 (chain_enc h iv p) = ?c" "drop 16 (chain_enc h iv p) = chain_enc h [?c] (drop 16 p)"
      using e by (cases "16 \<le> length p"; simp)+
    have "chain_enc h iv p \<noteq> []" using length_enc [of iv p] False by auto
    then have "chain_dec h iv (chain_enc h iv p) = map2 (XOR) ?c (h iv) @ chain_dec h [?c] (chain_enc h [?c] (drop 16 p))"
      by (subst chain_dec.simps) (simp only: t if_False)
    also have "\<dots> = take 16 p @ drop 16 p" using less [of "drop 16 p" "[?c]"] False by (simp add: xor_pad length_pad)
    finally show ?thesis by simp
  qed simp
qed

end

interpretation md: pad_source "\<lambda>fr. md5_vector junk (secret # fr)" for junk secret
  by unfold_locales (simp add: md5_vector_def MD5Final_def digest_bytes_def le_bytes_def Let_def split: prod.split)

subsection \<open>One key\<close>

lemma ms_len_bounds:
  assumes "k \<le> 239"
  shows "ms_len k mod 16 = 0" "1 + k \<le> ms_len k" "ms_len k \<le> k + 16" "ms_len k \<le> 240"
proof -
  have "(1 + k) div 16 mod 16 = (1 + k) div 16" using assms by (intro mod_less) simp
  then have m: "ms_len k = (if (1 + k) mod 16 = 0 then 1 + k else (1 + k) div 16 * 16 + 16)" by (simp add: ms_len_def Let_def)
  obtain q r where d: "1 + k = q * 16 + r" "r < 16" "(1 + k) div 16 = q" "(1 + k) mod 16 = r"
    by (metis div_mult_mod_eq mod_less_divisor zero_less_numeral)
  show "ms_len k mod 16 = 0" unfolding m by simp
  show "1 + k \<le> ms_len k" "ms_len k \<le> k + 16" "ms_len k \<le> 240" unfolding m d(3,4) using d(1,2) assms by simp_all
qed

lemma ms_key_roundtrip:
  assumes k: "length key \<le> 239" and cap: "ms_len (length key) \<le> cap" and salt: "length salt = 2"
  shows "\<exists>e. encrypt_ms_key junk s ra salt key cap = Inr e \<and> length e = ms_len (length key)
     \<and> decrypt_ms_key junk s (take 16 ra) (salt @ e) = Some key"
proof -
  note b = ms_len_bounds [OF k]
  define p where "p = of_nat (length key) # key @ replicate (ms_len (length key) - 1 - length key) (0 :: byte)"
  have lp: "length p = ms_len (length key)" using b(2) by (simp add: p_def)
  define e where "e = chain_enc (\<lambda>fr. md5_vector junk (s # fr)) [take 16 ra, salt] p"
  have le: "length e = ms_len (length key)" by (simp add: e_def lp md.length_enc)
  have "encrypt_ms_key junk s ra salt key cap = Inr e"
    using cap b(2) lp by (simp add: encrypt_ms_key_def Let_def MD5_MAC_LEN_def e_def p_def)
  moreover have "chain_dec (\<lambda>fr. md5_vector junk (s # fr)) [take 16 (take 16 ra), take 2 (salt @ e)] (drop 2 (salt @ e)) = p"
    using md.dec_enc [of junk s "[take 16 ra, salt]" p] salt by (simp add: e_def)
  moreover have "16 \<le> length e" using le b(1,2) by (simp add: mod_eq_0_iff_dvd dvd_imp_le)
  moreover have "unat (p ! 0) = length key" unfolding p_def using k by (simp add: unat_of_nat)
  moreover have "take (length key) (drop 1 p) = key" by (simp add: p_def)
  moreover have "(length (salt @ e) - 2) mod 16 = 0" using salt le b(1) by simp
  ultimately show ?thesis using le lp b(2) salt by (simp add: decrypt_ms_key_def Let_def MD5_MAC_LEN_def)
qed

subsection \<open>Vendor attributes\<close>

fun vendor_of :: "nat \<Rightarrow> byte \<Rightarrow> attr list \<Rightarrow> byte list option" where
  "vendor_of vendor subtype [] = None"
| "vendor_of vendor subtype ((t, d) # as) =
     (if t \<noteq> RADIUS_ATTR_VENDOR_SPECIFIC \<or> length d < 4 \<or> be_val (take 4 d) \<noteq> vendor then vendor_of vendor subtype as
      else case vendor_scan subtype (drop 4 d) of None \<Rightarrow> vendor_of vendor subtype as | Some v \<Rightarrow> Some v)"

lemma vendor_view:
  "view m h (xs @ ys) \<Longrightarrow>
     vendor_attrs m vendor subtype (map (\<lambda>n. rm_addr m + int n) (offsets (20 + length (enc_attrs xs)) ys)) = Inr (vendor_of vendor subtype ys)"
proof (induction ys arbitrary: xs)
  case (Cons y ys)
  obtain t d where y: "y = (t, d)" by (cases y)
  note r = view_read [OF Cons.prems [unfolded y]]
  have "view m h ((xs @ [y]) @ ys)" using Cons.prems by simp
  from Cons.IH [OF this] r show ?case
    unfolding view_split_attrs [OF Cons.prems] by (simp add: y split: option.split)
qed simp

lemma get_vendor_attr_view: "view m h as \<Longrightarrow> radius_msg_get_vendor_attr m vendor subtype = Inr (vendor_of vendor subtype as)"
  using vendor_view [of m h "[]" as] viewD(4) [of m h as] by (simp add: radius_msg_get_vendor_attr_def)

definition ms_attr :: "byte \<Rightarrow> byte list \<Rightarrow> attr" where
  "ms_attr subtype v = (RADIUS_ATTR_VENDOR_SPECIFIC, be32 RADIUS_VENDOR_ID_MICROSOFT @ [subtype, of_nat (2 + length v)] @ v)"

lemma vendor_of_skip: "\<forall>a \<in> set as. fst a \<noteq> RADIUS_ATTR_VENDOR_SPECIFIC \<Longrightarrow> vendor_of vendor subtype (as @ bs) = vendor_of vendor subtype bs"
  by (induction as) auto

lemma vendor_scan_one:
  assumes "length v \<le> 253"
  shows "vendor_scan subtype ([st, of_nat (2 + length v)] @ v) = (if st = subtype then Some v else None)"
proof -
  have "unat (of_nat (2 + length v) :: byte) = 2 + length v" unfolding unat_of_nat using assms by simp
  then show ?thesis by (subst vendor_scan.simps) (simp add: vendor_scan.simps [of subtype "[]"])
qed

lemma vendor_of_ms:
  assumes "length v \<le> 253"
  shows "vendor_of RADIUS_VENDOR_ID_MICROSOFT subtype (ms_attr st v # as)
     = (if st = subtype then Some v else vendor_of RADIUS_VENDOR_ID_MICROSOFT subtype as)"
proof -
  have "length (be32 311) = 4" "be_val (be32 311) = 311" by (simp_all add: be32_def be_val_def)
  then show ?thesis using vendor_scan_one [OF assms, of subtype st] by (simp add: ms_attr_def RADIUS_VENDOR_ID_MICROSOFT_def)
qed

lemma add_mppe_key_view:
  assumes v: "view m h as" "placed c m" and al: "near al c" and sz: "rm_used m + 255 \<le> 2 ^ 30"
    and k: "length key \<le> 239" "ms_len (length key) \<le> space"
  shows "\<exists>w p m'. add_mppe_key al junk s ra subtype salt key space m = Inr (Some p, m') \<and> view m' h (as @ [ms_attr subtype w]) \<and> placed c m'
     \<and> decrypt_ms_key junk s (take 16 ra) w = Some key \<and> length w \<le> 242 \<and> rm_used m' \<le> rm_used m + 255"
proof -
  define sb where "sb = [ucast (drop_bit 8 salt) :: byte, ucast salt]"
  have "length sb = 2" by (simp add: sb_def)
  from ms_key_roundtrip [OF k this] obtain e where e: "encrypt_ms_key junk s ra sb key space = Inr e" "length e = ms_len (length key)"
      "decrypt_ms_key junk s (take 16 ra) (sb @ e) = Some key" by blast
  have le: "length e \<le> 240" using e(2) ms_len_bounds(4) [OF k(1)] by simp
  let ?d = "snd (ms_attr subtype (sb @ e))"
  have d: "be32 RADIUS_VENDOR_ID_MICROSOFT @ [subtype, of_nat (8 + length e - 4)] @ sb @ e = ?d" by (simp add: ms_attr_def \<open>length sb = 2\<close>)
  have "length ?d \<le> 253" using le by (simp add: ms_attr_def \<open>length sb = 2\<close> be32_def)
  from add_attr_view [OF v al this sz, of RADIUS_ATTR_VENDOR_SPECIFIC] obtain m' where
    m': "radius_msg_add_attr al RADIUS_ATTR_VENDOR_SPECIFIC ?d m = Inr (Some (attr_ptr m' as), m')"
      "view m' h (as @ [(RADIUS_ATTR_VENDOR_SPECIFIC, ?d)])" "placed c m'" by blast
  have "add_mppe_key al junk s ra subtype salt key space m = Inr (Some (attr_ptr m' as), m')"
    unfolding m'(1) [symmetric] d [symmetric] using e(1) by (simp add: add_mppe_key_def Let_def flip: sb_def del: rbind_eq_Inr)
  moreover have "view m' h (as @ [ms_attr subtype (sb @ e)])" using m'(2) by (simp add: ms_attr_def)
  moreover have "rm_used m' \<le> rm_used m + 255" using viewD(2) [OF m'(2)] viewD(2) [OF v(1)] \<open>length ?d \<le> 253\<close> by simp
  ultimately show ?thesis using m'(3) e(3) le \<open>length sb = 2\<close> by (intro exI [of _ "sb @ e"]) auto
qed

lemma add_mppe_keys_view:
  assumes v: "view m h as" "placed c m" and al: "near al c" and sz: "rm_used m + 510 \<le> 2 ^ 30"
    and k: "length send \<le> 239" "length recv \<le> 239" "ms_len (length recv) \<le> length send + 16"
  shows "\<exists>v w m'. radius_msg_add_mppe_keys al True True junk rnd ra s send recv m = Inr (True, m') \<and> placed c m'
     \<and> view m' h (as @ [ms_attr RADIUS_VENDOR_ATTR_MS_MPPE_SEND_KEY v, ms_attr RADIUS_VENDOR_ATTR_MS_MPPE_RECV_KEY w])
     \<and> decrypt_ms_key junk s (take 16 ra) v = Some send \<and> decrypt_ms_key junk s (take 16 ra) w = Some recv
     \<and> length v \<le> 242 \<and> length w \<le> 242"
proof -
  have "rm_used m + 255 \<le> 2 ^ 30" "ms_len (length send) \<le> length send + 16" using sz ms_len_bounds(3) [OF k(1)] by simp_all
  from add_mppe_key_view [OF v al this(1) k(1) this(2), of junk s ra RADIUS_VENDOR_ATTR_MS_MPPE_SEND_KEY "rnd OR 0x8000"]
  obtain v1 p1 m1 where 1: "add_mppe_key al junk s ra RADIUS_VENDOR_ATTR_MS_MPPE_SEND_KEY (rnd OR 0x8000) send (length send + 16) m = Inr (Some p1, m1)"
      "view m1 h (as @ [ms_attr RADIUS_VENDOR_ATTR_MS_MPPE_SEND_KEY v1])" "placed c m1" "decrypt_ms_key junk s (take 16 ra) v1 = Some send"
      "length v1 \<le> 242" "rm_used m1 \<le> rm_used m + 255" by blast
  have "rm_used m1 + 255 \<le> 2 ^ 30" using 1(6) sz by simp
  from add_mppe_key_view [OF 1(2,3) al this k(2,3), of junk s ra RADIUS_VENDOR_ATTR_MS_MPPE_RECV_KEY "(rnd OR 0x8000) XOR 1"]
  obtain v2 p2 m2 where 2: "add_mppe_key al junk s ra RADIUS_VENDOR_ATTR_MS_MPPE_RECV_KEY ((rnd OR 0x8000) XOR 1) recv (length send + 16) m1 = Inr (Some p2, m2)"
      "view m2 h ((as @ [ms_attr RADIUS_VENDOR_ATTR_MS_MPPE_SEND_KEY v1]) @ [ms_attr RADIUS_VENDOR_ATTR_MS_MPPE_RECV_KEY v2])" "placed c m2"
      "decrypt_ms_key junk s (take 16 ra) v2 = Some recv" "length v2 \<le> 242" by blast
  have "radius_msg_add_mppe_keys al True True junk rnd ra s send recv m = Inr (True, m2)"
    using 1(1) 2(1) by (simp add: radius_msg_add_mppe_keys_def Let_def del: rbind_eq_Inr)
  then show ?thesis using 1 2 by (intro exI [of _ v1] exI [of _ v2] exI [of _ m2]) simp
qed

subsection \<open>Properties\<close>

text \<open>
  C21. The MPPE keys survive the trip. For keys of at most 239 bytes, with a receive key that fits into the
  buffer sized for the send key, \<^verbatim>\<open>radius_msg_add_mppe_keys\<close> succeeds on an answer without vendor
  attributes, and \<^verbatim>\<open>radius_msg_get_ms_keys\<close> with the same secret and the request the answer belongs to
  gives back both keys, whatever other attributes are added behind them.
\<close>

theorem mppe_keys_roundtrip:
  assumes "view m h as" "placed c m" "near al c" "rm_used m + 510 \<le> 2 ^ 30"
    and "length send \<le> 239" "length recv \<le> 239" "ms_len (length recv) \<le> length send + 16"
    and "\<forall>a \<in> set as. fst a \<noteq> RADIUS_ATTR_VENDOR_SPECIFIC" and "hdr_authenticator sent = take 16 ra"
  shows "\<exists>m' ks. radius_msg_add_mppe_keys al True True junk rnd ra s send recv m = Inr (True, m') \<and> placed c m' \<and> view m' h (as @ ks)
     \<and> (\<forall>m'' h'' bs. view m'' h'' (as @ ks @ bs) \<longrightarrow> radius_msg_get_ms_keys junk s sent m'' = Inr (Some send, Some recv))"
proof -
  from add_mppe_keys_view [OF assms(1-7), of junk rnd ra s] obtain v w m' where
    r: "radius_msg_add_mppe_keys al True True junk rnd ra s send recv m = Inr (True, m')" "placed c m'"
      "view m' h (as @ [ms_attr RADIUS_VENDOR_ATTR_MS_MPPE_SEND_KEY v, ms_attr RADIUS_VENDOR_ATTR_MS_MPPE_RECV_KEY w])"
      "decrypt_ms_key junk s (take 16 ra) v = Some send" "decrypt_ms_key junk s (take 16 ra) w = Some recv" "length v \<le> 242" "length w \<le> 242" by blast
  let ?ks = "[ms_attr RADIUS_VENDOR_ATTR_MS_MPPE_SEND_KEY v, ms_attr RADIUS_VENDOR_ATTR_MS_MPPE_RECV_KEY w]"
  have "radius_msg_get_ms_keys junk s sent m'' = Inr (Some send, Some recv)" if "view m'' h'' (as @ ?ks @ bs)" for m'' h'' bs
    using get_vendor_attr_view [OF that] vendor_of_ms [of v] vendor_of_ms [of w] vendor_of_skip [OF assms(8)] r(4-7) assms(9)
    by (simp add: radius_msg_get_ms_keys_def RADIUS_VENDOR_ATTR_MS_MPPE_SEND_KEY_def RADIUS_VENDOR_ATTR_MS_MPPE_RECV_KEY_def)
  then show ?thesis using r(1-3) by (intro exI [of _ m'] exI [of _ ?ks]) blast
qed

theorem mppe_keys_roundtrip_witness:
  "\<exists>m m'. radius_msg_new (Some 0) True 2 3 = Some m
     \<and> radius_msg_add_mppe_keys \<lparr>grow_buf = \<lambda>n. Some 0, grow_arr = \<lambda>n. True\<rparr> True True (replicate 64 0) 6 (replicate 16 0) [5] [1, 2, 3] [4, 4] m = Inr (True, m')
     \<and> radius_msg_get_ms_keys (replicate 64 0) [5] m m' = Inr (Some [1, 2, 3], Some [4, 4])"
proof -
  let ?al = "\<lparr>grow_buf = \<lambda>n. Some 0, grow_arr = \<lambda>n. True\<rparr>"
  obtain m where m: "radius_msg_new (Some 0) True 2 3 = Some m" "view m (2 # 3 # replicate 18 0) []" "rm_addr m = 0" "rm_used m = 20"
    by (rule new_view)
  have "near ?al 0" "placed 0 m" by (simp_all add: near_def placed_def m(3))
  moreover have "hdr_authenticator m = take 16 (replicate 16 0)" using viewD(8) [OF m(2)] by (simp add: numeral_eq_Suc)
  moreover have "ms_len (length [4 :: byte, 4]) \<le> length [1 :: byte, 2, 3] + 16" by (simp add: ms_len_def Let_def)
  ultimately have "\<exists>m' ks. radius_msg_add_mppe_keys ?al True True (replicate 64 0) 6 (replicate 16 0) [5] [1, 2, 3] [4, 4] m = Inr (True, m') \<and> placed 0 m'
      \<and> view m' (2 # 3 # replicate 18 0) ([] @ ks)
      \<and> (\<forall>m'' h'' bs. view m'' h'' ([] @ ks @ bs) \<longrightarrow> radius_msg_get_ms_keys (replicate 64 0) [5] m m'' = Inr (Some [1, 2, 3], Some [4, 4]))"
    using m(4) by (intro mppe_keys_roundtrip [OF m(2)]) simp_all
  with m(1) show ?thesis by (metis append_Nil append_Nil2)
qed

end
