(* ===== verification/Tgen_Tloop.thy ===== *)
theory Tgen_Tloop
  imports Tgen_Types
begin

section \<open>The event loop of an authentication (tsupplicant.c, tloop)\<close>

text \<open>
  Timeouts in the order of their time, one socket to read from, and the loop that waits for the first
  of them. A timeout and a socket carry the handler, a value of a type that the client of the loop
  chooses, and the two context pointers. The state of the client extends the record of the loop.

  What comes from the system (the clock, \<^verbatim>\<open>malloc\<close>, \<^verbatim>\<open>select\<close>, \<^verbatim>\<open>send\<close>, \<^verbatim>\<open>recv\<close>, \<^verbatim>\<open>connect\<close>) is a function of the
  number of system calls made before, so that one \<open>sys\<close> gives every sequence of outcomes.
\<close>

subsection \<open>The system\<close>

datatype sel_result = SelError | SelIntr | SelTimeout | SelReady

datatype send_result = Sent | SendError | SendNotConn

record sys =
  w_clock :: "nat \<Rightarrow> timeval"
  w_malloc :: "nat \<Rightarrow> bool"
  w_select :: "nat \<Rightarrow> timeval option \<Rightarrow> sel_result"
  w_send :: "nat \<Rightarrow> send_result"
  w_recv :: "nat \<Rightarrow> 8 word list option"
  w_connect :: "nat \<Rightarrow> bool"
  w_socket :: "nat \<Rightarrow> int"

definition tv_less :: "timeval \<Rightarrow> timeval \<Rightarrow> bool" where
  "tv_less a b \<longleftrightarrow> (if fst a = fst b then snd a < snd b else fst a < fst b)"

definition tv_sub :: "timeval \<Rightarrow> timeval \<Rightarrow> timeval" where
  "tv_sub a b = (if snd a - snd b < 0 then (fst a - fst b - 1, snd a - snd b + 1000000) else (fst a - fst b, snd a - snd b))"

function tv_norm :: "timeval \<Rightarrow> timeval" where
  "tv_norm (s, us) = (if 1000000 \<le> us then tv_norm (s + 1, us - 1000000) else (s, us))"
  by pat_completeness auto
termination
  by (relation "measure (\<lambda>(s, us). nat us)") auto

declare tv_norm.simps [simp del]

subsection \<open>State\<close>

record 'h tloop_timeout =
  to_time :: timeval
  to_data :: int
  to_user :: int
  to_handler :: 'h

record 'r tloop_sock =
  rs_sock :: int
  rs_data :: int
  rs_user :: int
  rs_handler :: 'r

record ('h, 'r) tloop =
  lp_tick :: nat
  lp_readers :: "'r tloop_sock option"
  lp_timeout :: "'h tloop_timeout list"
  lp_terminate :: bool

definition tick :: "('h, 'r, 'm) tloop_scheme \<Rightarrow> ('h, 'r, 'm) tloop_scheme" where
  "tick s = s\<lparr>lp_tick := Suc (lp_tick s)\<rparr>"

definition gettimeofday :: "'w sys_scheme \<Rightarrow> ('h, 'r, 'm) tloop_scheme \<Rightarrow> timeval \<times> ('h, 'r, 'm) tloop_scheme" where
  "gettimeofday w s = (w_clock w (lp_tick s), tick s)"

definition malloc :: "'w sys_scheme \<Rightarrow> ('h, 'r, 'm) tloop_scheme \<Rightarrow> bool \<times> ('h, 'r, 'm) tloop_scheme" where
  "malloc w s = (w_malloc w (lp_tick s), tick s)"

definition TLOOP_ALL_CTX :: int where "TLOOP_ALL_CTX = -1"

subsection \<open>Operations\<close>

fun insert_timeout :: "'h tloop_timeout \<Rightarrow> 'h tloop_timeout list \<Rightarrow> 'h tloop_timeout list" where
  "insert_timeout t [] = [t]"
| "insert_timeout t (x # xs) = (if tv_less (to_time t) (to_time x) then t # x # xs else x # insert_timeout t xs)"

text \<open>The delay is an \<^verbatim>\<open>unsigned int\<close>.\<close>

definition tloop_register_timeout :: "'w sys_scheme \<Rightarrow> int \<Rightarrow> int \<Rightarrow> 'h \<Rightarrow> int \<Rightarrow> int \<Rightarrow> ('h, 'r, 'm) tloop_scheme \<Rightarrow> int \<times> ('h, 'r, 'm) tloop_scheme" where
  "tloop_register_timeout w secs usecs h d u s =
     (let (ok, s1) = malloc w s
      in if \<not> ok then (-1, s1)
         else let (now, s2) = gettimeofday w s1;
                  t = \<lparr>to_time = tv_norm (fst now + secs mod 2 ^ 32, snd now + usecs mod 2 ^ 32), to_data = d, to_user = u, to_handler = h\<rparr>
              in (0, s2\<lparr>lp_timeout := insert_timeout t (lp_timeout s2)\<rparr>))"

definition timeout_matches :: "'h \<Rightarrow> int \<Rightarrow> int \<Rightarrow> 'h tloop_timeout \<Rightarrow> bool" where
  "timeout_matches h d u t \<longleftrightarrow> to_handler t = h \<and> (to_data t = d \<or> d = TLOOP_ALL_CTX) \<and> (to_user t = u \<or> u = TLOOP_ALL_CTX)"

definition tloop_cancel_timeout :: "'h \<Rightarrow> int \<Rightarrow> int \<Rightarrow> ('h, 'r, 'm) tloop_scheme \<Rightarrow> nat \<times> ('h, 'r, 'm) tloop_scheme" where
  "tloop_cancel_timeout h d u s =
     (length (filter (timeout_matches h d u) (lp_timeout s)), s\<lparr>lp_timeout := filter (\<lambda>t. \<not> timeout_matches h d u t) (lp_timeout s)\<rparr>)"

definition tloop_register_read_sock :: "'w sys_scheme \<Rightarrow> int \<Rightarrow> 'r \<Rightarrow> int \<Rightarrow> int \<Rightarrow> ('h, 'r, 'm) tloop_scheme \<Rightarrow> int \<times> ('h, 'r, 'm) tloop_scheme" where
  "tloop_register_read_sock w sock h d u s =
     (let (ok, s1) = malloc w s
      in if \<not> ok then (-1, s1) else (0, s1\<lparr>lp_readers := Some \<lparr>rs_sock = sock, rs_data = d, rs_user = u, rs_handler = h\<rparr>\<rparr>))"

definition tloop_unregister_read_sock :: "int \<Rightarrow> ('h, 'r, 'm) tloop_scheme \<Rightarrow> ('h, 'r, 'm) tloop_scheme" where
  "tloop_unregister_read_sock sock s =
     (case lp_readers s of None \<Rightarrow> s | Some r \<Rightarrow> if rs_sock r = sock then s\<lparr>lp_readers := None\<rparr> else s)"

definition tloop_terminate :: "('h, 'r, 'm) tloop_scheme \<Rightarrow> ('h, 'r, 'm) tloop_scheme" where
  "tloop_terminate s = s\<lparr>lp_terminate := True\<rparr>"

definition tloop_terminated :: "('h, 'r, 'm) tloop_scheme \<Rightarrow> bool" where
  "tloop_terminated s = lp_terminate s"

text \<open>The time to wait for, or none; the handler of the first timeout when it is due; the handler of the socket.\<close>

definition select_time :: "'w sys_scheme \<Rightarrow> ('h, 'r, 'm) tloop_scheme \<Rightarrow> timeval option \<times> ('h, 'r, 'm) tloop_scheme" where
  "select_time w s =
     (case lp_timeout s of
        [] \<Rightarrow> (None, s)
      | t # _ \<Rightarrow> let (now, s1) = gettimeofday w s
                in (Some (if tv_less now (to_time t) then tv_sub (to_time t) now else (0, 0)), s1))"

definition fire_timeout :: "'w sys_scheme \<Rightarrow> ('h tloop_timeout \<Rightarrow> ('h, 'r, 'm) tloop_scheme \<Rightarrow> ('h, 'r, 'm) tloop_scheme result)
    \<Rightarrow> ('h, 'r, 'm) tloop_scheme \<Rightarrow> ('h, 'r, 'm) tloop_scheme result" where
  "fire_timeout w th s =
     (case lp_timeout s of
        [] \<Rightarrow> Inr s
      | t # ts \<Rightarrow> let (now, s1) = gettimeofday w s
                 in if tv_less now (to_time t) then Inr s1 else th t (s1\<lparr>lp_timeout := ts\<rparr>))"

definition read_socket :: "('r tloop_sock \<Rightarrow> ('h, 'r, 'm) tloop_scheme \<Rightarrow> ('h, 'r, 'm) tloop_scheme result)
    \<Rightarrow> sel_result \<Rightarrow> int \<Rightarrow> ('h, 'r, 'm) tloop_scheme \<Rightarrow> ('h, 'r, 'm) tloop_scheme result" where
  "read_socket rh rdy sock s =
     (if rdy \<noteq> SelReady then Inr s
      else case lp_readers s of None \<Rightarrow> Inl NullDeref | Some r \<Rightarrow> if rs_sock r = sock then rh r s else Inr s)"

partial_function (option) tloop_loop :: "'w sys_scheme \<Rightarrow> ('h tloop_timeout \<Rightarrow> ('h, 'r, 'm) tloop_scheme \<Rightarrow> ('h, 'r, 'm) tloop_scheme result)
    \<Rightarrow> ('r tloop_sock \<Rightarrow> ('h, 'r, 'm) tloop_scheme \<Rightarrow> ('h, 'r, 'm) tloop_scheme result) \<Rightarrow> ('h, 'r, 'm) tloop_scheme
    \<Rightarrow> ('h, 'r, 'm) tloop_scheme result option" where
  "tloop_loop w th rh s =
     (if lp_terminate s then Some (Inr s)
      else let (tv, s1) = select_time w s
           in case lp_readers s1 of
                None \<Rightarrow> Some (Inl NullDeref)
              | Some r \<Rightarrow>
                  let rdy = w_select w (lp_tick s1) tv; s2 = tick s1
                  in if rdy = SelError then Some (Inr s2)
                     else rseq (Some (rbind (fire_timeout w th s2) (read_socket rh rdy (rs_sock r)))) (tloop_loop w th rh))"

declare tloop_loop.simps [code]

definition tloop_run :: "'w sys_scheme \<Rightarrow> ('h tloop_timeout \<Rightarrow> ('h, 'r, 'm) tloop_scheme \<Rightarrow> ('h, 'r, 'm) tloop_scheme result)
    \<Rightarrow> ('r tloop_sock \<Rightarrow> ('h, 'r, 'm) tloop_scheme \<Rightarrow> ('h, 'r, 'm) tloop_scheme result) \<Rightarrow> ('h, 'r, 'm) tloop_scheme
    \<Rightarrow> ('h, 'r, 'm) tloop_scheme result option" where
  "tloop_run w th rh s = (let (ok, s1) = malloc w s in if ok then tloop_loop w th rh s1 else Some (Inr s1))"

subsection \<open>The order of the timeouts\<close>

definition in_order :: "'h tloop_timeout list \<Rightarrow> bool" where
  "in_order ts \<longleftrightarrow> sorted_wrt (\<lambda>a b. \<not> tv_less (to_time b) (to_time a)) ts"

lemma tv_less_trans: "tv_less a b \<Longrightarrow> \<not> tv_less c b \<Longrightarrow> tv_less a c"
  by (auto simp: tv_less_def split: if_splits)

lemma tv_le_trans: "\<not> tv_less b a \<Longrightarrow> \<not> tv_less c b \<Longrightarrow> \<not> tv_less c a"
  by (auto simp: tv_less_def split: if_splits)

lemma tv_less_asym: "tv_less a b \<Longrightarrow> \<not> tv_less b a"
  by (auto simp: tv_less_def split: if_splits)

lemma tv_less_irrefl [simp]: "\<not> tv_less a a"
  by (simp add: tv_less_def)

lemma in_order_simps [simp]: "in_order []" "in_order (t # ts) \<longleftrightarrow> (\<forall>x \<in> set ts. \<not> tv_less (to_time x) (to_time t)) \<and> in_order ts"
  by (simp_all add: in_order_def)

lemma mset_insert_timeout [simp]: "mset (insert_timeout t ts) = add_mset t (mset ts)"
  by (induction ts) auto

lemma set_insert_timeout [simp]: "set (insert_timeout t ts) = insert t (set ts)"
  by (induction ts) auto

lemma in_order_insert: "in_order ts \<Longrightarrow> in_order (insert_timeout t ts)"
proof (induction ts)
  case (Cons x xs)
  show ?case
  proof (cases "tv_less (to_time t) (to_time x)")
    case True
    have "\<not> tv_less (to_time y) (to_time t)" if "y \<in> set xs" for y
      using tv_less_trans [OF True, of "to_time y"] tv_less_asym Cons.prems that by auto
    then show ?thesis using True Cons.prems tv_less_asym [OF True] by simp
  qed (use Cons in auto)
qed simp

lemma in_order_filter: "in_order ts \<Longrightarrow> in_order (filter P ts)"
  by (simp add: in_order_def sorted_wrt_filter)

text \<open>The number of timeouts before a given one.\<close>

definition rank :: "'h tloop_timeout \<Rightarrow> 'h tloop_timeout list \<Rightarrow> nat" where
  "rank d ts = length (takeWhile (\<lambda>t. t \<noteq> d) ts)"

lemma rank_Cons [simp]: "rank d (t # ts) = (if t = d then 0 else Suc (rank d ts))"
  by (simp add: rank_def)

lemma rank_insert: "d \<in> set ts \<Longrightarrow> \<not> tv_less (to_time t) (to_time d) \<Longrightarrow> in_order ts \<Longrightarrow> rank d (insert_timeout t ts) = rank d ts"
proof (induction ts)
  case (Cons x xs)
  show ?case
  proof (cases "tv_less (to_time t) (to_time x)")
    case True
    then have "d \<noteq> x" "d \<in> set xs" using Cons.prems by auto
    then show ?thesis using tv_less_trans [OF True, of "to_time d"] Cons.prems by auto
  qed (use Cons in auto)
qed simp

lemma rank_filter: "d \<in> set ts \<Longrightarrow> P d \<Longrightarrow> rank d (filter P ts) \<le> rank d ts"
  by (induction ts) auto

lemma tv_norm_eq: "0 \<le> us \<Longrightarrow> tv_norm (s, us) = (s + us div 1000000, us mod 1000000)"
proof (induction "(s, us)" arbitrary: s us rule: tv_norm.induct)
  case (1 s us)
  show ?case
  proof (cases "1000000 \<le> us")
    case True
    then have "us = (us - 1000000) + 1000000" by simp
    then have "us div 1000000 = (us - 1000000) div 1000000 + 1" "us mod 1000000 = (us - 1000000) mod 1000000"
      by (metis div_add_self2 zero_neq_numeral, metis mod_add_self2)
    then show ?thesis using True 1(1) by (subst tv_norm.simps) simp
  qed (use 1(2) in \<open>simp add: tv_norm.simps\<close>)
qed

lemma tv_norm_later:
  assumes "0 \<le> us" "us < 1000000" "0 \<le> secs" "0 \<le> usecs"
  shows "\<not> tv_less (tv_norm (s + secs, us + usecs)) (s, us)"
proof (cases "1000000 \<le> us + usecs")
  case True
  then have "1 \<le> (us + usecs) div 1000000" by simp
  then show ?thesis using assms by (simp add: tv_norm_eq tv_less_def)
next
  case False
  then show ?thesis using assms by (simp add: tv_norm_eq tv_less_def)
qed

subsection \<open>The contract of the handlers\<close>

text \<open>
  A deadline \<open>D\<close> is one of the timeouts. \<open>past\<close>: from now on the clock shows at least its time. A handler
  is \<open>polite\<close> when it keeps the order of the timeouts, does not cancel the deadline, unless it ends the
  loop, and puts nothing before it once it is past. The operations on the loop are polite, and so is
  every composition of them.
\<close>

definition past :: "'w sys_scheme \<Rightarrow> 'h tloop_timeout \<Rightarrow> nat \<Rightarrow> bool" where
  "past w D k \<longleftrightarrow> (\<forall>j \<ge> k. \<not> tv_less (w_clock w j) (to_time D))"

definition polite :: "'w sys_scheme \<Rightarrow> 'h tloop_timeout \<Rightarrow> ('h, 'r, 'm) tloop_scheme \<Rightarrow> ('h, 'r, 'm) tloop_scheme \<Rightarrow> bool" where
  "polite w D s s' \<longleftrightarrow> lp_tick s \<le> lp_tick s' \<and> (lp_terminate s \<longrightarrow> lp_terminate s')
     \<and> (in_order (lp_timeout s) \<longrightarrow> in_order (lp_timeout s')
          \<and> (lp_terminate s' \<or> (D \<in> set (lp_timeout s) \<longrightarrow> D \<in> set (lp_timeout s')
                \<and> (past w D (lp_tick s) \<longrightarrow> rank D (lp_timeout s') \<le> rank D (lp_timeout s)))))"

definition clock_ok :: "'w sys_scheme \<Rightarrow> bool" where
  "clock_ok w \<longleftrightarrow> (\<forall>k. 0 \<le> snd (w_clock w k) \<and> snd (w_clock w k) < 1000000)"

lemma past_later: "past w D k \<Longrightarrow> k \<le> j \<Longrightarrow> past w D j"
  by (simp add: past_def)

lemma polite_trans [trans]: "polite w D s1 s2 \<Longrightarrow> polite w D s2 s3 \<Longrightarrow> polite w D s1 s3"
  unfolding polite_def using past_later [of w D "lp_tick s1" "lp_tick s2"] by (auto intro: le_trans)

lemma polite_same:
  "lp_tick s \<le> lp_tick s' \<Longrightarrow> lp_timeout s' = lp_timeout s \<Longrightarrow> (lp_terminate s \<longrightarrow> lp_terminate s') \<Longrightarrow> polite w D s s'"
  by (simp add: polite_def)

lemma polite_refl [simp]: "polite w D s s"
  by (simp add: polite_same)

lemma tick_sel [simp]:
  "lp_tick (tick s) = Suc (lp_tick s)" "lp_timeout (tick s) = lp_timeout s" "lp_terminate (tick s) = lp_terminate s" "lp_readers (tick s) = lp_readers s"
  by (simp_all add: tick_def)

lemma polite_tick [simp]: "polite w D s (tick s)"
  by (simp add: polite_same)

lemma polite_register:
  assumes "clock_ok w" "tloop_register_timeout w secs usecs h d u s = (r, s')"
  shows "polite w D s s'"
proof (cases "w_malloc w (lp_tick s)")
  case False
  then show ?thesis using assms(2) by (auto simp: tloop_register_timeout_def malloc_def)
next
  case True
  define n where "n = w_clock w (Suc (lp_tick s))"
  define t where "t = \<lparr>to_time = tv_norm (fst n + secs mod 2 ^ 32, snd n + usecs mod 2 ^ 32), to_data = d, to_user = u, to_handler = h\<rparr>"
  have s': "s' = (tick (tick s))\<lparr>lp_timeout := insert_timeout t (lp_timeout s)\<rparr>"
    using assms(2) True by (simp add: tloop_register_timeout_def malloc_def gettimeofday_def t_def n_def Let_def)
  have "0 \<le> snd n" "snd n < 1000000" using assms(1) by (simp_all add: clock_ok_def n_def)
  from tv_norm_later [OF this, of "secs mod 2 ^ 32" "usecs mod 2 ^ 32" "fst n"] have late: "\<not> tv_less (to_time t) n" by (simp add: t_def)
  have "rank D (insert_timeout t (lp_timeout s)) \<le> rank D (lp_timeout s)"
    if "D \<in> set (lp_timeout s)" "in_order (lp_timeout s)" "past w D (lp_tick s)"
  proof -
    have "\<not> tv_less n (to_time D)" using that(3) by (simp add: past_def n_def)
    from tv_le_trans [OF this late] rank_insert [OF that(1) _ that(2)] show ?thesis by simp
  qed
  then show ?thesis using in_order_insert [of "lp_timeout s" t] by (simp add: polite_def s')
qed

lemma polite_cancel:
  assumes "\<not> timeout_matches h d u D" "tloop_cancel_timeout h d u s = (r, s')"
  shows "polite w D s s'"
  using assms rank_filter [of D "lp_timeout s"] in_order_filter [of "lp_timeout s"]
  by (auto simp: tloop_cancel_timeout_def polite_def)

lemma polite_terminate: "polite w D s (tloop_terminate s)"
  by (simp add: tloop_terminate_def polite_same)

lemma polite_read_sock: "tloop_register_read_sock w' k h d u s = (r, s') \<Longrightarrow> polite w D s s'"
  by (auto simp: tloop_register_read_sock_def malloc_def split: if_splits intro!: polite_same)

lemma polite_unregister: "polite w D s (tloop_unregister_read_sock k s)"
  by (auto simp: tloop_unregister_read_sock_def split: option.splits intro!: polite_same)

lemmas polite_ops = polite_register polite_cancel polite_terminate polite_read_sock polite_unregister

subsection \<open>Invariants of the loop\<close>

lemma fire_inv:
  assumes "I s" "fire_timeout w th s = Inr s'" and tck: "\<And>s. I s \<Longrightarrow> I (tick s)"
    and fire: "\<And>s t ts s'. I s \<Longrightarrow> lp_timeout s = t # ts \<Longrightarrow> th t (s\<lparr>lp_timeout := ts\<rparr>) = Inr s' \<Longrightarrow> I s'"
  shows "I s'"
  using assms(2) tck [OF assms(1)] assms(1) fire [of "tick s"]
  by (auto simp: fire_timeout_def gettimeofday_def split: list.splits if_splits)

lemma tloop_loop_inv:
  assumes l: "tloop_loop w th rh s = Some (Inr s')" and i: "I s" and tck: "\<And>s. I s \<Longrightarrow> I (tick s)"
    and fire: "\<And>s t ts s'. I s \<Longrightarrow> lp_timeout s = t # ts \<Longrightarrow> th t (s\<lparr>lp_timeout := ts\<rparr>) = Inr s' \<Longrightarrow> I s'"
    and read: "\<And>s r s'. I s \<Longrightarrow> lp_readers s = Some r \<Longrightarrow> rh r s = Inr s' \<Longrightarrow> I s'"
  shows "I s'"
proof -
  have "w1 = w \<and> th1 = th \<and> rh1 = rh \<and> I s1 \<longrightarrow> (\<forall>s'. y = Inr s' \<longrightarrow> I s')" if "tloop_loop w1 th1 rh1 s1 = Some y" for w1 th1 rh1 s1 y
    using that
  proof (rule tloop_loop.raw_induct [rotated])
    fix loop w1 th1 rh1 s1 y
    assume IH: "\<And>w1 th1 rh1 s1 y. loop w1 th1 rh1 s1 = Some y \<Longrightarrow> w1 = w \<and> th1 = th \<and> rh1 = rh \<and> I s1 \<longrightarrow> (\<forall>s'. y = Inr s' \<longrightarrow> I s')"
      and step: "(if lp_terminate s1 then Some (Inr s1)
      else let (tv, s2) = select_time w1 s1
           in case lp_readers s2 of
                None \<Rightarrow> Some (Inl NullDeref)
              | Some r \<Rightarrow>
                  let rdy = w_select w1 (lp_tick s2) tv; s3 = tick s2
                  in if rdy = SelError then Some (Inr s3)
                     else rseq (Some (rbind (fire_timeout w1 th1 s3) (read_socket rh1 rdy (rs_sock r)))) (loop w1 th1 rh1)) = Some y"
    show "w1 = w \<and> th1 = th \<and> rh1 = rh \<and> I s1 \<longrightarrow> (\<forall>s'. y = Inr s' \<longrightarrow> I s')"
    proof (intro impI allI)
      fix s' assume e0: "w1 = w \<and> th1 = th \<and> rh1 = rh \<and> I s1" and y: "y = Inr s'"
      then have e: "w1 = w" "th1 = th" "rh1 = rh" "I s1" by simp_all
      obtain tv s2 where s2: "select_time w s1 = (tv, s2)" by (metis surj_pair)
      have i3: "I (tick s2)" using s2 e tck by (auto simp: select_time_def gettimeofday_def split: list.splits)
      have fi: "I s4" if "fire_timeout w th (tick s2) = Inr s4" for s4
        by (rule fire_inv [where I = I, OF i3 that]) (erule tck, erule (2) fire)
      have r: "I s5" if "read_socket rh rdy k s4 = Inr s5" "I s4" for rdy k s4 s5
        using that read by (auto simp: read_socket_def split: if_splits option.splits)
      show "I s'"
      proof (cases "lp_terminate s1")
        case True
        then show ?thesis using step e y by simp
      next
        case False
        then obtain q where q: "lp_readers s2 = Some q" using step e s2 y by (auto split: option.splits)
        define rdy where "rdy = w_select w (lp_tick s2) tv"
        have st: "(if rdy = SelError then Some (Inr (tick s2))
            else rseq (Some (rbind (fire_timeout w th (tick s2)) (read_socket rh rdy (rs_sock q)))) (loop w th rh)) = Some y"
          using step False unfolding rdy_def e by (simp add: s2 q Let_def split del: if_split)
        show ?thesis
        proof (cases "rdy = SelError")
          case True
          then show ?thesis using st y i3 by simp
        next
          case False
          then have "rseq (Some (rbind (fire_timeout w th (tick s2)) (read_socket rh rdy (rs_sock q)))) (loop w th rh) = Some (Inr s')" using st y by simp
          then obtain s5 where s5: "rbind (fire_timeout w th (tick s2)) (read_socket rh rdy (rs_sock q)) = Inr s5" "loop w th rh s5 = Some (Inr s')"
            by (cases "rbind (fire_timeout w th (tick s2)) (read_socket rh rdy (rs_sock q))") simp_all
          then obtain s4 where "fire_timeout w th (tick s2) = Inr s4" "read_socket rh rdy (rs_sock q) s4 = Inr s5" unfolding rbind_eq_Inr by blast
          then have "I s5" using fi r by blast
          then show ?thesis using IH [OF s5(2)] by blast
        qed
      qed
    qed
  qed
  then show ?thesis using l i by blast
qed

subsection \<open>The loop returns\<close>

text \<open>
  A client of the loop: all its handlers are polite, and the handler of the deadline ends the loop.
\<close>

locale tloop_client =
  fixes w :: "'w sys_scheme"
    and th :: "'h tloop_timeout \<Rightarrow> ('h, 'r, 'm) tloop_scheme \<Rightarrow> ('h, 'r, 'm) tloop_scheme result"
    and rh :: "'r tloop_sock \<Rightarrow> ('h, 'r, 'm) tloop_scheme \<Rightarrow> ('h, 'r, 'm) tloop_scheme result"
    and D :: "'h tloop_timeout"
  assumes th_polite: "clock_ok w \<Longrightarrow> t \<noteq> D \<Longrightarrow> th t s = Inr s' \<Longrightarrow> polite w D s s'"
    and th_deadline: "clock_ok w \<Longrightarrow> th D s = Inr s' \<Longrightarrow> lp_terminate s' \<and> polite w D s s'"
    and rh_polite: "clock_ok w \<Longrightarrow> rh r s = Inr s' \<Longrightarrow> polite w D s s'"
begin

definition waiting :: "('h, 'r, 'm) tloop_scheme \<Rightarrow> bool" where
  "waiting s \<longleftrightarrow> clock_ok w \<and> in_order (lp_timeout s) \<and> (lp_terminate s \<or> D \<in> set (lp_timeout s))"

lemma fire:
  assumes "in_order (lp_timeout s)" "D \<in> set (lp_timeout s)" "fire_timeout w th s = Inr s'" and ck: "clock_ok w"
  shows "waiting s' \<and> lp_tick s < lp_tick s'
    \<and> (past w D (lp_tick s) \<longrightarrow> lp_terminate s' \<or> rank D (lp_timeout s') < rank D (lp_timeout s))"
proof -
  obtain t ts where ts: "lp_timeout s = t # ts" using assms(2) by (cases "lp_timeout s") auto
  let ?s = "(tick s)\<lparr>lp_timeout := ts\<rparr>"
  show ?thesis
  proof (cases "tv_less (w_clock w (lp_tick s)) (to_time t)")
    case True
    have "\<not> tv_less (to_time D) (to_time t)" using assms(1,2) by (auto simp: ts)
    from tv_less_trans [OF True this] have "\<not> past w D (lp_tick s)" by (auto simp: past_def)
    then show ?thesis using True assms ck by (auto simp: fire_timeout_def gettimeofday_def ts waiting_def)
  next
    case False
    then have f: "th t ?s = Inr s'" using assms(3) by (simp add: fire_timeout_def gettimeofday_def ts)
    have p: "polite w D ?s s'" by (cases "t = D") (use f th_polite [OF ck] th_deadline [OF ck] in auto)
    moreover have "t = D \<longrightarrow> lp_terminate s'" using f th_deadline [OF ck] by auto
    moreover have "in_order ts" "t \<noteq> D \<longrightarrow> D \<in> set ts" using assms(1,2) by (auto simp: ts)
    ultimately show ?thesis using ck past_later [of w D "lp_tick s" "Suc (lp_tick s)"]
      by (auto simp: polite_def waiting_def ts less_Suc_eq_le Suc_le_eq)
  qed
qed

lemma read:
  assumes "waiting s" "read_socket rh rdy k s = Inr s'"
  shows "waiting s' \<and> lp_tick s \<le> lp_tick s' \<and> (lp_terminate s \<longrightarrow> lp_terminate s')
    \<and> (past w D (lp_tick s) \<longrightarrow> lp_terminate s' \<or> rank D (lp_timeout s') \<le> rank D (lp_timeout s))"
proof -
  have "polite w D s s'" using assms rh_polite by (auto simp: waiting_def read_socket_def split: if_splits option.splits)
  then show ?thesis using assms(1) by (auto simp: polite_def waiting_def)
qed

lemma handled:
  assumes "in_order (lp_timeout s)" "D \<in> set (lp_timeout s)" "rbind (fire_timeout w th s) (read_socket rh rdy k) = Inr s'" and ck: "clock_ok w"
  shows "waiting s' \<and> lp_tick s < lp_tick s'
    \<and> (past w D (lp_tick s) \<longrightarrow> lp_terminate s' \<or> rank D (lp_timeout s') < rank D (lp_timeout s))"
proof -
  from assms(3) obtain s1 where s1: "fire_timeout w th s = Inr s1" "read_socket rh rdy k s1 = Inr s'" by auto
  note f = fire [OF assms(1,2) s1(1) ck]
  note r = read [OF conjunct1 [OF f] s1(2)]
  have "past w D (lp_tick s) \<longrightarrow> past w D (lp_tick s1)" using past_later [of w D "lp_tick s" "lp_tick s1"] f by simp
  with f r show ?thesis by fastforce
qed

text \<open>One turn of the loop.\<close>

lemma turn:
  assumes "waiting s" "\<not> lp_terminate s"
  obtains r where "tloop_loop w th rh s = Some r" "\<And>s'. r = Inr s' \<Longrightarrow> \<exists>k tv. w_select w k tv = SelError"
  | s' where "tloop_loop w th rh s = tloop_loop w th rh s'" "waiting s'" "lp_tick s < lp_tick s'"
      "past w D (lp_tick s) \<Longrightarrow> lp_terminate s' \<or> rank D (lp_timeout s') < rank D (lp_timeout s)"
proof -
  have o1: "in_order (lp_timeout s)" "D \<in> set (lp_timeout s)" "clock_ok w" using assms by (auto simp: waiting_def)
  obtain tv where wt: "select_time w s = (tv, tick s)" using o1(2) by (cases "lp_timeout s") (auto simp: select_time_def gettimeofday_def)
  show thesis
  proof (cases "lp_readers s")
    case None
    then have "tloop_loop w th rh s = Some (Inl NullDeref)" using assms(2) by (subst tloop_loop.simps) (simp add: wt)
    then show thesis using that(1) by blast
  next
    case (Some r)
    let ?rdy = "w_select w (Suc (lp_tick s)) tv" and ?s = "tick (tick s)"
    show thesis
    proof (cases "?rdy = SelError")
      case True
      then have "tloop_loop w th rh s = Some (Inr ?s)" using Some assms(2) by (subst tloop_loop.simps) (simp add: wt)
      then show thesis using that(1) True by blast
    next
      case False
      have l: "tloop_loop w th rh s = rseq (Some (rbind (fire_timeout w th ?s) (read_socket rh ?rdy (rs_sock r)))) (tloop_loop w th rh)"
        using Some False assms(2) by (subst tloop_loop.simps) (simp add: wt)
      show thesis
      proof (cases "rbind (fire_timeout w th ?s) (read_socket rh ?rdy (rs_sock r))")
        case (Inl e)
        then show thesis using that(1) l by simp
      next
        case (Inr s')
        have "past w D (lp_tick s) \<Longrightarrow> past w D (lp_tick ?s)" by (erule past_later) simp
        moreover have "tloop_loop w th rh s = tloop_loop w th rh s'" unfolding l Inr by simp
        ultimately show thesis using handled [OF _ _ Inr o1(3)] o1 that(2) [of s'] by simp
      qed
    qed
  qed
qed

lemma returns_past:
  assumes "past w D (lp_tick s)" "waiting s" "\<forall>k tv. w_select w k tv \<noteq> SelError"
  shows "\<exists>r. tloop_loop w th rh s = Some r \<and> (\<forall>s'. r = Inr s' \<longrightarrow> lp_terminate s')"
  using assms
proof (induction "rank D (lp_timeout s)" arbitrary: s rule: less_induct)
  case less
  have over: "\<exists>r. tloop_loop w th rh s = Some r \<and> (\<forall>s'. r = Inr s' \<longrightarrow> lp_terminate s')" if "lp_terminate s" for s
    using that by (subst tloop_loop.simps) simp
  show ?case
  proof (cases "lp_terminate s")
    case False
    from less.prems(2) False show ?thesis
    proof (cases rule: turn)
      case (1 r)
      then show ?thesis using less.prems(3) by (cases r) blast+
    next
      case (2 s')
      then have "lp_terminate s' \<or> rank D (lp_timeout s') < rank D (lp_timeout s)" "past w D (lp_tick s')"
        using less.prems(1) past_later [OF less.prems(1), of "lp_tick s'"] by auto
      then show ?thesis using less.hyps [of s'] over [of s'] 2(1,2) less.prems(3) by auto
    qed
  qed (rule over)
qed

lemma returns:
  assumes "\<exists>K. past w D K" "waiting s" "\<forall>k tv. w_select w k tv \<noteq> SelError"
  shows "\<exists>r. tloop_loop w th rh s = Some r \<and> (\<forall>s'. r = Inr s' \<longrightarrow> lp_terminate s')"
proof -
  obtain K where K: "past w D K" using assms(1) by blast
  show ?thesis using assms(2)
  proof (induction "K - lp_tick s" arbitrary: s rule: less_induct)
    case less
    show ?case
    proof (cases "lp_terminate s \<or> K \<le> lp_tick s")
      case True
      then show ?thesis using returns_past [of s] past_later [OF K] less.prems assms(3) by (cases "lp_terminate s") (auto simp: tloop_loop.simps [of w th rh s])
    next
      case False
      then have "\<not> lp_terminate s" by simp
      from less.prems this show ?thesis
      proof (cases rule: turn)
        case (1 r)
        then show ?thesis using assms(3) by (cases r) blast+
      next
        case (2 s')
        then show ?thesis using less.hyps [of s'] False by auto
      qed
    qed
  qed
qed

end

end
