(* ===== verification/Tgen_RadClient.thy ===== *)
theory Tgen_RadClient
  imports Tgen_Tloop Tgen_RadKeys Tgen_User Tgen_Stat
begin

section \<open>The RADIUS client of an authentication (tsupplicant.c, radius_client)\<close>

text \<open>
  The list of requests that wait for an answer, their retransmission, the servers and the change between
  them, identifiers, sending and receiving. The state is \<^verbatim>\<open>struct eapol_test_data\<close> with the event loop and the
  client it points to. The list holds each entry with its address; an entry is freed when it leaves the
  list, so an access through a pointer that is not in the list is a use after free. The addresses of new
  entries are fresh numbers. \<^verbatim>\<open>CONFIG_IPV6\<close> is not defined. The statistics and the user are those of \<^verbatim>\<open>Tgen_Stat\<close> and
  \<^verbatim>\<open>Tgen_User\<close>; \<^verbatim>\<open>tStatRegulation\<close>, which only delays, and log messages are left out. Every datagram that is passed to \<^verbatim>\<open>send\<close> is
  recorded.
\<close>

subsection \<open>State\<close>

datatype RadiusType = RADIUS_AUTH | RADIUS_ACCT | RADIUS_ACCT_INTERIM

datatype RadiusRxResult = RADIUS_RX_PROCESSED | RADIUS_RX_QUEUED | RADIUS_RX_UNKNOWN | RADIUS_RX_INVALID_AUTHENTICATOR

datatype timer_handler = Radius_client_timer | Radius_retry_primary_timer | Eapol_test_timeout | Eapol_sm_reauth

record radius_msg_list =
  ml_addr :: "byte list"
  ml_msg :: radius_msg
  ml_type :: RadiusType
  ml_first_try :: int
  ml_next_try :: int
  ml_attempts :: int
  ml_next_wait :: int
  ml_last_attempt :: timeval
  ml_secret :: "byte list"

record radius_server =
  srv_inet :: bool
  srv_secret :: "byte list"
  srv_round_trip_time :: int
  srv_requests :: u32
  srv_retransmissions :: u32
  srv_access_accepts :: u32
  srv_access_rejects :: u32
  srv_access_challenges :: u32
  srv_responses :: u32
  srv_malformed_responses :: u32
  srv_bad_authenticators :: u32
  srv_timeouts :: u32
  srv_unknown_types :: u32

record radius_servers =
  auth_servers :: "radius_server list"
  auth_server :: "nat option"
  acct_servers :: "radius_server list"
  acct_server :: "nat option"
  retry_primary_interval :: int

record rad_conf =
  tcRadiusTimeout :: int
  tcRadiusRetries :: int
  tcRadiusFastReauth :: int
  tcRadiusNbNas :: int

text \<open>
  The EAPOL state machine is called back by what it is told; its answer to each call, the calls of its
  call-backs in their order, is given by the system, as are its key, the identifier that the thread finds in the
  shared counter, random numbers and the results of the library calls.
\<close>

datatype sm_event = Sm_notify_config | Sm_portValid bool | Sm_portEnabled bool | Sm_rx_eapol "byte list"

datatype sm_action = Eapol_send int "byte list" | Eapol_cb bool

record rad_sys = sys +
  w_msg :: "nat \<Rightarrow> mem \<times> int option \<times> bool"
  w_junk :: "nat \<Rightarrow> byte list"
  w_sm :: "nat \<Rightarrow> sm_event \<Rightarrow> sm_action list"
  w_key :: "nat \<Rightarrow> nat \<Rightarrow> byte list option"
  w_ident :: "nat \<Rightarrow> byte"
  w_rand :: "nat \<Rightarrow> int"
  w_noise :: "nat \<Rightarrow> byte list \<times> byte list \<times> byte list"

record rad = "(timer_handler, RadiusType) tloop" +
  rc_conf :: radius_servers
  rc_msgs :: "(nat \<times> radius_msg_list) list"
  rc_num_msgs :: "64 word"
  rc_fresh :: nat
  rc_auth_serv_sock :: int
  rc_acct_serv_sock :: int
  rc_auth_sock :: int
  rc_acct_sock :: int
  rc_next_id :: byte
  rc_sent :: "byte list list"
  e_key :: nat
  e_socket :: int
  e_user :: tUser
  e_tab :: "nat \<Rightarrow> tThreadConf"
  e_stat :: tstat
  e_auth_timed_out :: bool
  e_statType :: request
  e_statRetries :: int
  e_num_reauths :: int
  e_last_recv :: "radius_msg option"
  e_last_eap :: "byte list option"
  e_pmk :: "byte list"
  e_pmk_len :: nat
  e_num_mppe_ok :: int
  e_num_mppe_mismatch :: int
  e_accept :: bool
  e_reject :: bool
  e_no_avp :: bool
  e_identity :: "byte list option"
  e_radius_identifier :: byte

definition RADIUS_CLIENT_MAX_ENTRIES :: "64 word" where "RADIUS_CLIENT_MAX_ENTRIES = 30"
definition RADIUS_CLIENT_NUM_FAILOVER :: int where "RADIUS_CLIENT_NUM_FAILOVER = 4"

text \<open>The context pointers of the handlers: the client and the null pointer.\<close>

definition ctx_radius :: int where "ctx_radius = 2"
definition ctx_null :: int where "ctx_null = 0"

definition is_acct :: "RadiusType \<Rightarrow> bool" where
  "is_acct t \<longleftrightarrow> t = RADIUS_ACCT \<or> t = RADIUS_ACCT_INTERIM"

subsection \<open>The list of pending requests and the servers\<close>

definition entry_at :: "nat \<Rightarrow> rad \<Rightarrow> radius_msg_list result" where
  "entry_at a s = (case map_of (rc_msgs s) a of None \<Rightarrow> Inl UseAfterFree | Some x \<Rightarrow> Inr x)"

definition upd_entry :: "nat \<Rightarrow> (radius_msg_list \<Rightarrow> radius_msg_list) \<Rightarrow> rad \<Rightarrow> rad result" where
  "upd_entry a f s =
     rbind (entry_at a s) (\<lambda>_. Inr (s\<lparr>rc_msgs := map (\<lambda>(b, x). (b, if b = a then f x else x)) (rc_msgs s)\<rparr>))"

definition unlink_entry :: "nat \<Rightarrow> rad \<Rightarrow> rad" where
  "unlink_entry a s = s\<lparr>rc_msgs := filter (\<lambda>p. fst p \<noteq> a) (rc_msgs s)\<rparr>"

definition server_of :: "bool \<Rightarrow> rad \<Rightarrow> (nat \<times> radius_server) result" where
  "server_of au s =
     (case (if au then auth_server (rc_conf s) else acct_server (rc_conf s)) of
        None \<Rightarrow> Inl NullDeref
      | Some i \<Rightarrow> let l = (if au then auth_servers (rc_conf s) else acct_servers (rc_conf s))
                 in guard (i < length l) OutOfBounds (Inr (i, l ! i)))"

definition upd_server_at :: "bool \<Rightarrow> nat \<Rightarrow> (radius_server \<Rightarrow> radius_server) \<Rightarrow> rad \<Rightarrow> rad" where
  "upd_server_at au i f s =
     (let c = rc_conf s
      in s\<lparr>rc_conf := if au then c\<lparr>auth_servers := (auth_servers c)[i := f (auth_servers c ! i)]\<rparr>
                     else c\<lparr>acct_servers := (acct_servers c)[i := f (acct_servers c ! i)]\<rparr>\<rparr>)"

definition upd_server :: "bool \<Rightarrow> (radius_server \<Rightarrow> radius_server) \<Rightarrow> rad \<Rightarrow> rad result" where
  "upd_server au f s = rbind (server_of au s) (\<lambda>(i, _). Inr (upd_server_at au i f s))"

text \<open>\<^verbatim>\<open>time(&now)\<close>\<close>

definition unix_time :: "rad_sys \<Rightarrow> rad \<Rightarrow> int \<times> rad" where
  "unix_time w s = (fst (w_clock w (lp_tick s)), tick s)"

definition client_timer_in :: "rad_sys \<Rightarrow> int \<Rightarrow> rad \<Rightarrow> rad" where
  "client_timer_in w secs s = snd (tloop_register_timeout w secs 0 Radius_client_timer ctx_radius ctx_null s)"

definition cancel_client_timer :: "rad \<Rightarrow> rad" where
  "cancel_client_timer s = snd (tloop_cancel_timeout Radius_client_timer ctx_radius ctx_null s)"

definition radius_client_flush :: "rad \<Rightarrow> rad" where
  "radius_client_flush s = (cancel_client_timer s)\<lparr>rc_msgs := [], rc_num_msgs := 0\<rparr>"

subsection \<open>Servers and sockets\<close>

definition reset_entry :: "rad_conf \<Rightarrow> radius_msg_list \<Rightarrow> radius_msg_list" where
  "reset_entry cf x = x\<lparr>ml_next_try := ml_first_try x + tcRadiusTimeout cf, ml_attempts := 0, ml_next_wait := tcRadiusTimeout cf\<rparr>"

definition radius_change_server :: "rad_conf \<Rightarrow> rad_sys \<Rightarrow> radius_server \<Rightarrow> radius_server option \<Rightarrow> int \<Rightarrow> bool \<Rightarrow> rad \<Rightarrow> int \<times> rad" where
  "radius_change_server cf w nserv oserv sock au s =
     (let s1 = (case oserv of
            Some old \<Rightarrow>
              if srv_secret nserv = srv_secret old
              then let s2 = s\<lparr>rc_msgs := map (\<lambda>(a, x). (a, reset_entry cf x)) (rc_msgs s)\<rparr>
                   in if rc_msgs s2 = [] then s2 else client_timer_in w (tcRadiusTimeout cf) (cancel_client_timer s2)
              else radius_client_flush s
          | None \<Rightarrow> radius_client_flush s)
      in if \<not> srv_inet nserv then (-1, s1)
         else if \<not> w_connect w (lp_tick s1) then (-1, tick s1)
         else (0, if au then (tick s1)\<lparr>rc_auth_sock := sock\<rparr> else (tick s1)\<lparr>rc_acct_sock := sock\<rparr>))"

definition radius_client_init_auth :: "rad_conf \<Rightarrow> rad_sys \<Rightarrow> rad \<Rightarrow> (int \<times> rad) result" where
  "radius_client_init_auth cf w s =
     (let s1 = s\<lparr>rc_auth_serv_sock := e_socket s\<rparr>
      in rbind (server_of True s1) (\<lambda>(_, srv).
           let s2 = snd (radius_change_server cf w srv None (rc_auth_serv_sock s1) True s1)
           in if 0 \<le> rc_auth_serv_sock s2
              then let (r, s3) = tloop_register_read_sock w (rc_auth_serv_sock s2) RADIUS_AUTH ctx_radius ctx_null s2
                   in Inr (if r \<noteq> 0 then -1 else 0, s3)
              else Inr (0, s2)))"

definition radius_client_init_acct :: "rad_conf \<Rightarrow> rad_sys \<Rightarrow> rad \<Rightarrow> (int \<times> rad) result" where
  "radius_client_init_acct cf w s =
     (let s1 = (tick s)\<lparr>rc_acct_serv_sock := w_socket w (lp_tick s)\<rparr>
      in rbind (server_of False s1) (\<lambda>(_, srv).
           let s2 = snd (radius_change_server cf w srv None (rc_acct_serv_sock s1) False s1)
           in if 0 \<le> rc_acct_serv_sock s2
              then let (r, s3) = tloop_register_read_sock w (rc_acct_serv_sock s2) RADIUS_ACCT ctx_radius ctx_null s2
                   in Inr (if r \<noteq> 0 then -1 else 0, s3)
              else Inr (0, s2)))"

definition radius_client_handle_send_error :: "rad_conf \<Rightarrow> rad_sys \<Rightarrow> int \<Rightarrow> RadiusType \<Rightarrow> send_result \<Rightarrow> rad \<Rightarrow> rad result" where
  "radius_client_handle_send_error cf w sock type err s =
     (if err = SendNotConn
      then let s1 = tloop_unregister_read_sock sock s
           in rbind (if is_acct type then radius_client_init_acct cf w s1 else radius_client_init_auth cf w s1) (\<lambda>(_, s2). Inr s2)
      else Inr s)"

text \<open>\<^verbatim>\<open>send\<close> and, when it fails, the treatment of the error.\<close>

definition send_msg :: "rad_conf \<Rightarrow> rad_sys \<Rightarrow> int \<Rightarrow> RadiusType \<Rightarrow> radius_msg \<Rightarrow> rad \<Rightarrow> (bool \<times> rad) result" where
  "send_msg cf w sock type m s =
     (let s1 = (tick s)\<lparr>rc_sent := rc_sent s @ [take (rm_used m) (rm_buf m)]\<rparr>; r = w_send w (lp_tick s)
      in if r = Sent then Inr (True, s1)
         else rbind (radius_client_handle_send_error cf w sock type r s1) (\<lambda>s2. Inr (False, s2)))"

subsection \<open>Retransmission\<close>

definition stat_end :: "rad_sys \<Rightarrow> nat \<Rightarrow> rad \<Rightarrow> rad" where
  "stat_end w idx s = (let (now, s1) = gettimeofday w s in s1\<lparr>e_tab := tStatTimeEnd now (e_key s) idx (e_tab s)\<rparr>)"

definition stat_begin :: "rad_sys \<Rightarrow> nat \<Rightarrow> rad \<Rightarrow> rad" where
  "stat_begin w idx s = (let (now, s1) = gettimeofday w s in s1\<lparr>e_tab := tStatTimeBegin now (e_key s) idx (e_tab s)\<rparr>)"

definition stat_count :: "rad \<Rightarrow> rad" where
  "stat_count s = s\<lparr>e_stat := tStatCount (e_stat s)\<rparr>"

definition stat_action :: "bool \<Rightarrow> rad \<Rightarrow> rad result" where
  "stat_action ko s =
     rbind (tStatActionTime (e_statType s) ko (e_statRetries s) 0 (tStatTimeDelta (e_key s) 0 (e_tab s)) (e_stat s)) (\<lambda>st.
       Inr (s\<lparr>e_stat := st\<rparr>))"

definition count_attempt :: "radius_msg_list \<Rightarrow> radius_server \<Rightarrow> radius_server" where
  "count_attempt x srv =
     (if ml_attempts x = 0 then srv\<lparr>srv_requests := srv_requests srv + 1\<rparr>
      else srv\<lparr>srv_timeouts := srv_timeouts srv + 1, srv_retransmissions := srv_retransmissions srv + 1\<rparr>)"

text \<open>Counting and sending one more attempt, with the time of the next; then the test for too many attempts.\<close>

definition resend :: "rad_conf \<Rightarrow> rad_sys \<Rightarrow> nat \<Rightarrow> int \<Rightarrow> rad \<Rightarrow> rad result" where
  "resend cf w a now s =
     rbind (entry_at a s) (\<lambda>x.
     rbind (upd_server (\<not> is_acct (ml_type x)) (count_attempt x) s) (\<lambda>s1.
     rbind (upd_entry a (\<lambda>x. x\<lparr>ml_attempts := ml_attempts x + 1, ml_last_attempt := w_clock w (lp_tick s1)\<rparr>) (tick s1)) (\<lambda>s2.
     rbind (send_msg cf w (if is_acct (ml_type x) then rc_acct_sock s else rc_auth_sock s) (ml_type x) (ml_msg x) s2) (\<lambda>(_, s3).
     rbind (upd_entry a (\<lambda>x. x\<lparr>ml_next_try := now + ml_next_wait x, ml_next_wait := tcRadiusTimeout cf\<rparr>) s3) (\<lambda>s4.
       Inr (s4\<lparr>e_statRetries := e_statRetries s4 + 1\<rparr>))))))"

definition give_up :: "rad_sys \<Rightarrow> rad \<Rightarrow> rad result" where
  "give_up w s =
     rbind (stat_action True (stat_count (stat_end w 0 s))) (\<lambda>s1. Inr (tloop_terminate (s1\<lparr>e_auth_timed_out := True\<rparr>)))"

definition radius_client_retransmit :: "rad_conf \<Rightarrow> rad_sys \<Rightarrow> nat \<Rightarrow> int \<Rightarrow> rad \<Rightarrow> (bool \<times> rad) result" where
  "radius_client_retransmit cf w a now s =
     rbind (resend cf w a now s) (\<lambda>s1.
     rbind (entry_at a s1) (\<lambda>y.
       if tcRadiusRetries cf < ml_attempts y then rbind (give_up w s1) (\<lambda>s2. Inr (True, s2)) else Inr (False, s1)))"

text \<open>
  The loop of \<^verbatim>\<open>radius_client_timer\<close> over the entries. Retransmission does not change the links of the list,
  unless it frees all entries, and then the next access is a fault; so the loop visits the addresses
  that the list has at its beginning. The results are the first time at which an entry is due and
  whether an entry has failed too often, for authentication and for accounting.
\<close>

fun timer_loop :: "rad_conf \<Rightarrow> rad_sys \<Rightarrow> int \<Rightarrow> nat list \<Rightarrow> int \<Rightarrow> bool \<Rightarrow> bool \<Rightarrow> rad \<Rightarrow> (int \<times> bool \<times> bool \<times> rad) result" where
  "timer_loop cf w now [] frst fo_auth fo_acct s = Inr (frst, fo_auth, fo_acct, s)"
| "timer_loop cf w now (a # as) frst fo_auth fo_acct s =
     rbind (entry_at a s) (\<lambda>x.
     rbind (if ml_next_try x \<le> now then radius_client_retransmit cf w a now s else Inr (False, s)) (\<lambda>(rm, s1).
       if rm then timer_loop cf w now as frst fo_auth fo_acct ((unlink_entry a s1)\<lparr>rc_num_msgs := rc_num_msgs s1 - 1\<rparr>)
       else rbind (entry_at a s1) (\<lambda>y.
         let failed = (RADIUS_CLIENT_NUM_FAILOVER < ml_attempts y)
         in timer_loop cf w now as (if frst = 0 \<or> ml_next_try y < frst then ml_next_try y else frst)
              (fo_auth \<or> failed \<and> \<not> is_acct (ml_type y)) (fo_acct \<or> failed \<and> is_acct (ml_type y)) s1)))"

definition next_server :: "nat \<Rightarrow> nat \<Rightarrow> nat" where
  "next_server num i = (if num - 1 < i + 1 then 0 else i + 1)"

definition failover :: "rad_conf \<Rightarrow> rad_sys \<Rightarrow> bool \<Rightarrow> rad \<Rightarrow> rad result" where
  "failover cf w au s =
     rbind (server_of au s) (\<lambda>(i, _).
       let n = length (filter (\<lambda>(_, x). if au then ml_type x = RADIUS_AUTH else is_acct (ml_type x)) (rc_msgs s));
           s1 = upd_server_at au i (\<lambda>srv. srv\<lparr>srv_timeouts := srv_timeouts srv + of_nat n\<rparr>) s;
           servers = (if au then auth_servers (rc_conf s1) else acct_servers (rc_conf s1));
           j = next_server (length servers) i;
           s2 = s1\<lparr>rc_conf := if au then (rc_conf s1)\<lparr>auth_server := Some j\<rparr> else (rc_conf s1)\<lparr>acct_server := Some j\<rparr>\<rparr>
       in Inr (snd (radius_change_server cf w (servers ! j) (Some (servers ! i))
                     (if au then rc_auth_serv_sock s2 else rc_acct_serv_sock s2) au s2)))"

definition radius_client_timer :: "rad_conf \<Rightarrow> rad_sys \<Rightarrow> rad \<Rightarrow> rad result" where
  "radius_client_timer cf w s =
     (if rc_msgs s = [] then Inr s
      else let (now, s0) = unix_time w s
           in rbind (timer_loop cf w now (map fst (rc_msgs s0)) 0 False False s0) (\<lambda>(frst, fo_auth, fo_acct, s1).
              let s2 = (if rc_msgs s1 = [] then s1 else client_timer_in w ((if frst < now then now else frst) - now) s1)
              in rbind (if fo_auth \<and> 1 < length (auth_servers (rc_conf s2)) then failover cf w True s2 else Inr s2) (\<lambda>s3.
                 if fo_acct \<and> 1 < length (acct_servers (rc_conf s3)) then failover cf w False s3 else Inr s3)))"

definition retry_primary :: "rad_conf \<Rightarrow> rad_sys \<Rightarrow> bool \<Rightarrow> rad \<Rightarrow> rad result" where
  "retry_primary cf w au s =
     (let c = rc_conf s; servers = (if au then auth_servers c else acct_servers c); cur = (if au then auth_server c else acct_server c)
      in if 0 \<le> (if au then rc_auth_sock s else rc_acct_sock s) \<and> servers \<noteq> [] \<and> cur \<noteq> Some 0
         then let s1 = s\<lparr>rc_conf := if au then c\<lparr>auth_server := Some 0\<rparr> else c\<lparr>acct_server := Some 0\<rparr>\<rparr>
              in Inr (snd (radius_change_server cf w (servers ! 0) (map_option ((!) servers) cur)
                            (if au then rc_auth_serv_sock s1 else rc_acct_serv_sock s1) au s1))
         else Inr s)"

definition radius_retry_primary_timer :: "rad_conf \<Rightarrow> rad_sys \<Rightarrow> rad \<Rightarrow> rad result" where
  "radius_retry_primary_timer cf w s =
     rbind (retry_primary cf w True s) (\<lambda>s1. rbind (retry_primary cf w False s1) (\<lambda>s2.
       let n = retry_primary_interval (rc_conf s2)
       in Inr (if n \<noteq> 0 then snd (tloop_register_timeout w n 0 Radius_retry_primary_timer ctx_radius ctx_null s2) else s2)))"

subsection \<open>Adding and removing entries\<close>

definition first_try :: "(nat \<times> radius_msg_list) list \<Rightarrow> int" where
  "first_try xs = foldl (\<lambda>f (_, x). if f = 0 \<or> ml_next_try x < f then ml_next_try x else f) 0 xs"

definition radius_client_update_timeout :: "rad_sys \<Rightarrow> rad \<Rightarrow> rad" where
  "radius_client_update_timeout w s =
     (let s1 = cancel_client_timer s
      in if rc_msgs s1 = [] then s1
         else let frst = first_try (rc_msgs s1); (now, s2) = unix_time w s1
              in client_timer_in w ((if frst < now then now else frst) - now) s2)"

definition new_entry :: "rad_conf \<Rightarrow> radius_msg \<Rightarrow> RadiusType \<Rightarrow> byte list \<Rightarrow> byte list option \<Rightarrow> int \<Rightarrow> timeval \<Rightarrow> radius_msg_list" where
  "new_entry cf m type secret addr now tv =
     \<lparr>ml_addr = (case addr of None \<Rightarrow> replicate 6 0 | Some a \<Rightarrow> take 6 a), ml_msg = m, ml_type = type, ml_first_try = now,
      ml_next_try = now + tcRadiusTimeout cf, ml_attempts = 1, ml_next_wait = tcRadiusTimeout cf, ml_last_attempt = tv, ml_secret = secret\<rparr>"

definition radius_client_list_add :: "rad_conf \<Rightarrow> rad_sys \<Rightarrow> radius_msg \<Rightarrow> RadiusType \<Rightarrow> byte list \<Rightarrow> byte list option \<Rightarrow> rad \<Rightarrow> rad" where
  "radius_client_list_add cf w m type secret addr s =
     (if tloop_terminated s then s
      else let (ok, s1) = malloc w s
           in if \<not> ok then s1
              else let (now, s2) = unix_time w s1; (tv, s3) = gettimeofday w s2;
                       s4 = s3\<lparr>rc_msgs := (rc_fresh s3, new_entry cf m type secret addr now tv) # rc_msgs s3, rc_fresh := Suc (rc_fresh s3)\<rparr>;
                       s5 = radius_client_update_timeout w s4
                   in if RADIUS_CLIENT_MAX_ENTRIES \<le> rc_num_msgs s5
                      then if 1 < length (rc_msgs s5) then s5\<lparr>rc_msgs := butlast (rc_msgs s5)\<rparr> else s5
                      else s5\<lparr>rc_num_msgs := rc_num_msgs s5 + 1\<rparr>)"

text \<open>Removing all entries of a type for an address; each removal decrements the counter.\<close>

definition drop_entries :: "(radius_msg_list \<Rightarrow> bool) \<Rightarrow> rad \<Rightarrow> rad" where
  "drop_entries P s =
     s\<lparr>rc_msgs := filter (\<lambda>(_, x). \<not> P x) (rc_msgs s), rc_num_msgs := rc_num_msgs s - of_nat (length (filter (\<lambda>(_, x). P x) (rc_msgs s)))\<rparr>"

definition radius_client_list_del :: "RadiusType \<Rightarrow> byte list option \<Rightarrow> rad \<Rightarrow> rad" where
  "radius_client_list_del type addr s =
     (case addr of None \<Rightarrow> s | Some a \<Rightarrow> drop_entries (\<lambda>x. ml_type x = type \<and> ml_addr x = take 6 a) s)"

definition radius_client_flush_auth :: "byte list \<Rightarrow> rad \<Rightarrow> rad" where
  "radius_client_flush_auth addr s = drop_entries (\<lambda>x. ml_type x = RADIUS_AUTH \<and> ml_addr x = take 6 addr) s"

text \<open>The result of \<^verbatim>\<open>radius_msg_finish\<close> is ignored; the message that it could not sign is sent as it is.\<close>

definition radius_client_send :: "rad_conf \<Rightarrow> rad_sys \<Rightarrow> radius_msg \<Rightarrow> RadiusType \<Rightarrow> byte list option \<Rightarrow> rad \<Rightarrow> (bool \<times> rad) result" where
  "radius_client_send cf w m type addr s =
     (let s0 = (if type = RADIUS_ACCT_INTERIM then radius_client_list_del type addr s else s)
      in rbind (server_of (\<not> is_acct type) s0) (\<lambda>(_, srv).
         rbind (if is_acct type then Inr (radius_msg_finish_acct (w_junk w (lp_tick s0)) (srv_secret srv) m)
                else rbind (radius_msg_finish (fst (w_msg w (lp_tick s0))) (w_junk w (lp_tick s0)) (Some (srv_secret srv)) m) (\<lambda>(_, m1). Inr m1)) (\<lambda>m1.
         rbind (upd_server (\<not> is_acct type) (\<lambda>v. v\<lparr>srv_requests := srv_requests v + 1\<rparr>) (tick s0)) (\<lambda>s1.
         rbind (send_msg cf w (if is_acct type then rc_acct_sock s1 else rc_auth_sock s1) type m1 (stat_begin w 0 s1)) (\<lambda>(ok, s2).
           Inr (ok, radius_client_list_add cf w m1 type (srv_secret srv) addr s2))))))"

subsection \<open>Identifiers\<close>

text \<open>
  \<open>ident\<close> is the start of the next block of identifiers, shared by all threads and protected by a mutex. In
  the loop that removes old requests, \<^verbatim>\<open>prev\<close> is the entry before also when it was just freed.
\<close>

definition take_id :: "byte \<Rightarrow> byte \<Rightarrow> byte \<times> byte \<times> byte" where
  "take_id ident nxt =
     (let (nxt1, ident1) = (if nxt = 0 \<or> nxt mod 6 = 5 then (ident, if ident + 6 = 252 then 0 else ident + 6) else (nxt, ident))
      in (nxt1, nxt1 + 1, ident1))"

fun id_loop :: "byte \<Rightarrow> bool \<Rightarrow> (nat \<times> radius_msg_list) list \<Rightarrow> (nat \<times> radius_msg_list) list result" where
  "id_loop ident prev_freed [] = Inr []"
| "id_loop ident prev_freed ((a, x) # xs) =
     (if hdr_identifier (ml_msg x) = ident
      then if prev_freed then Inl UseAfterFree else id_loop ident True xs
      else rbind (id_loop ident False xs) (\<lambda>ys. Inr ((a, x) # ys)))"

definition radius_client_get_id :: "byte \<Rightarrow> rad \<Rightarrow> (byte \<times> byte \<times> rad) result" where
  "radius_client_get_id ident s =
     (let (i, nxt, ident1) = take_id ident (rc_next_id s)
      in rbind (id_loop i False (rc_msgs s)) (\<lambda>xs. Inr (i, ident1, s\<lparr>rc_next_id := nxt, rc_msgs := xs\<rparr>)))"

subsection \<open>Answers\<close>

type_synonym rx_handler = "radius_msg \<Rightarrow> radius_msg \<Rightarrow> byte list \<Rightarrow> rad \<Rightarrow> (RadiusRxResult \<times> rad) result"

definition to_chars :: "byte list \<Rightarrow> string" where
  "to_chars bs = map (\<lambda>b. char_of (unat b)) bs"

text \<open>
  The attributes of an Access-Accept. The second call for the State attribute asks for the Class
  attribute, with the buffer of the State attribute.
\<close>

definition learn_class :: "radius_msg \<Rightarrow> rad \<Rightarrow> rad result" where
  "learn_class m s =
     rbind (radius_msg_get_attr m RADIUS_ATTR_CLASS None) (\<lambda>(n, _).
       if 0 < n
       then rbind (radius_msg_get_attr m RADIUS_ATTR_CLASS (Some (nat n))) (\<lambda>(n2, d).
            rbind (tUserSetClassAttrib (to_chars d) n2 False (e_user s)) (\<lambda>u. Inr (s\<lparr>e_user := u\<rparr>)))
       else Inr s)"

definition learn_state :: "radius_msg \<Rightarrow> rad \<Rightarrow> rad result" where
  "learn_state m s =
     rbind (radius_msg_get_attr m RADIUS_ATTR_STATE None) (\<lambda>(n, _).
       if 0 < n
       then rbind (radius_msg_get_attr m RADIUS_ATTR_CLASS (Some (nat n))) (\<lambda>(n2, d).
            rbind (tUserSetStateAttrib (to_chars d) n2 False (e_user s)) (\<lambda>u. Inr (s\<lparr>e_user := u\<rparr>)))
       else Inr s)"

definition count_code :: "bool \<Rightarrow> radius_msg \<Rightarrow> rad \<Rightarrow> rad result" where
  "count_code au m s =
     (if hdr_code m = RADIUS_CODE_ACCESS_ACCEPT
      then rbind (upd_server au (\<lambda>v. v\<lparr>srv_access_accepts := srv_access_accepts v + 1\<rparr>) s) (\<lambda>s1.
           rbind (learn_class m s1) (learn_state m))
      else if hdr_code m = RADIUS_CODE_ACCESS_REJECT then upd_server au (\<lambda>v. v\<lparr>srv_access_rejects := srv_access_rejects v + 1\<rparr>) s
      else if hdr_code m = RADIUS_CODE_ACCESS_CHALLENGE then upd_server au (\<lambda>v. v\<lparr>srv_access_challenges := srv_access_challenges v + 1\<rparr>) s
      else if hdr_code m = RADIUS_CODE_ACCOUNTING_RESPONSE then upd_server au (\<lambda>v. v\<lparr>srv_responses := srv_responses v + 1\<rparr>) s
      else Inr s)"

definition answers :: "RadiusType \<Rightarrow> radius_msg \<Rightarrow> nat \<times> radius_msg_list \<Rightarrow> bool" where
  "answers type m = (\<lambda>(_, x). (ml_type x = type \<or> ml_type x = RADIUS_ACCT_INTERIM \<and> type = RADIUS_ACCT)
     \<and> hdr_identifier (ml_msg x) = hdr_identifier m)"

text \<open>The handlers in turn, until one has taken the message; then whether one found a wrong authenticator.\<close>

fun rx_loop :: "rx_handler list \<Rightarrow> radius_msg \<Rightarrow> radius_msg_list \<Rightarrow> bool \<Rightarrow> rad \<Rightarrow> (bool option \<times> rad) result" where
  "rx_loop [] m x bad s = Inr (Some bad, s)"
| "rx_loop (h # hs) m x bad s =
     rbind (h m (ml_msg x) (ml_secret x) s) (\<lambda>(r, s1).
       if r = RADIUS_RX_PROCESSED \<or> r = RADIUS_RX_QUEUED then Inr (None, s1)
       else rx_loop hs m x (bad \<or> r = RADIUS_RX_INVALID_AUTHENTICATOR) s1)"

definition round_trip :: "timeval \<Rightarrow> timeval \<Rightarrow> int" where
  "round_trip tv start = (fst tv - fst start) * 100 + (snd tv - snd start) sdiv 10000"

definition process_answer :: "rad_sys \<Rightarrow> rx_handler list \<Rightarrow> bool \<Rightarrow> radius_msg \<Rightarrow> nat \<Rightarrow> radius_msg_list \<Rightarrow> rad \<Rightarrow> rad result" where
  "process_answer w hs au m a x s =
     (let (tv, s1) = gettimeofday w s
      in rbind (upd_server au (\<lambda>v. v\<lparr>srv_round_trip_time := round_trip tv (ml_last_attempt x)\<rparr>) s1) (\<lambda>s2.
         rbind (stat_action False s2) (\<lambda>s3.
         rbind (rx_loop hs m x False ((unlink_entry a s3)\<lparr>rc_num_msgs := rc_num_msgs s3 - 1\<rparr>)) (\<lambda>(r, s4).
           case r of
             None \<Rightarrow> Inr s4
           | Some bad \<Rightarrow>
               rbind (upd_server au (\<lambda>v. if bad then v\<lparr>srv_bad_authenticators := srv_bad_authenticators v + 1\<rparr>
                                         else v\<lparr>srv_unknown_types := srv_unknown_types v + 1\<rparr>) s4) (stat_action True)))))"

definition radius_client_receive :: "rad_sys \<Rightarrow> rx_handler list \<Rightarrow> rx_handler list \<Rightarrow> RadiusType \<Rightarrow> rad \<Rightarrow> rad result" where
  "radius_client_receive w auth_handlers acct_handlers type s =
     (let s1 = stat_count (stat_end w 0 s); au = (type \<noteq> RADIUS_ACCT); s2 = tick s1
      in case w_recv w (lp_tick s1) of
           None \<Rightarrow> Inr s2
         | Some d \<Rightarrow>
             if 3000 \<le> length d then Inr s2
             else let (al, p, arr) = w_msg w (lp_tick s2); s3 = tick s2
                  in rbind (radius_msg_parse al p arr d) (\<lambda>r. case r of
                         None \<Rightarrow> upd_server au (\<lambda>v. v\<lparr>srv_malformed_responses := srv_malformed_responses v + 1\<rparr>) s3
                       | Some m \<Rightarrow>
                           rbind (count_code au m s3) (\<lambda>s4.
                             case find (answers type m) (rc_msgs s4) of
                               None \<Rightarrow> stat_action True s4
                             | Some (a, x) \<Rightarrow> process_answer w (if au then auth_handlers else acct_handlers) au m a x s4)))"

subsection \<open>Initialisation\<close>

definition radius_client_deinit :: "rad \<Rightarrow> rad" where
  "radius_client_deinit s = radius_client_flush (snd (tloop_cancel_timeout Radius_retry_primary_timer ctx_radius ctx_null s))"

text \<open>The accounting socket and the timer for the primary server, the second half of the initialisation.\<close>

definition init_acct_timer :: "rad_conf \<Rightarrow> rad_sys \<Rightarrow> rad \<Rightarrow> (bool \<times> rad) result" where
  "init_acct_timer cf w s =
     rbind (if acct_server (rc_conf s) \<noteq> None then radius_client_init_acct cf w s else Inr (0, s)) (\<lambda>(q, s1).
       if q \<noteq> 0 then Inr (False, radius_client_deinit s1)
       else let n = retry_primary_interval (rc_conf s1)
            in Inr (True, if n \<noteq> 0 then snd (tloop_register_timeout w n 0 Radius_retry_primary_timer ctx_radius ctx_null s1) else s1))"

definition radius_client_init :: "rad_conf \<Rightarrow> rad_sys \<Rightarrow> rad \<Rightarrow> (bool \<times> rad) result" where
  "radius_client_init cf w s =
     (let (ok, s0) = malloc w s
      in if \<not> ok then Inr (False, s0)
         else let s1 = s0\<lparr>rc_msgs := [], rc_num_msgs := 0, rc_next_id := 0, rc_auth_serv_sock := -1, rc_acct_serv_sock := -1,
                          rc_auth_sock := -1, rc_acct_sock := -1\<rparr>
              in rbind (if auth_server (rc_conf s1) \<noteq> None then radius_client_init_auth cf w s1 else Inr (0, s1)) (\<lambda>(r, s2).
                 if r \<noteq> 0 then Inr (False, radius_client_deinit s2) else init_acct_timer cf w s2))"

end
