(* ===== verification/Tgen_RadPending.thy ===== *)
theory Tgen_RadPending
  imports Tgen_RadClient
begin

section \<open>Pending RADIUS requests\<close>

text \<open>
  What the client of \<^verbatim>\<open>Tgen_RadClient\<close> guarantees. A relation between the states before and after an operation that
  is transitive and holds for each elementary change holds for every operation of the client (locale
  \<open>client_rel\<close>). Two relations are of this kind: being polite to the deadline of the event loop, and
  keeping the list of pending requests well-formed.
\<close>

subsection \<open>Relations kept by every operation\<close>

definition quiet :: "rad \<Rightarrow> rad \<Rightarrow> bool" where
  "quiet s s' \<longleftrightarrow> lp_tick s \<le> lp_tick s' \<and> lp_timeout s' = lp_timeout s \<and> (lp_terminate s \<longrightarrow> lp_terminate s')
     \<and> map fst (rc_msgs s') = map fst (rc_msgs s) \<and> rc_num_msgs s' = rc_num_msgs s \<and> rc_fresh s' = rc_fresh s
     \<and> e_accept s' = e_accept s"

lemma give_up_msgs: "give_up w s = Inr s' \<Longrightarrow> rc_msgs s' = rc_msgs s \<and> lp_terminate s' \<and> e_auth_timed_out s' \<and> rc_sent s' = rc_sent s"
  by (auto simp: give_up_def stat_action_def stat_count_def stat_end_def gettimeofday_def tloop_terminate_def tick_def)

lemma retransmit_entry: "radius_client_retransmit cf w a now s = Inr (rm, s') \<Longrightarrow> \<exists>y. entry_at a s' = Inr y"
  unfolding radius_client_retransmit_def using give_up_msgs by (auto simp: entry_at_def split: if_splits)

lemma timer_loop_step:
  assumes "timer_loop cf w now (a # as) f fa fc s = Inr r"
  obtains x rm s1 where "entry_at a s = Inr x" "(if ml_next_try x \<le> now then radius_client_retransmit cf w a now s else Inr (False, s)) = Inr (rm, s1)"
    "\<exists>y. entry_at a s1 = Inr y" "rm \<longrightarrow> timer_loop cf w now as f fa fc ((unlink_entry a s1)\<lparr>rc_num_msgs := rc_num_msgs s1 - 1\<rparr>) = Inr r"
    "\<not> rm \<longrightarrow> (\<exists>g ga gc. timer_loop cf w now as g ga gc s1 = Inr r)"
proof -
  from assms obtain x p where x: "entry_at a s = Inr x" "(if ml_next_try x \<le> now then radius_client_retransmit cf w a now s else Inr (False, s)) = Inr p"
      and rest: "(case p of (rm, s1) \<Rightarrow>
       if rm then timer_loop cf w now as f fa fc ((unlink_entry a s1)\<lparr>rc_num_msgs := rc_num_msgs s1 - 1\<rparr>)
       else rbind (entry_at a s1) (\<lambda>y.
         let failed = (RADIUS_CLIENT_NUM_FAILOVER < ml_attempts y)
         in timer_loop cf w now as (if f = 0 \<or> ml_next_try y < f then ml_next_try y else f)
              (fa \<or> failed \<and> \<not> is_acct (ml_type y)) (fc \<or> failed \<and> is_acct (ml_type y)) s1)) = Inr r"
    by (simp only: timer_loop.simps rbind_eq_Inr) (elim exE conjE)
  obtain rm s1 where p: "p = (rm, s1)" by (cases p)
  have y: "\<exists>y. entry_at a s1 = Inr y" using x retransmit_entry by (auto simp: p split: if_splits)
  moreover have "\<not> rm \<longrightarrow> (\<exists>g ga gc. timer_loop cf w now as g ga gc s1 = Inr r)"
  proof
    assume "\<not> rm"
    with rest obtain y :: radius_msg_list where "timer_loop cf w now as (if f = 0 \<or> ml_next_try y < f then ml_next_try y else f)
        (fa \<or> (RADIUS_CLIENT_NUM_FAILOVER < ml_attempts y) \<and> \<not> is_acct (ml_type y)) (fc \<or> (RADIUS_CLIENT_NUM_FAILOVER < ml_attempts y) \<and> is_acct (ml_type y)) s1 = Inr r"
      unfolding p case_prod_conv if_not_P [OF \<open>\<not> rm\<close>] Let_def rbind_eq_Inr by blast
    then show "\<exists>g ga gc. timer_loop cf w now as g ga gc s1 = Inr r" by blast
  qed
  moreover have "rm \<longrightarrow> timer_loop cf w now as f fa fc ((unlink_entry a s1)\<lparr>rc_num_msgs := rc_num_msgs s1 - 1\<rparr>) = Inr r"
    using rest unfolding p case_prod_conv by (intro impI) (simp only: if_True)
  ultimately show thesis using that x p by blast
qed

locale client_rel =
  fixes w :: rad_sys and R :: "rad \<Rightarrow> rad \<Rightarrow> bool"
  assumes r_trans [trans]: "R s1 s2 \<Longrightarrow> R s2 s3 \<Longrightarrow> R s1 s3"
    and r_quiet: "quiet s s' \<Longrightarrow> R s s'"
    and r_register: "R s (snd (tloop_register_timeout w secs usecs h d u s))"
    and r_cancel: "h \<noteq> Eapol_test_timeout \<Longrightarrow> R s (snd (tloop_cancel_timeout h d u s))"
    and r_clear: "R s (s\<lparr>rc_msgs := [], rc_num_msgs := 0\<rparr>)"
    and r_removed: "entry_at a s = Inr x \<Longrightarrow> R s ((unlink_entry a s)\<lparr>rc_num_msgs := rc_num_msgs s - 1\<rparr>)"
    and r_drop: "R s (drop_entries P s)"
    and r_add: "R s (radius_client_list_add cf w m t sec ad s)"
    and r_forget: "id_loop i b (rc_msgs s) = Inr xs \<Longrightarrow> R s (s\<lparr>rc_next_id := n, rc_msgs := xs\<rparr>)"
begin

lemma r_refl: "R s s"
  by (rule r_quiet) (simp add: quiet_def)

lemma r_tick: "R s (tick s)"
  by (rule r_quiet) (simp add: quiet_def tick_def)

lemma client_timer_in_rel: "R s (client_timer_in w n s)"
  unfolding client_timer_in_def by (rule r_register)

lemma cancel_client_timer_rel: "R s (cancel_client_timer s)"
  unfolding cancel_client_timer_def by (rule r_cancel) simp

lemma flush_rel: "R s (radius_client_flush s)"
  unfolding radius_client_flush_def by (rule r_trans [OF cancel_client_timer_rel r_clear])

lemma change_server_rel: "R s (snd (radius_change_server cf w n o1 k au s))"
proof -
  define s1 where "s1 = (case o1 of
            Some old \<Rightarrow>
              if srv_secret n = srv_secret old
              then let s2 = s\<lparr>rc_msgs := map (\<lambda>(a, x). (a, reset_entry cf x)) (rc_msgs s)\<rparr>
                   in if rc_msgs s2 = [] then s2 else client_timer_in w (tcRadiusTimeout cf) (cancel_client_timer s2)
              else radius_client_flush s
          | None \<Rightarrow> radius_client_flush s)"
  let ?s2 = "s\<lparr>rc_msgs := map (\<lambda>(a, x). (a, reset_entry cf x)) (rc_msgs s)\<rparr>"
  have a: "R s ?s2" by (rule r_quiet) (simp add: quiet_def split_def comp_def)
  have "R s (client_timer_in w (tcRadiusTimeout cf) (cancel_client_timer ?s2))"
    by (rule r_trans [OF a r_trans [OF cancel_client_timer_rel client_timer_in_rel]])
  then have "R s s1" using a flush_rel unfolding s1_def Let_def by (cases o1) (simp_all only: option.case split: if_split, simp_all)
  also have "R s1 (snd (radius_change_server cf w n o1 k au s))"
    by (rule r_quiet) (simp add: quiet_def radius_change_server_def Let_def tick_def flip: s1_def)
  finally show ?thesis .
qed

lemma read_sock_rel: "R s (snd (tloop_register_read_sock w k h d u s))"
  by (rule r_quiet) (simp add: quiet_def tloop_register_read_sock_def malloc_def tick_def)

lemma unregister_rel: "R s (tloop_unregister_read_sock k s)"
  by (rule r_quiet) (simp add: quiet_def tloop_unregister_read_sock_def split: option.split)

lemma init_auth_rel:
  assumes "radius_client_init_auth cf w s = Inr (r, s')"
  shows "R s s'"
proof -
  let ?s1 = "s\<lparr>rc_auth_serv_sock := e_socket s\<rparr>"
  from assms obtain i srv s2 where s2: "server_of True ?s1 = Inr (i, srv)" "s2 = snd (radius_change_server cf w srv None (e_socket s) True ?s1)"
      "s' = s2 \<or> s' = snd (tloop_register_read_sock w (rc_auth_serv_sock s2) RADIUS_AUTH ctx_radius ctx_null s2)"
    by (auto simp: radius_client_init_auth_def Let_def split: if_splits prod.splits)
  have "R s ?s1" by (rule r_quiet) (simp add: quiet_def tick_def)
  moreover have "R ?s1 s2" using change_server_rel s2(2) by simp
  moreover have "R s2 s'" using s2(3) read_sock_rel r_refl by auto
  ultimately show ?thesis using r_trans by blast
qed

lemma init_acct_rel:
  assumes "radius_client_init_acct cf w s = Inr (r, s')"
  shows "R s s'"
proof -
  let ?s1 = "(tick s)\<lparr>rc_acct_serv_sock := w_socket w (lp_tick s)\<rparr>"
  from assms obtain i srv s2 where s2: "server_of False ?s1 = Inr (i, srv)"
      "s2 = snd (radius_change_server cf w srv None (w_socket w (lp_tick s)) False ?s1)"
      "s' = s2 \<or> s' = snd (tloop_register_read_sock w (rc_acct_serv_sock s2) RADIUS_ACCT ctx_radius ctx_null s2)"
    by (auto simp: radius_client_init_acct_def Let_def split: if_splits prod.splits)
  have "R s ?s1" by (rule r_quiet) (simp add: quiet_def tick_def)
  moreover have "R ?s1 s2" using change_server_rel s2(2) by simp
  moreover have "R s2 s'" using s2(3) read_sock_rel r_refl by auto
  ultimately show ?thesis using r_trans by blast
qed

lemma handle_send_error_rel:
  assumes "radius_client_handle_send_error cf w k t e s = Inr s'"
  shows "R s s'"
proof (cases "e = SendNotConn")
  case True
  let ?s1 = "tloop_unregister_read_sock k s"
  from True assms obtain r where "(if is_acct t then radius_client_init_acct cf w ?s1 else radius_client_init_auth cf w ?s1) = Inr (r, s')"
    by (auto simp: radius_client_handle_send_error_def Let_def)
  then have "R ?s1 s'" using init_auth_rel  init_acct_rel  by (auto split: if_splits)
  then show ?thesis using r_trans [OF unregister_rel] by blast
next
  case False
  then show ?thesis using assms by (simp add: radius_client_handle_send_error_def r_refl)
qed

lemma send_msg_rel:
  assumes "send_msg cf w k t m s = Inr (r, s')"
  shows "R s s'"
proof -
  let ?s1 = "(tick s)\<lparr>rc_sent := rc_sent s @ [take (rm_used m) (rm_buf m)]\<rparr>"
  have "R s ?s1" by (rule r_quiet) (simp add: quiet_def tick_def)
  moreover have "R ?s1 s'" using assms handle_send_error_rel r_refl by (auto simp: send_msg_def Let_def split: if_splits)
  ultimately show ?thesis by (rule r_trans)
qed

text \<open>Operations that do not touch the event loop, apart from reading the clock.\<close>

lemma upd_entry_rel: "upd_entry a f s = Inr s' \<Longrightarrow> R s s'"
  by (auto simp: upd_entry_def split_def comp_def simp: quiet_def intro!: r_quiet)

lemma upd_server_rel: "upd_server au f s = Inr s' \<Longrightarrow> R s s'"
  by (auto simp: upd_server_def upd_server_at_def Let_def simp: quiet_def intro!: r_quiet)

lemma stat_action_rel: "stat_action ko s = Inr s' \<Longrightarrow> R s s'"
  by (auto simp: stat_action_def simp: quiet_def intro!: r_quiet)

lemma stat_rel: "R s (stat_end w' i s)" "R s (stat_begin w' i s)" "R s (stat_count s)"
  by (auto simp: stat_end_def stat_begin_def stat_count_def gettimeofday_def tick_def quiet_def intro!: r_quiet)

lemma resend_rel:
  assumes "resend cf w a now s = Inr s'"
  shows "R s s'"
proof -
  from assms obtain x s1 s2 s3 s4 q where st: "upd_server (\<not> is_acct (ml_type x)) (count_attempt x) s = Inr s1"
      "upd_entry a (\<lambda>x. x\<lparr>ml_attempts := ml_attempts x + 1, ml_last_attempt := w_clock w (lp_tick s1)\<rparr>) (tick s1) = Inr s2"
      "send_msg cf w (if is_acct (ml_type x) then rc_acct_sock s else rc_auth_sock s) (ml_type x) (ml_msg x) s2 = Inr (q, s3)"
      "upd_entry a (\<lambda>x. x\<lparr>ml_next_try := now + ml_next_wait x, ml_next_wait := tcRadiusTimeout cf\<rparr>) s3 = Inr s4"
      "s' = s4\<lparr>e_statRetries := e_statRetries s4 + 1\<rparr>"
    unfolding resend_def by (auto simp del: if_split)
  have "R s s1" by (rule upd_server_rel [OF st(1)])
  also have "R s1 s2" using r_trans [OF r_tick upd_entry_rel [OF st(2)]] .
  also have "R s2 s3" by (rule send_msg_rel [OF st(3)])
  also have "R s3 s4" by (rule upd_entry_rel [OF st(4)])
  also have "R s4 s'" unfolding st(5) by (rule r_quiet) (simp add: quiet_def tick_def)
  finally show ?thesis .
qed

lemma give_up_rel:
  assumes "give_up w s = Inr s'"
  shows "R s s'"
proof -
  from assms obtain s1 where s1: "stat_action True (stat_count (stat_end w 0 s)) = Inr s1" "s' = tloop_terminate (s1\<lparr>e_auth_timed_out := True\<rparr>)"
    by (auto simp: give_up_def)
  have "R s (stat_end w 0 s)" by (rule stat_rel)
  also have "R (stat_end w 0 s) (stat_count (stat_end w 0 s))" by (rule stat_rel)
  also have "R (stat_count (stat_end w 0 s)) s1" by (rule stat_action_rel [OF s1(1)])
  also have "R s1 (s1\<lparr>e_auth_timed_out := True\<rparr>)" by (rule r_quiet) (simp add: quiet_def tick_def)
  also have "R (s1\<lparr>e_auth_timed_out := True\<rparr>) s'" unfolding s1(2) by (rule r_quiet) (simp add: quiet_def tloop_terminate_def)
  finally show ?thesis .
qed

lemma retransmit_rel:
  assumes "radius_client_retransmit cf w a now s = Inr (r, s')"
  shows "R s s'"
proof -
  from assms obtain s1 where "resend cf w a now s = Inr s1" "s' = s1 \<or> give_up w s1 = Inr s'"
    unfolding radius_client_retransmit_def by (auto split: if_splits)
  then show ?thesis using resend_rel  give_up_rel r_trans by blast
qed

lemma timer_loop_rel: "timer_loop cf w now as f fa fc s = Inr (f', fa', fc', s') \<Longrightarrow> R s s'"
proof (induction as arbitrary: f fa fc s)
  case (Cons a as)
  from Cons.prems show ?case
  proof (cases rule: timer_loop_step)
    case (1 x rm s1)
    have "R s s1" using 1(2) retransmit_rel r_refl by (auto split: if_splits)
    also have "R s1 s'"
    proof (cases rm)
      case True
      obtain y where "entry_at a s1 = Inr y" using 1(3) by blast
      then have "R s1 ((unlink_entry a s1)\<lparr>rc_num_msgs := rc_num_msgs s1 - 1\<rparr>)" by (rule r_removed)
      also have "R \<dots> s'" using Cons.IH 1(4) True by simp
      finally show ?thesis .
    next
      case False
      then obtain g ga gc where "timer_loop cf w now as g ga gc s1 = Inr (f', fa', fc', s')" using 1(5) by blast
      then show ?thesis by (rule Cons.IH)
    qed
    finally show ?thesis .
  qed
qed (simp add: r_refl)

lemma failover_rel:
  assumes "failover cf w au s = Inr s'"
  shows "R s s'"
proof -
  from assms obtain n o1 k c where s': "s' = snd (radius_change_server cf w n o1 k au (s\<lparr>rc_conf := c\<rparr>))"
    by (auto simp: failover_def Let_def upd_server_at_def split: prod.splits if_splits)
  have "R s (s\<lparr>rc_conf := c\<rparr>)" by (rule r_quiet) (simp add: quiet_def tick_def)
  then show ?thesis using r_trans change_server_rel  unfolding s' by blast
qed

lemma client_timer_rel:
  assumes "radius_client_timer cf w s = Inr s'"
  shows "R s s'"
proof (cases "rc_msgs s = []")
  case True
  then show ?thesis using assms by (simp add: radius_client_timer_def r_refl)
next
  case False
  define now where "now = fst (w_clock w (lp_tick s))"
  from False assms obtain f fa fc s1 where s1: "timer_loop cf w now (map fst (rc_msgs (tick s))) 0 False False (tick s) = Inr (f, fa, fc, s1)"
      and rest: "(let s2 = (if rc_msgs s1 = [] then s1 else client_timer_in w ((if f < now then now else f) - now) s1)
              in rbind (if fa \<and> 1 < length (auth_servers (rc_conf s2)) then failover cf w True s2 else Inr s2) (\<lambda>s3.
                 if fc \<and> 1 < length (acct_servers (rc_conf s3)) then failover cf w False s3 else Inr s3)) = Inr s'"
    by (auto simp: radius_client_timer_def unix_time_def simp flip: now_def)
  define s2 where "s2 = (if rc_msgs s1 = [] then s1 else client_timer_in w ((if f < now then now else f) - now) s1)"
  from rest obtain s3 where s3: "(if fa \<and> 1 < length (auth_servers (rc_conf s2)) then failover cf w True s2 else Inr s2) = Inr s3"
      "(if fc \<and> 1 < length (acct_servers (rc_conf s3)) then failover cf w False s3 else Inr s3) = Inr s'"
    by (auto simp: Let_def simp flip: s2_def)
  have "R s (tick s)" by (rule r_tick)
  also have "R (tick s) s1" by (rule timer_loop_rel [OF s1])
  also have "R s1 s2" using client_timer_in_rel r_refl by (simp add: s2_def)
  also have "R s2 s3" using s3(1) failover_rel r_refl by (auto split: if_splits)
  also have "R s3 s'" using s3(2) failover_rel r_refl by (auto split: if_splits)
  finally show ?thesis .
qed

lemma retry_primary_rel:
  assumes "retry_primary cf w au s = Inr s'"
  shows "R s s'"
proof -
  from assms have "s' = s \<or> (\<exists>n o1 k c. s' = snd (radius_change_server cf w n o1 k au (s\<lparr>rc_conf := c\<rparr>)))"
    by (auto simp: retry_primary_def Let_def split: if_splits)
  moreover have "R s (s\<lparr>rc_conf := c\<rparr>)" for c by (rule r_quiet) (simp add: quiet_def)
  ultimately show ?thesis using r_trans change_server_rel r_refl by metis
qed

lemma retry_primary_timer_rel:
  assumes "radius_retry_primary_timer cf w s = Inr s'"
  shows "R s s'"
proof -
  from assms obtain s1 s2 where st: "retry_primary cf w True s = Inr s1" "retry_primary cf w False s1 = Inr s2"
      "s' = s2 \<or> s' = snd (tloop_register_timeout w (retry_primary_interval (rc_conf s2)) 0 Radius_retry_primary_timer ctx_radius ctx_null s2)"
    by (auto simp: radius_retry_primary_timer_def Let_def split: if_splits)
  have "R s s1" by (rule retry_primary_rel [OF st(1)])
  also have "R s1 s2" by (rule retry_primary_rel [OF st(2)])
  also have "R s2 s'" using st(3) r_register r_refl by auto
  finally show ?thesis .
qed


lemma client_send_rel:
  assumes "radius_client_send cf w m t ad s = Inr (ok, s')"
  shows "R s s'"
proof -
  define s0 where "s0 = (if t = RADIUS_ACCT_INTERIM then radius_client_list_del t ad s else s)"
  from assms obtain sec m1 s1 s2 k where st:
      "upd_server (\<not> is_acct t) (\<lambda>v. v\<lparr>srv_requests := srv_requests v + 1\<rparr>) (tick s0) = Inr s1"
      "send_msg cf w k t m1 (stat_begin w 0 s1) = Inr (ok, s2)" "s' = radius_client_list_add cf w m1 t sec ad s2"
    unfolding radius_client_send_def Let_def s0_def [symmetric] rbind_eq_Inr split_paired_Ex case_prod_conv
    by (elim exE conjE) (simp only: sum.inject prod.inject, metis)
  have "R s s0" using r_drop r_refl by (simp add: s0_def radius_client_list_del_def split: option.split)
  also have "R s0 (tick s0)" by (rule r_tick)
  also have "R (tick s0) s1" by (rule upd_server_rel [OF st(1)])
  also have "R s1 (stat_begin w 0 s1)" by (rule stat_rel)
  also have "R (stat_begin w 0 s1) s2" by (rule send_msg_rel [OF st(2)])
  also have "R s2 s'" unfolding st(3) by (rule r_add)
  finally show ?thesis .
qed

lemma get_id_rel: "radius_client_get_id ident s = Inr (i, ident', s') \<Longrightarrow> R s s'"
  by (auto simp: radius_client_get_id_def Let_def split: prod.splits intro: r_forget)

lemma user_rel: "R s (s\<lparr>e_user := u\<rparr>)"
  by (rule r_quiet) (simp add: quiet_def)

lemma learn_rel: "learn_class m s = Inr s' \<Longrightarrow> R s s'" "learn_state m s = Inr s' \<Longrightarrow> R s s'"
  by (auto simp: learn_class_def learn_state_def split: if_splits intro: user_rel r_refl)

lemma count_code_rel:
  assumes c: "count_code au m s = Inr s'"
  shows "R s s'"
proof (cases "hdr_code m = RADIUS_CODE_ACCESS_ACCEPT")
  case True
  obtain s1 s2 :: rad where st: "upd_server au (\<lambda>v. v\<lparr>srv_access_accepts := srv_access_accepts v + 1\<rparr>) s = Inr s1"
      "learn_class m s1 = Inr s2" "learn_state m s2 = Inr s'"
    using c unfolding count_code_def if_P [OF True] rbind_eq_Inr by blast
  show ?thesis by (rule r_trans [OF upd_server_rel [OF st(1)] r_trans [OF learn_rel(1) [OF st(2)] learn_rel(2) [OF st(3)]]])
next
  case False
  have "(\<exists>f. upd_server au f s = Inr s') \<or> s' = s"
    using c unfolding count_code_def if_not_P [OF False] by (metis sum.inject(2))
  then show ?thesis using upd_server_rel r_refl by blast
qed

definition handlers_ok :: "rx_handler list \<Rightarrow> bool" where
  "handlers_ok hs \<longleftrightarrow> (\<forall>h \<in> set hs. \<forall>m q sec s r s'. h m q sec s = Inr (r, s') \<longrightarrow> R s s')"

lemma rx_loop_rel: "handlers_ok hs \<Longrightarrow> rx_loop hs m x bad s = Inr (r, s') \<Longrightarrow> R s s'"
proof (induction hs arbitrary: bad s)
  case (Cons h hs)
  from Cons.prems(2) obtain q s1 where q: "h m (ml_msg x) (ml_secret x) s = Inr (q, s1)"
      "s' = s1 \<or> (\<exists>b. rx_loop hs m x b s1 = Inr (r, s'))" by (auto split: if_splits)
  have "R s s1" using Cons.prems(1) q(1) by (auto simp: handlers_ok_def)
  moreover have "R s1 s'" using Cons.IH Cons.prems(1) q(2) r_refl by (auto simp: handlers_ok_def)
  ultimately show ?case by (rule r_trans)
qed (simp add: r_refl)

lemma process_answer_rel:
  assumes hs: "handlers_ok hs" and p: "process_answer w hs au m a x s = Inr s'" and a: "entry_at a s = Inr y"
  shows "R s s'"
proof -
  let ?f = "\<lambda>v. v\<lparr>srv_round_trip_time := round_trip (w_clock w (lp_tick s)) (ml_last_attempt x)\<rparr>"
  obtain s2 s3 s4 :: rad and r where st: "upd_server au ?f (tick s) = Inr s2" "stat_action False s2 = Inr s3"
      "rx_loop hs m x False ((unlink_entry a s3)\<lparr>rc_num_msgs := rc_num_msgs s3 - 1\<rparr>) = Inr (r, s4)"
      and fin: "(case r of None \<Rightarrow> Inr s4 | Some bad \<Rightarrow>
               rbind (upd_server au (\<lambda>v. if bad then v\<lparr>srv_bad_authenticators := srv_bad_authenticators v + 1\<rparr>
                                         else v\<lparr>srv_unknown_types := srv_unknown_types v + 1\<rparr>) s4) (stat_action True)) = Inr s'"
    using p unfolding process_answer_def gettimeofday_def Let_def case_prod_conv rbind_eq_Inr split_paired_Ex by blast
  have "rc_msgs s3 = rc_msgs s"
    using st(1,2) by (auto simp: upd_server_def upd_server_at_def stat_action_def Let_def tick_def split: if_splits option.splits)
  then have e: "entry_at a s3 = Inr y" using a by (simp add: entry_at_def)
  have "R s (tick s)" by (rule r_tick)
  also have "R (tick s) s2" by (rule upd_server_rel [OF st(1)])
  also have "R s2 s3" by (rule stat_action_rel [OF st(2)])
  also have "R s3 ((unlink_entry a s3)\<lparr>rc_num_msgs := rc_num_msgs s3 - 1\<rparr>)" by (rule r_removed [OF e])
  also have "R \<dots> s4" by (rule rx_loop_rel [OF hs st(3)])
  also have "R s4 s'"
  proof (cases r)
    case (Some bad)
    then obtain s5 :: rad and f where "upd_server au f s4 = Inr s5" "stat_action True s5 = Inr s'"
      using fin unfolding Some option.case rbind_eq_Inr by blast
    then show ?thesis using upd_server_rel stat_action_rel r_trans by blast
  qed (use fin r_refl in simp)
  finally show ?thesis .
qed

lemma find_entry_at: "find P (rc_msgs s) = Some (a, x) \<Longrightarrow> \<exists>y. entry_at a s = Inr y"
proof -
  assume "find P (rc_msgs s) = Some (a, x)"
  then have "(a, x) \<in> set (rc_msgs s)" unfolding find_Some_iff by (metis nth_mem)
  then have "map_of (rc_msgs s) a \<noteq> None" unfolding map_of_eq_None_iff by force
  then show ?thesis unfolding entry_at_def by auto
qed

lemma dispatch_rel:
  assumes h: "handlers_ok hs" and p: "(case find P (rc_msgs s) of None \<Rightarrow> stat_action True s
        | Some (a, x) \<Rightarrow> process_answer w hs au m a x s) = Inr s'"
  shows "R s s'"
proof (cases "find P (rc_msgs s)")
  case None
  then show ?thesis using p stat_action_rel by simp
next
  case (Some ax)
  obtain a x where ax: "ax = (a, x)" by (cases ax)
  obtain y where y: "entry_at a s = Inr y" using find_entry_at Some ax by blast
  have "process_answer w hs au m a x s = Inr s'" using p unfolding Some ax by simp
  then show ?thesis using y by (rule process_answer_rel [OF h])
qed

lemma parsed_rel:
  assumes h: "handlers_ok hs"
    and r: "(case r of None \<Rightarrow> upd_server au f s
        | Some m \<Rightarrow> rbind (count_code au m s) (\<lambda>s4. case find (answers t m) (rc_msgs s4) of None \<Rightarrow> stat_action True s4
             | Some (a, x) \<Rightarrow> process_answer w hs au m a x s4)) = Inr s'"
  shows "R s s'"
proof (cases r)
  case None
  then show ?thesis using r upd_server_rel by simp
next
  case (Some m)
  obtain s4 :: rad where "count_code au m s = Inr s4"
      "(case find (answers t m) (rc_msgs s4) of None \<Rightarrow> stat_action True s4
         | Some (a, x) \<Rightarrow> process_answer w hs au m a x s4) = Inr s'"
    using r unfolding Some option.case rbind_eq_Inr by blast
  then show ?thesis using r_trans count_code_rel dispatch_rel [OF h] by blast
qed

lemma receive_rel:
  assumes hs: "handlers_ok ah" "handlers_ok ch" and p: "radius_client_receive w ah ch t s = Inr s'"
  shows "R s s'"
proof -
  define au where "au = (t \<noteq> RADIUS_ACCT)"
  define s1 where "s1 = stat_count (stat_end w 0 s)"
  have r1: "R s (tick s1)" unfolding s1_def by (rule r_trans [OF stat_rel(1) r_trans [OF stat_rel(3) r_tick]])
  have h: "handlers_ok (if au then ah else ch)" using hs by simp
  show ?thesis
  proof (cases "\<exists>d. w_recv w (lp_tick s1) = Some d \<and> length d < 3000")
    case False
    then have "s' = tick s1" using p
      unfolding radius_client_receive_def Let_def s1_def [symmetric] by (auto split: option.splits)
    then show ?thesis using r1 by simp
  next
    case True
    obtain d where d: "w_recv w (lp_tick s1) = Some d" "\<not> 3000 \<le> length d" using True by auto
    obtain al q arr where g: "w_msg w (lp_tick (tick s1)) = (al, q, arr)" by (metis prod_cases3)
    have "R (tick (tick s1)) s'"
      using p parsed_rel [OF h] unfolding radius_client_receive_def Let_def s1_def [symmetric] d(1) option.case
        if_not_P [OF d(2)] g case_prod_conv au_def [symmetric] rbind_eq_Inr [of "radius_msg_parse al q arr d"] by blast
    then show ?thesis by (rule r_trans [OF r_trans [OF r1 r_tick]])
  qed
qed

lemma deinit_rel: "R s (radius_client_deinit s)"
  unfolding radius_client_deinit_def by (rule r_trans [OF r_cancel flush_rel]) simp

lemma init_acct_timer_rel:
  assumes "init_acct_timer cf w s = Inr (ok, s')"
  shows "R s s'"
proof -
  obtain q :: int and s1 :: rad where st: "(if acct_server (rc_conf s) \<noteq> None then radius_client_init_acct cf w s else Inr (0, s)) = Inr (q, s1)"
      "(if q \<noteq> 0 then Inr (False, radius_client_deinit s1)
       else let n = retry_primary_interval (rc_conf s1)
            in Inr (True, if n \<noteq> 0 then snd (tloop_register_timeout w n 0 Radius_retry_primary_timer ctx_radius ctx_null s1) else s1)) = (Inr (ok, s') :: (bool \<times> rad) result)"
    using assms unfolding init_acct_timer_def rbind_eq_Inr split_paired_Ex case_prod_conv by blast
  have "R s s1" using st(1) init_acct_rel r_refl by (auto split: if_splits)
  moreover have "R s1 s'" using st(2) deinit_rel [of s1] r_register [of s1] r_refl [of s1] by (auto simp: Let_def split: if_splits)
  ultimately show ?thesis by (rule r_trans)
qed

lemma client_init_rel:
  assumes "radius_client_init cf w s = Inr (ok, s')"
  shows "R s s'"
proof (cases "w_malloc w (lp_tick s)")
  case False
  then show ?thesis using assms r_tick [of s] by (auto simp: radius_client_init_def malloc_def)
next
  case True
  define s1 where "s1 = (tick s)\<lparr>rc_msgs := [], rc_num_msgs := 0, rc_next_id := 0, rc_auth_serv_sock := -1, rc_acct_serv_sock := -1,
                          rc_auth_sock := -1, rc_acct_sock := -1\<rparr>"
  have c: "R s ((tick s)\<lparr>rc_msgs := [], rc_num_msgs := 0\<rparr>)" by (rule r_trans [OF r_tick r_clear])
  have "R ((tick s)\<lparr>rc_msgs := [], rc_num_msgs := 0\<rparr>) s1" by (rule r_quiet) (simp add: quiet_def s1_def)
  then have a: "R s s1" by (rule r_trans [OF c])
  have i: "radius_client_init cf w s = rbind (if auth_server (rc_conf s1) \<noteq> None then radius_client_init_auth cf w s1 else Inr (0, s1)) (\<lambda>(r, s2).
                 if r \<noteq> 0 then Inr (False, radius_client_deinit s2) else init_acct_timer cf w s2)"
    unfolding radius_client_init_def malloc_def Let_def case_prod_conv s1_def [symmetric] using True by (simp only: not_True_eq_False if_False)
  obtain r :: int and s2 :: rad where st: "(if auth_server (rc_conf s1) \<noteq> None then radius_client_init_auth cf w s1 else Inr (0, s1)) = Inr (r, s2)"
      "(if r \<noteq> 0 then Inr (False, radius_client_deinit s2) else init_acct_timer cf w s2) = Inr (ok, s')"
    using assms unfolding i rbind_eq_Inr split_paired_Ex case_prod_conv by blast
  have "R s1 s2" using st(1) init_auth_rel r_refl by (auto split: if_splits)
  moreover have "R s2 s'" using st(2) deinit_rel [of s2] init_acct_timer_rel by (auto split: if_splits)
  ultimately show ?thesis using r_trans [OF a] r_trans by blast
qed

end

subsection \<open>The deadline of the event loop\<close>

text \<open>The timeout of the whole authentication, on a clock whose microseconds are in range.\<close>

definition deadline :: "rad_sys \<Rightarrow> timer_handler tloop_timeout \<Rightarrow> bool" where
  "deadline w D \<longleftrightarrow> clock_ok w \<and> to_handler D = Eapol_test_timeout"

definition keeps_deadline :: "rad_sys \<Rightarrow> timer_handler tloop_timeout \<Rightarrow> rad \<Rightarrow> rad \<Rightarrow> bool" where
  "keeps_deadline w D s s' \<longleftrightarrow> (deadline w D \<longrightarrow> polite w D s s')"

lemma deadline_register: "keeps_deadline w D s (snd (tloop_register_timeout w secs usecs h d u s))"
  using polite_register [of w secs usecs h d u s] by (auto simp: keeps_deadline_def deadline_def prod_eq_iff)

lemma deadline_cancel: "h \<noteq> Eapol_test_timeout \<Longrightarrow> keeps_deadline w D s (snd (tloop_cancel_timeout h d u s))"
  using polite_cancel [of h d u D s] by (auto simp: keeps_deadline_def deadline_def timeout_matches_def prod_eq_iff)

lemma deadline_same:
  "lp_tick s \<le> lp_tick s' \<Longrightarrow> lp_timeout s' = lp_timeout s \<Longrightarrow> (lp_terminate s \<longrightarrow> lp_terminate s') \<Longrightarrow> keeps_deadline w D s s'"
  unfolding keeps_deadline_def using polite_same by blast

lemma deadline_trans: "keeps_deadline w D s1 s2 \<Longrightarrow> keeps_deadline w D s2 s3 \<Longrightarrow> keeps_deadline w D s1 s3"
  unfolding keeps_deadline_def using polite_trans by blast

lemma deadline_update_timeout: "keeps_deadline w D s (radius_client_update_timeout w s)"
proof -
  have c: "keeps_deadline w D s (cancel_client_timer s)" unfolding cancel_client_timer_def by (rule deadline_cancel) simp
  have t: "keeps_deadline w D s1 (tick s1)" for s1 by (rule deadline_same) simp_all
  have r: "keeps_deadline w D s1 (client_timer_in w n s1)" for s1 n unfolding client_timer_in_def by (rule deadline_register)
  have "keeps_deadline w D s (client_timer_in w n (tick (cancel_client_timer s)))" for n
    by (rule deadline_trans [OF c deadline_trans [OF t r]])
  with c show ?thesis by (auto simp: radius_client_update_timeout_def unix_time_def Let_def)
qed

definition with_entry :: "rad_conf \<Rightarrow> rad_sys \<Rightarrow> radius_msg \<Rightarrow> RadiusType \<Rightarrow> byte list \<Rightarrow> byte list option \<Rightarrow> rad \<Rightarrow> rad" where
  "with_entry cf w m t sec ad s = (tick (tick (tick s)))\<lparr>rc_msgs := (rc_fresh s,
      new_entry cf m t sec ad (fst (w_clock w (Suc (lp_tick s)))) (w_clock w (Suc (Suc (lp_tick s))))) # rc_msgs s, rc_fresh := Suc (rc_fresh s)\<rparr>"

lemma tick_rad: "rc_fresh (tick s) = rc_fresh s" "rc_msgs (tick s) = rc_msgs s"
  by (simp_all add: tick_def)

lemma list_add_cases:
  obtains (stopped) "lp_terminate s" "radius_client_list_add cf w m t sec ad s = s"
  | (no_mem) "\<not> lp_terminate s" "\<not> w_malloc w (lp_tick s)" "radius_client_list_add cf w m t sec ad s = tick s"
  | (added) s5 where "\<not> lp_terminate s" "w_malloc w (lp_tick s)" "s5 = radius_client_update_timeout w (with_entry cf w m t sec ad s)"
      "radius_client_list_add cf w m t sec ad s = (if RADIUS_CLIENT_MAX_ENTRIES \<le> rc_num_msgs s5
        then if 1 < length (rc_msgs s5) then s5\<lparr>rc_msgs := butlast (rc_msgs s5)\<rparr> else s5
        else s5\<lparr>rc_num_msgs := rc_num_msgs s5 + 1\<rparr>)"
proof (cases "lp_terminate s \<or> \<not> w_malloc w (lp_tick s)")
  case True
  then show thesis using stopped no_mem by (cases "lp_terminate s") (simp_all add: radius_client_list_add_def tloop_terminated_def malloc_def)
next
  case False
  then have f: "\<not> lp_terminate s" "w_malloc w (lp_tick s)" by simp_all
  show thesis
    by (rule added [OF f refl]) (simp only: f radius_client_list_add_def tloop_terminated_def malloc_def unix_time_def gettimeofday_def
      Let_def case_prod_conv with_entry_def if_False if_True simp_thms tick_sel tick_rad)
qed

lemma deadline_list_add: "keeps_deadline w D s (radius_client_list_add cf w m t sec ad s)"
proof (cases cf w m t sec ad s rule: list_add_cases)
  case (added s5)
  have "keeps_deadline w D s (with_entry cf w m t sec ad s)" by (rule deadline_same) (simp_all add: with_entry_def)
  moreover have "keeps_deadline w D (with_entry cf w m t sec ad s) s5" unfolding added(3) by (rule deadline_update_timeout)
  moreover have "keeps_deadline w D s5 (radius_client_list_add cf w m t sec ad s)" unfolding added(4) by (rule deadline_same) simp_all
  ultimately show ?thesis using deadline_trans by blast
qed (simp_all add: deadline_same)

interpretation dl: client_rel w "keeps_deadline w D" for w D
proof (unfold_locales, goal_cases)
  case (1 s1 s2 s3) then show ?case by (rule deadline_trans)
next
  case (2 s s') then show ?case by (intro deadline_same) (simp_all add: quiet_def)
qed (rule deadline_register deadline_cancel deadline_list_add deadline_same; simp add: unlink_entry_def drop_entries_def)+

subsection \<open>The list of pending requests\<close>

text \<open>
  The entries have different addresses, none of which will be used again, and there are never more than
  \<^verbatim>\<open>RADIUS_CLIENT_MAX_ENTRIES\<close> of them; the counter bounds their number. It is not always their number,
  since \<^verbatim>\<open>radius_client_get_id\<close> removes entries without counting them.
\<close>

definition pending_ok :: "rad \<Rightarrow> bool" where
  "pending_ok s \<longleftrightarrow> distinct (map fst (rc_msgs s)) \<and> (\<forall>a \<in> set (map fst (rc_msgs s)). a < rc_fresh s)
     \<and> length (rc_msgs s) \<le> unat (rc_num_msgs s) \<and> rc_num_msgs s \<le> RADIUS_CLIENT_MAX_ENTRIES"

definition keeps_pending :: "rad \<Rightarrow> rad \<Rightarrow> bool" where
  "keeps_pending s s' \<longleftrightarrow> (pending_ok s \<longrightarrow> pending_ok s')"

lemma pending_same:
  "map fst (rc_msgs s') = map fst (rc_msgs s) \<Longrightarrow> rc_num_msgs s' = rc_num_msgs s \<Longrightarrow> rc_fresh s' = rc_fresh s \<Longrightarrow> keeps_pending s s'"
  unfolding keeps_pending_def pending_ok_def using length_map [of fst "rc_msgs s"] length_map [of fst "rc_msgs s'"] by simp

lemma pending_register: "keeps_pending s (snd (tloop_register_timeout w secs usecs h d u s))"
  by (rule pending_same) (simp_all add: tloop_register_timeout_def malloc_def gettimeofday_def tick_def Let_def)

lemma pending_cancel: "keeps_pending s (snd (tloop_cancel_timeout h d u s))"
  by (rule pending_same) (simp_all add: tloop_cancel_timeout_def)

lemma unat_minus_le: "n \<le> unat (k :: 64 word) \<Longrightarrow> unat (k - of_nat n) = unat k - n"
proof -
  assume n: "n \<le> unat k"
  also have "unat k < 2 ^ LENGTH(64)" by (rule unsigned_less)
  finally have "unat (of_nat n :: 64 word) = n" by (simp add: unat_of_nat take_bit_nat_eq_self)
  then show ?thesis using n by (simp add: unat_sub word_le_nat_alt)
qed

lemma pending_filtered:
  assumes "pending_ok s" "rc_msgs s' = filter P (rc_msgs s)" "rc_fresh s' = rc_fresh s"
    and "rc_num_msgs s' = rc_num_msgs s - of_nat n" "n \<le> length (filter (\<lambda>p. \<not> P p) (rc_msgs s))"
  shows "pending_ok s'"
proof -
  have l: "length (filter P (rc_msgs s)) + length (filter (\<lambda>p. \<not> P p) (rc_msgs s)) = length (rc_msgs s)"
    by (rule sum_length_filter_compl)
  then have n: "n \<le> unat (rc_num_msgs s)" using assms(1,5) by (simp add: pending_ok_def)
  show ?thesis using assms l unat_minus_le [OF n]
    by (auto simp: pending_ok_def distinct_map_filter word_le_nat_alt)
qed

lemma update_timeout_rc [simp]:
  "rc_msgs (radius_client_update_timeout w s) = rc_msgs s" "rc_fresh (radius_client_update_timeout w s) = rc_fresh s"
  "rc_num_msgs (radius_client_update_timeout w s) = rc_num_msgs s"
  by (simp_all add: radius_client_update_timeout_def cancel_client_timer_def client_timer_in_def unix_time_def Let_def
       tloop_register_timeout_def tloop_cancel_timeout_def malloc_def gettimeofday_def tick_def)

lemma pending_list_add:
  assumes "pending_ok s"
  shows "pending_ok (radius_client_list_add cf w m t sec ad s)"
proof (cases cf w m t sec ad s rule: list_add_cases)
  case (added s5)
  define xs where "xs = rc_msgs s5"
  have s5: "rc_num_msgs s5 = rc_num_msgs s" "rc_fresh s5 = Suc (rc_fresh s)" "length xs = Suc (length (rc_msgs s))"
    "map fst xs = rc_fresh s # map fst (rc_msgs s)"
    by (simp_all add: added(3) with_entry_def tick_def xs_def)
  have d: "distinct (map fst xs)" "\<forall>a \<in> set (map fst xs). a < rc_fresh s5"
    using assms by (auto simp: s5 pending_ok_def)
  show ?thesis
  proof (cases "RADIUS_CLIENT_MAX_ENTRIES \<le> rc_num_msgs s")
    case True
    have "distinct (map fst (butlast xs))" "\<forall>a \<in> set (map fst (butlast xs)). a < rc_fresh s5"
      using d distinct_butlast [of "map fst xs"] in_set_butlastD [of _ "map fst xs"] unfolding map_butlast by blast+
    then show ?thesis using True d assms unfolding added(4)
      by (auto simp: s5(1,2,3) pending_ok_def RADIUS_CLIENT_MAX_ENTRIES_def word_le_nat_alt simp flip: xs_def)
  next
    case False
    then have "unat (rc_num_msgs s + 1) = unat (rc_num_msgs s) + 1"
      by (simp add: RADIUS_CLIENT_MAX_ENTRIES_def word_le_nat_alt unat_word_ariths)
    then show ?thesis using False d assms unfolding added(4)
      by (auto simp: s5(1,2,3) pending_ok_def RADIUS_CLIENT_MAX_ENTRIES_def word_le_nat_alt simp flip: xs_def)
  qed
qed (use assms in \<open>simp_all add: pending_ok_def tick_def\<close>)

lemma id_loop_filter: "id_loop i b xs = Inr ys \<Longrightarrow> ys = filter (\<lambda>(_, x). hdr_identifier (ml_msg x) \<noteq> i) xs"
  by (induction i b xs arbitrary: ys rule: id_loop.induct) (auto split: if_splits)

lemma pending_removed:
  assumes "entry_at a s = Inr x"
  shows "keeps_pending s ((unlink_entry a s)\<lparr>rc_num_msgs := rc_num_msgs s - 1\<rparr>)"
proof -
  have "(a, x) \<in> set (rc_msgs s)" using assms by (auto simp: entry_at_def dest: map_of_SomeD split: option.splits)
  then have "(a, x) \<in> set (filter (\<lambda>p. \<not> fst p \<noteq> a) (rc_msgs s))" by simp
  then have "1 \<le> length (filter (\<lambda>p. \<not> fst p \<noteq> a) (rc_msgs s))" using length_pos_if_in_set [of "(a, x)"] by (simp only: Suc_le_eq One_nat_def)
  then show ?thesis unfolding keeps_pending_def
    using pending_filtered [of s "(unlink_entry a s)\<lparr>rc_num_msgs := rc_num_msgs s - 1\<rparr>" "\<lambda>p. fst p \<noteq> a" 1]
    by (simp add: unlink_entry_def)
qed

lemma pending_drop: "keeps_pending s (drop_entries P s)"
  unfolding keeps_pending_def
  using pending_filtered [of s "drop_entries P s" "\<lambda>(_, x). \<not> P x" "length (filter (\<lambda>(_, x). P x) (rc_msgs s))"]
  by (simp add: drop_entries_def split_def)

lemma pending_forget:
  assumes "id_loop i b (rc_msgs s) = Inr xs"
  shows "keeps_pending s (s\<lparr>rc_next_id := n, rc_msgs := xs\<rparr>)"
  unfolding keeps_pending_def id_loop_filter [OF assms]
  using pending_filtered [of s _ "\<lambda>(_, x). hdr_identifier (ml_msg x) \<noteq> i" 0] by simp

interpretation pd: client_rel w keeps_pending for w
proof (unfold_locales, goal_cases)
  case (1 s1 s2 s3) then show ?case by (simp add: keeps_pending_def)
next
  case (2 s s') then show ?case by (intro pending_same) (simp_all add: quiet_def)
next
  case (5 s) then show ?case by (simp add: keeps_pending_def pending_ok_def)
next
  case (8 s cf m t sec ad) then show ?case by (simp add: keeps_pending_def pending_list_add)
qed (rule pending_register pending_cancel pending_removed pending_drop pending_forget, assumption?)+

subsection \<open>The Access-Accept\<close>

text \<open>No operation of the client records that an Access-Accept was received.\<close>

definition keeps_accept :: "rad \<Rightarrow> rad \<Rightarrow> bool" where
  "keeps_accept s s' \<longleftrightarrow> e_accept s' = e_accept s"

lemma accept_list_add: "keeps_accept s (radius_client_list_add cf w m t sec ad s)"
proof (cases cf w m t sec ad s rule: list_add_cases)
  case (added s5)
  have "e_accept s5 = e_accept s"
    by (simp add: added(3) with_entry_def radius_client_update_timeout_def cancel_client_timer_def client_timer_in_def unix_time_def Let_def
       tloop_register_timeout_def tloop_cancel_timeout_def malloc_def gettimeofday_def tick_def)
  then show ?thesis unfolding added(4) by (simp add: keeps_accept_def)
qed (simp_all add: keeps_accept_def tick_def)

interpretation ac: client_rel w keeps_accept for w
  by unfold_locales (simp_all add: accept_list_add, simp_all add: keeps_accept_def quiet_def tloop_register_timeout_def tloop_cancel_timeout_def
      malloc_def gettimeofday_def tick_def Let_def unlink_entry_def drop_entries_def)

end
