(* ===== verification/Tgen_SupConf.thy ===== *)
theory Tgen_SupConf
  imports Tgen_RadPending
begin

section \<open>The network block of an authentication (tsupplicant.c, eapol_test.c)\<close>

text \<open>
  What \<^verbatim>\<open>tSupplicant_accessRq\<close> prepares for the EAPOL state machine and for the RADIUS requests: the network block
  with the identity, the password, the certificates and the WiMAX attributes of the session. The settings
  are read from \<^verbatim>\<open>tgen.ini\<close> once, into static buffers that start as \<^verbatim>\<open>not_read\<close>. That the copies of the strings
  cannot be allocated is left out; the allocations whose failure the code looks at are there.
\<close>

subsection \<open>The network block\<close>

record wpa_ssid =
  ss_ssid :: string
  ss_identity :: string
  ss_password :: "string option"
  ss_ca_cert :: "string option"
  ss_ca_path :: "string option"
  ss_phase2 :: "string option"
  ss_anonymous_identity :: "string option"
  ss_client_cert :: "string option"
  ss_private_key :: "string option"
  ss_private_key_passwd :: "string option"
  ss_servicetype :: "string option"
  ss_wimaxcapability :: "string option"
  ss_session_termination_capability :: "string option"
  ss_ppac :: "string option"
  ss_aaa_session_id :: "string option"
  ss_ppaq :: "string option"

record sup_static =
  ca_cert :: string
  ca_path :: string
  etp2 :: string
  ai :: string
  ca_cert_tls :: string
  tls_certs_parent_path :: string
  client_cert_tls_default :: string
  private_key_tls_default :: string
  private_key_passwd_tls_default :: string
  servicetype_ols :: string
  wimaxcapability_ols :: string
  tls_certs_count :: int

definition not_read :: string where "not_read = ''not_read''"

definition sup_static0 :: sup_static where
  "sup_static0 = \<lparr>ca_cert = not_read, ca_path = not_read, etp2 = not_read, ai = not_read, ca_cert_tls = not_read,
     tls_certs_parent_path = not_read, client_cert_tls_default = not_read, private_key_tls_default = not_read,
     private_key_passwd_tls_default = not_read, servicetype_ols = not_read, wimaxcapability_ols = not_read, tls_certs_count = -1\<rparr>"

definition wpa_ssid0 :: "string \<Rightarrow> string \<Rightarrow> wpa_ssid" where
  "wpa_ssid0 name ident = \<lparr>ss_ssid = name, ss_identity = ident, ss_password = None, ss_ca_cert = None, ss_ca_path = None,
     ss_phase2 = None, ss_anonymous_identity = None, ss_client_cert = None, ss_private_key = None, ss_private_key_passwd = None,
     ss_servicetype = None, ss_wimaxcapability = None, ss_session_termination_capability = None, ss_ppac = None,
     ss_aaa_session_id = None, ss_ppaq = None\<rparr>"

text \<open>A setting of the section \<^verbatim>\<open>Radius\<close>, read when the static buffer has not been filled; a non-empty one is copied.\<close>

definition read_once :: "ini \<Rightarrow> string \<Rightarrow> string \<Rightarrow> nat \<Rightarrow> string \<Rightarrow> string" where
  "read_once ini key def len buf = (if buf = not_read then get_str ini ''Radius'' key def len else buf)"

definition non_empty :: "string \<Rightarrow> string option" where
  "non_empty v = (if v = [] then None else Some v)"

subsection \<open>WiMAX attributes\<close>

definition WIMAXCAPABILITY_TTLS :: string where "WIMAXCAPABILITY_TTLS = ''000105312e30020300030302''"
definition SessionTerminationCapability_TTLS :: string where "SessionTerminationCapability_TTLS = ''00000001''"
definition PPAC_TTLS :: string where "PPAC_TTLS = ''00010600000003''"
definition ServiceType_Framed_TTLS :: string where "ServiceType_Framed_TTLS = ''02''"
definition ServiceType_AuthenticateOnly_TTLS :: string where "ServiceType_AuthenticateOnly_TTLS = ''08''"
definition ServiceType_AuthorizeOnly_TTLS :: string where "ServiceType_AuthorizeOnly_TTLS = ''11''"
definition PPAQ_UpdateReason_QuotaReached :: string where "PPAQ_UpdateReason_QuotaReached = ''080304''"
definition PPAQ_UpdateReason_AccessServiceTerminated :: string where "PPAQ_UpdateReason_AccessServiceTerminated = ''080308''"

definition hex_digit :: "nat \<Rightarrow> char" where
  "hex_digit n = char_of (if n < 10 then 48 + n else 87 + n)"

definition hex2 :: "char \<Rightarrow> string" where
  "hex2 c = (let n = of_char c :: nat in [hex_digit (n div 16), hex_digit (n mod 16)])"

text \<open>
  \<^verbatim>\<open>sprintf(pVSA, "%02x", c)\<close> for each byte, with the terminating zero, into a buffer of the caller with \<open>cap\<close> bytes. The digits
  are written over the prefix \<^verbatim>\<open>0x\<close>; for the length 0 the buffer is left as it is.
\<close>

definition copyVSAAttrValue_TTLS :: "nat \<Rightarrow> string \<Rightarrow> int \<Rightarrow> string result" where
  "copyVSAAttrValue_TTLS cap src len =
     (if len \<le> 0 then Inl Uninit
      else guard (len \<le> int (length src)) OutOfBounds
             (guard (2 * len + 1 \<le> int cap) BufferOverflow (Inr (concat (map hex2 (take (nat len) src))))))"

definition put_ppaq :: "string \<Rightarrow> tUser \<Rightarrow> wpa_ssid \<Rightarrow> (bool \<times> wpa_ssid) result" where
  "put_ppaq reason u ssid =
     rbind (tUserGetPPAQLength u) (\<lambda>n.
       if n = 0 then Inr (False, ssid)
       else rbind (tUserGetPPAQ u) (\<lambda>d.
            rbind (copyVSAAttrValue_TTLS 128 d n) (\<lambda>h.
            guard (length h + length reason + 1 \<le> 128) BufferOverflow (Inr (True, ssid\<lparr>ss_ppaq := Some (h @ reason)\<rparr>)))))"

definition put_service :: "int \<Rightarrow> bool \<Rightarrow> wpa_ssid \<Rightarrow> wpa_ssid" where
  "put_service credit has_id ssid =
     ssid\<lparr>ss_servicetype := Some (if 2 \<le> credit then ServiceType_AuthorizeOnly_TTLS
                                 else if credit \<noteq> 1 \<and> has_id then ServiceType_AuthenticateOnly_TTLS else ServiceType_Framed_TTLS),
          ss_wimaxcapability := Some WIMAXCAPABILITY_TTLS\<rparr>"

text \<open>The result is whether the attributes are there: \<^term>\<open>False\<close> stands for -1.\<close>

definition ieee802_1x_put_wimax_vsa :: "wpa_ssid \<Rightarrow> tUser \<Rightarrow> int \<Rightarrow> (bool \<times> wpa_ssid) result" where
  "ieee802_1x_put_wimax_vsa ssid u credit =
     rbind (tUserGetNAI u) (\<lambda>_.
     rbind (tUserGetAAASessionIdLength u) (\<lambda>n.
     rbind (if n \<noteq> 0
            then rbind (tUserGetAAASessionId u) (\<lambda>d. rbind (copyVSAAttrValue_TTLS 32 d n) (\<lambda>h. Inr (Some (ssid\<lparr>ss_aaa_session_id := Some h\<rparr>))))
            else Inr (if 2 \<le> credit then None else Some ssid)) (\<lambda>r.
       case r of
         None \<Rightarrow> Inr (False, ssid)
       | Some s1 \<Rightarrow>
           let s2 = put_service credit (n \<noteq> 0) s1
           in if credit = 1 then Inr (True, s2\<lparr>ss_ppac := Some PPAC_TTLS, ss_session_termination_capability := Some SessionTerminationCapability_TTLS\<rparr>)
              else if credit = 2 then put_ppaq PPAQ_UpdateReason_QuotaReached u s2
              else if credit = 3 then put_ppaq PPAQ_UpdateReason_AccessServiceTerminated u s2
              else Inr (True, s2))))"

subsection \<open>The network blocks for EAP-TTLS and EAP-TLS\<close>

definition WAIT_FOR_ACK :: int where "WAIT_FOR_ACK = 0"
definition WAIT_FOR_RJ :: int where "WAIT_FOR_RJ = 1"
definition AUTHTYPE_EAPTLS :: int where "AUTHTYPE_EAPTLS = 10"

text \<open>
  The allocations of the configuration, of the block and of the methods return the null pointer; a block
  that cannot be added to the list of priorities is an error, as is a missing setting. The first
  component tells whether there is a configuration.
\<close>

definition alloc_config :: "rad_sys \<Rightarrow> rad \<Rightarrow> bool \<times> rad" where
  "alloc_config w s =
     (let (c, s1) = malloc w s
      in if \<not> c then (False, s1)
         else let (b, s2) = malloc w s1 in if \<not> b then (False, s2) else malloc w s2)"

definition wpa_config_network_set :: "rad_sys \<Rightarrow> ini \<Rightarrow> int \<Rightarrow> int \<Rightarrow> sup_static \<Rightarrow> rad \<Rightarrow> (wpa_ssid option \<times> sup_static \<times> rad) result" where
  "wpa_config_network_set w ini waitFor credit sv s =
     (let (ok, s1) = alloc_config w s
      in if \<not> ok then Inr (None, sv, s1)
         else rbind (tUserGetNAI (e_user s)) (\<lambda>n.
              rbind (if waitFor = WAIT_FOR_ACK then tUserGetPasswd (e_user s) else Inr ''badPasswd'') (\<lambda>pw.
              let sv1 = sv\<lparr>ca_cert := read_once ini ''ca_cert'' [] 256 (ca_cert sv), ca_path := read_once ini ''ca_path'' [] 256 (ca_path sv),
                           etp2 := read_once ini ''eap_ttls_phase2'' [] 256 (etp2 sv), ai := read_once ini ''anonymous_identity'' [] 256 (ai sv)\<rparr>;
                  b = (wpa_ssid0 ''client_EAP-TTLS'' n)\<lparr>ss_password := Some pw, ss_ca_cert := non_empty (ca_cert sv1), ss_ca_path := non_empty (ca_path sv1),
                           ss_phase2 := map_option (\<lambda>p. ''auth='' @ p) (non_empty (etp2 sv1)), ss_anonymous_identity := non_empty (ai sv1)\<rparr>
              in rbind (ieee802_1x_put_wimax_vsa b (e_user s) credit) (\<lambda>(wok, b1).
                 let (prio, s2) = malloc w s1;
                     good = ((ca_cert sv1 \<noteq> [] \<or> ca_path sv1 \<noteq> []) \<and> etp2 sv1 \<noteq> [] \<and> ai sv1 \<noteq> [] \<and> wok \<and> prio)
                 in Inr (if good then Some b1 else None, sv1, s2)))))"

text \<open>
  The names of the files of a certificate: \<^verbatim>\<open>sprintf\<close> into 128 bytes, with the last byte of the random address as two
  hexadecimal digits.
\<close>

definition cert_file :: "string \<Rightarrow> string \<Rightarrow> byte \<Rightarrow> string result" where
  "cert_file path name b =
     (let f = path @ name @ hex2 (char_of (unat b)) @ ''.pem'' in guard (length f < 128) BufferOverflow (Inr f))"

definition tls_files :: "ini \<Rightarrow> byte \<Rightarrow> sup_static \<Rightarrow> wpa_ssid \<Rightarrow> (bool \<times> wpa_ssid \<times> sup_static) result" where
  "tls_files ini addr sv b =
     (let pw = read_once ini ''private_key_passwd_tls_default'' [] 256 (private_key_passwd_tls_default sv)
      in if 0 < tls_certs_count sv \<and> tls_certs_parent_path sv \<noteq> []
         then rbind (cert_file (tls_certs_parent_path sv) ''client_cert'' addr) (\<lambda>c.
              rbind (cert_file (tls_certs_parent_path sv) ''privkey1_'' addr) (\<lambda>k.
                Inr (pw \<noteq> [], b\<lparr>ss_client_cert := Some c, ss_private_key := Some k, ss_private_key_passwd := non_empty pw\<rparr>,
                     sv\<lparr>private_key_passwd_tls_default := pw\<rparr>)))
         else let c = read_once ini ''client_cert_tls_default'' [] 256 (client_cert_tls_default sv);
                  k = read_once ini ''private_key_tls_default'' [] 256 (private_key_tls_default sv)
              in Inr (c \<noteq> [] \<and> k \<noteq> [] \<and> pw \<noteq> [],
                      b\<lparr>ss_client_cert := non_empty c, ss_private_key := non_empty k, ss_private_key_passwd := non_empty pw\<rparr>,
                      sv\<lparr>client_cert_tls_default := c, private_key_tls_default := k, private_key_passwd_tls_default := pw\<rparr>))"

text \<open>
  \<^verbatim>\<open>ProfileGetInt\<close> is called without a prototype and with one argument too many: its default value is the fourth
  argument, the address of an empty string, here \<open>lit\<close>.
\<close>

definition wpa_config_network_set_eaptls :: "rad_sys \<Rightarrow> ini \<Rightarrow> int \<Rightarrow> byte \<Rightarrow> sup_static \<Rightarrow> rad \<Rightarrow> (wpa_ssid option \<times> sup_static \<times> rad) result" where
  "wpa_config_network_set_eaptls w ini lit addr sv s =
     (let (ok, s1) = alloc_config w s
      in if \<not> ok then Inr (None, sv, s1)
         else rbind (tUserGetNAI (e_user s)) (\<lambda>n.
              let sv1 = sv\<lparr>servicetype_ols := read_once ini ''servicetype_ols'' ''2'' 16 (servicetype_ols sv),
                           wimaxcapability_ols := read_once ini ''wimaxcapability_ols'' [] 256 (wimaxcapability_ols sv),
                           ca_cert_tls := read_once ini ''ca_cert_tls'' [] 256 (ca_cert_tls sv),
                           tls_certs_count := (if tls_certs_count sv = -1 then ProfileGetInt ini ''Radius'' ''tls_certs_count'' lit else tls_certs_count sv),
                           tls_certs_parent_path := read_once ini ''tls_certs_parent_path'' [] 256 (tls_certs_parent_path sv)\<rparr>;
                  b = (wpa_ssid0 ''client_EAP-TLS'' n)\<lparr>ss_servicetype := non_empty (servicetype_ols sv1),
                           ss_wimaxcapability := non_empty (wimaxcapability_ols sv1), ss_ca_cert := non_empty (ca_cert_tls sv1)\<rparr>
              in rbind (tls_files ini addr sv1 b) (\<lambda>(fok, b1, sv2).
                 let (prio, s2) = malloc w s1
                 in Inr (if ca_cert_tls sv1 \<noteq> [] \<and> fok \<and> prio then Some b1 else None, sv2, s2))))"

subsection \<open>WiMAX attributes of a message (eapol_test.c)\<close>

definition RADIUS_VENDOR_ID_WIMAX :: nat where "RADIUS_VENDOR_ID_WIMAX = 24757"
definition RADIUS_VENDOR_ATTR_WIMAX_CAPABILITY :: byte where "RADIUS_VENDOR_ATTR_WIMAX_CAPABILITY = 1"
definition RADIUS_VENDOR_ATTR_AAA_SESSION_ID :: byte where "RADIUS_VENDOR_ATTR_AAA_SESSION_ID = 4"
definition RADIUS_VENDOR_ATTR_PPAC :: byte where "RADIUS_VENDOR_ATTR_PPAC = 35"
definition RADIUS_VENDOR_ATTR_SESSION_TERMINATION_CAPABILITY :: byte where "RADIUS_VENDOR_ATTR_SESSION_TERMINATION_CAPABILITY = 36"
definition RADIUS_VENDOR_ATTR_PPAQ :: byte where "RADIUS_VENDOR_ATTR_PPAQ = 37"

text \<open>Each pair of digits becomes a byte, as \<^verbatim>\<open>strtoul\<close> reads it after \<^verbatim>\<open>0x\<close>; a last single digit is dropped.\<close>

fun unhex :: "string \<Rightarrow> byte list" where
  "unhex (c # d # cs) = word_of_int (strtol16 [CHR ''0'', CHR ''x'', c, d]) # unhex cs"
| "unhex _ = []"

definition wimax_vsa :: "byte \<Rightarrow> string \<Rightarrow> byte list" where
  "wimax_vsa vendor_type v = be32 RADIUS_VENDOR_ID_WIMAX @ [vendor_type, of_nat (2 + length (unhex v))] @ unhex v"

definition radius_msg_add_wimax_vsa :: "mem \<Rightarrow> bool \<Rightarrow> byte \<Rightarrow> string \<Rightarrow> radius_msg \<Rightarrow> (bool \<times> radius_msg) result" where
  "radius_msg_add_wimax_vsa al ok vendor_type v m =
     (if \<not> ok then Inr (False, m)
      else rbind (radius_msg_add_attr al RADIUS_ATTR_VENDOR_SPECIFIC (wimax_vsa vendor_type v) m) (\<lambda>(r, m1). Inr (r \<noteq> None, m1)))"

end
