(* ===== verification/Tgen_Supplicant.thy ===== *)
theory Tgen_Supplicant
  imports Tgen_SupConf
begin

section \<open>Authentication with the EAPOL state machine (tsupplicant.c)\<close>

text \<open>
  \<^verbatim>\<open>tSupplicant_accessRq\<close>: the state of one authentication, the call-backs of the EAPOL state machine, the
  requests it sends and the answers it receives through the RADIUS client, the event loop, the result. The state
  machine (\<^verbatim>\<open>uma/Common/WpaSupplicant/eapol_sm.c\<close> and the EAP methods) is given by what it calls back; the theorems hold
  for all its behaviours. Log messages are left out.
\<close>

subsection \<open>Constants and arguments of an authentication\<close>

record sup_env =
  se_ini :: ini
  se_lit :: int
  se_secret :: "byte list"
  se_no_data :: bool

record sup_arg =
  a_conf :: rad_conf
  a_ssid :: wpa_ssid
  a_credit :: int
  a_own_ip :: "byte list"
  a_own_addr :: "byte list"
  a_stat :: request
  a_no_data :: bool

definition PMK_LEN :: nat where "PMK_LEN = 32"
definition EAP_CODE_REQUEST :: byte where "EAP_CODE_REQUEST = 1"
definition EAP_CODE_RESPONSE :: byte where "EAP_CODE_RESPONSE = 2"
definition EAP_CODE_FAILURE :: byte where "EAP_CODE_FAILURE = 4"
definition EAP_TYPE_IDENTITY :: byte where "EAP_TYPE_IDENTITY = 1"
definition EAPOL_VERSION :: byte where "EAPOL_VERSION = 2"
definition IEEE802_1X_TYPE_EAP_PACKET :: int where "IEEE802_1X_TYPE_EAP_PACKET = 0"
definition RADIUS_ATTR_USER_NAME :: byte where "RADIUS_ATTR_USER_NAME = 1"
definition RADIUS_ATTR_NAS_IP_ADDRESS :: byte where "RADIUS_ATTR_NAS_IP_ADDRESS = 4"
definition RADIUS_ATTR_SERVICE_TYPE :: byte where "RADIUS_ATTR_SERVICE_TYPE = 6"
definition RADIUS_ATTR_FRAMED_MTU :: byte where "RADIUS_ATTR_FRAMED_MTU = 12"
definition RADIUS_ATTR_CALLING_STATION_ID :: byte where "RADIUS_ATTR_CALLING_STATION_ID = 31"
definition RADIUS_ATTR_NAS_PORT_TYPE :: byte where "RADIUS_ATTR_NAS_PORT_TYPE = 61"
definition RADIUS_ATTR_CONNECT_INFO :: byte where "RADIUS_ATTR_CONNECT_INFO = 77"
definition RADIUS_NAS_PORT_TYPE_IEEE_802_11 :: nat where "RADIUS_NAS_PORT_TYPE_IEEE_802_11 = 19"
definition ctx_eapol :: int where "ctx_eapol = 1"

definition of_chars :: "string \<Rightarrow> byte list" where
  "of_chars cs = map (\<lambda>c. of_nat (of_char c)) cs"

text \<open>\<^verbatim>\<open>RADIUS_802_1X_ADDR_FORMAT\<close>: six upper-case bytes with hyphens.\<close>

definition HEX2 :: "byte \<Rightarrow> string" where
  "HEX2 b = map (\<lambda>n. char_of (if n < 10 then 48 + n else 55 + n)) [unat b div 16, unat b mod 16]"

definition addr_text :: "byte list \<Rightarrow> string" where
  "addr_text a = concat (map (\<lambda>b. HEX2 b @ ''-'') (butlast a)) @ HEX2 (List.last a)"

subsection \<open>Sending an EAP packet in a request\<close>

text \<open>The steps that build a message, up to the first that fails.\<close>

fun add_all :: "(radius_msg \<Rightarrow> (bool \<times> radius_msg) result) list \<Rightarrow> radius_msg \<Rightarrow> (bool \<times> radius_msg) result" where
  "add_all [] m = Inr (True, m)"
| "add_all (f # fs) m = rbind (f m) (\<lambda>(ok, m1). if ok then add_all fs m1 else Inr (False, m1))"

definition add_data :: "mem \<Rightarrow> byte \<Rightarrow> byte list \<Rightarrow> radius_msg \<Rightarrow> (bool \<times> radius_msg) result" where
  "add_data al type d m = rbind (radius_msg_add_attr al type d m) (\<lambda>(p, m1). Inr (p \<noteq> None, m1))"

definition add_vsa :: "mem \<Rightarrow> bool \<Rightarrow> byte \<Rightarrow> string option \<Rightarrow> radius_msg \<Rightarrow> (bool \<times> radius_msg) result" where
  "add_vsa al ok type v m = (case v of None \<Rightarrow> Inr (True, m) | Some h \<Rightarrow> radius_msg_add_wimax_vsa al ok type h m)"

text \<open>
  The State attribute: a copy of the one of the Access-Challenge that is answered; otherwise that of the user,
  when it has one or fast re-authentication is on.
\<close>

definition add_user_state :: "mem \<Rightarrow> rad \<Rightarrow> radius_msg \<Rightarrow> (bool \<times> radius_msg) result" where
  "add_user_state al s m =
     rbind (tUserGetStateAttribLength False (e_user s)) (\<lambda>n.
       if 0 \<le> e_num_reauths s \<or> 0 < n
       then rbind (tUserGetStateAttrib False (e_user s)) (\<lambda>d.
              guard (0 \<le> n \<and> n \<le> int (length d)) OutOfBounds (add_data al RADIUS_ATTR_STATE (of_chars (take (nat n) d)) m))
       else Inr (True, m))"

definition add_state :: "mem \<Rightarrow> rad \<Rightarrow> radius_msg \<Rightarrow> (bool \<times> radius_msg) result" where
  "add_state al s m =
     (case e_last_recv s of
        Some c \<Rightarrow>
          if hdr_code c = RADIUS_CODE_ACCESS_CHALLENGE
          then rbind (radius_msg_copy_attr al RADIUS_ATTR_STATE c m) (\<lambda>(r, m1). Inr (0 \<le> r, m1))
          else add_user_state al s m
      | None \<Rightarrow> add_user_state al s m)"

text \<open>\<^verbatim>\<open>strcmp\<close> with the service type of the block, which may be missing; its value, read as a hexadecimal number from a buffer of 20 bytes.\<close>

definition check_service :: "wpa_ssid \<Rightarrow> radius_msg \<Rightarrow> (bool \<times> radius_msg) result" where
  "check_service b m = (if ss_servicetype b = None then Inl NullDeref else Inr (True, m))"

definition add_service :: "mem \<Rightarrow> wpa_ssid \<Rightarrow> radius_msg \<Rightarrow> (bool \<times> radius_msg) result" where
  "add_service al b m =
     (case ss_servicetype b of
        None \<Rightarrow> Inr (True, m)
      | Some t \<Rightarrow> guard (length t \<le> 17) BufferOverflow
                   (radius_msg_add_attr_int32 al RADIUS_ATTR_SERVICE_TYPE (nat (strtol16 (''0x'' @ t) mod 2 ^ 32)) m))"

definition station_attrs :: "mem \<Rightarrow> sup_arg \<Rightarrow> byte list \<Rightarrow> (radius_msg \<Rightarrow> (bool \<times> radius_msg) result) list" where
  "station_attrs al arg eap =
     (if ss_servicetype (a_ssid arg) = Some ServiceType_AuthorizeOnly_TTLS then []
      else [add_data al RADIUS_ATTR_CALLING_STATION_ID (of_chars (addr_text (a_own_addr arg))),
            radius_msg_add_attr_int32 al RADIUS_ATTR_FRAMED_MTU 1400,
            radius_msg_add_attr_int32 al RADIUS_ATTR_NAS_PORT_TYPE RADIUS_NAS_PORT_TYPE_IEEE_802_11,
            add_data al RADIUS_ATTR_CONNECT_INFO (of_chars ''CONNECT 11Mbps 802.11b''),
            radius_msg_add_eap al (a_no_data arg) eap])"

definition vsa_attrs :: "mem \<Rightarrow> (nat \<Rightarrow> bool) \<Rightarrow> wpa_ssid \<Rightarrow> (radius_msg \<Rightarrow> (bool \<times> radius_msg) result) list" where
  "vsa_attrs al alloc b =
     [add_vsa al (alloc 0) RADIUS_VENDOR_ATTR_WIMAX_CAPABILITY (ss_wimaxcapability b),
      add_vsa al (alloc 1) RADIUS_VENDOR_ATTR_SESSION_TERMINATION_CAPABILITY (ss_session_termination_capability b),
      add_vsa al (alloc 2) RADIUS_VENDOR_ATTR_PPAC (ss_ppac b),
      add_vsa al (alloc 3) RADIUS_VENDOR_ATTR_AAA_SESSION_ID (ss_aaa_session_id b),
      add_vsa al (alloc 4) RADIUS_VENDOR_ATTR_PPAQ (ss_ppaq b)]"

definition build_request :: "mem \<Rightarrow> (nat \<Rightarrow> bool) \<Rightarrow> sup_arg \<Rightarrow> rad \<Rightarrow> byte list \<Rightarrow> radius_msg \<Rightarrow> (bool \<times> radius_msg) result" where
  "build_request al alloc arg s eap =
     add_all ((case e_identity s of None \<Rightarrow> [] | Some d \<Rightarrow> [add_data al RADIUS_ATTR_USER_NAME d])
              @ [add_data al RADIUS_ATTR_NAS_IP_ADDRESS (a_own_ip arg), check_service (a_ssid arg)]
              @ station_attrs al arg eap @ [add_state al s, add_service al (a_ssid arg)] @ vsa_attrs al alloc (a_ssid arg))"

text \<open>The identity is learned from an EAP-Response of that type.\<close>

definition learn_identity :: "rad_sys \<Rightarrow> byte list \<Rightarrow> rad \<Rightarrow> rad" where
  "learn_identity w eap s =
     (if 4 < length eap \<and> eap ! 0 = EAP_CODE_RESPONSE \<and> eap ! 4 = EAP_TYPE_IDENTITY
      then let (ok, s1) = malloc w s
           in s1\<lparr>e_identity := if ok then Some (drop 5 eap) else None, e_statType := RADIUS_AccessEapId_Rq\<rparr>
      else s)"

definition send_request :: "rad_sys \<Rightarrow> sup_arg \<Rightarrow> byte list \<Rightarrow> byte \<Rightarrow> rad \<Rightarrow> rad result" where
  "send_request w arg eap i s =
     (let (al, p, arr) = w_msg w (lp_tick s); s1 = tick s
      in case radius_msg_new p arr RADIUS_CODE_ACCESS_REQUEST i of
           None \<Rightarrow> Inr s1
         | Some m \<Rightarrow>
             let (tv, data, rnd) = w_noise w (lp_tick s1);
                 m1 = radius_msg_make_authenticator (w_junk w (lp_tick s1)) tv data rnd m;
                 s2 = learn_identity w eap (tick s1);
                 s3 = s2\<lparr>lp_tick := lp_tick s2 + 5\<rparr>
             in rbind (build_request al (\<lambda>j. w_malloc w (lp_tick s2 + j)) arg s2 eap m1) (\<lambda>(ok, m2).
                  if ok then rbind (radius_client_send (a_conf arg) w m2 RADIUS_AUTH (Some (a_own_addr arg)) s3) (\<lambda>(_, s4). Inr s4)
                  else Inr s3))"

definition eap_stat_type :: "wpa_ssid \<Rightarrow> request" where
  "eap_stat_type b = (if ss_ssid b = ''client_EAP-TLS'' then RADIUS_AccessEapTls_Rq else RADIUS_AccessEapTtls_Rq)"

definition ieee802_1x_encapsulate_radius :: "rad_sys \<Rightarrow> sup_arg \<Rightarrow> byte list \<Rightarrow> rad \<Rightarrow> rad result" where
  "ieee802_1x_encapsulate_radius w arg eap s =
     rbind (radius_client_get_id (w_ident w (lp_tick s)) (s\<lparr>e_statType := eap_stat_type (a_ssid arg), e_statRetries := 0\<rparr>)) (\<lambda>(i, _, s1).
       send_request w arg eap i ((tick s1)\<lparr>e_radius_identifier := i\<rparr>))"

subsection \<open>Call-backs of the state machine\<close>

definition eapol_test_eapol_send :: "rad_sys \<Rightarrow> sup_arg \<Rightarrow> int \<Rightarrow> byte list \<Rightarrow> rad \<Rightarrow> rad result" where
  "eapol_test_eapol_send w arg type buf s =
     (if type = IEEE802_1X_TYPE_EAP_PACKET then ieee802_1x_encapsulate_radius w arg buf s else Inr s)"

text \<open>
  Comparing the keys. \<^verbatim>\<open>no_mppe_keys\<close> is set to 1 at the start, so the comparison does not decide anything. The result is the
  \<^verbatim>\<open>int\<close> of the code: 1 for a mismatch.
\<close>

definition eapol_test_compare_pmk :: "rad_sys \<Rightarrow> rad \<Rightarrow> int \<times> rad" where
  "eapol_test_compare_pmk w s =
     (let match = (case w_key w (lp_tick s) PMK_LEN of
            Some pmk \<Rightarrow> pmk = e_pmk s
          | None \<Rightarrow> e_pmk_len s = 16 \<and> (case w_key w (Suc (lp_tick s)) 16 of Some pmk \<Rightarrow> pmk = take 16 (e_pmk s) | None \<Rightarrow> False));
          ret = (if match \<and> e_accept s then 0 else 1 :: int);
          ret2 = (if e_accept s then 0 else ret);
          s1 = tick (tick s)
      in (ret2, if ret2 \<noteq> 0 then s1\<lparr>e_num_mppe_mismatch := e_num_mppe_mismatch s1 + 1\<rparr> else s1))"

definition eapol_sm_cb :: "rad_sys \<Rightarrow> bool \<Rightarrow> rad \<Rightarrow> rad" where
  "eapol_sm_cb w success s =
     (let s1 = s\<lparr>e_num_reauths := e_num_reauths s - 1\<rparr>
      in if e_num_reauths s1 < 0 then tloop_terminate s1
         else snd (tloop_register_timeout w 0 100000 Eapol_sm_reauth ctx_eapol ctx_null (snd (eapol_test_compare_pmk w s1))))"

fun sm_actions :: "rad_sys \<Rightarrow> sup_arg \<Rightarrow> sm_action list \<Rightarrow> rad \<Rightarrow> rad result" where
  "sm_actions w arg [] s = Inr s"
| "sm_actions w arg (Eapol_send t b # as) s = rbind (eapol_test_eapol_send w arg t b s) (sm_actions w arg as)"
| "sm_actions w arg (Eapol_cb ok # as) s = sm_actions w arg as (eapol_sm_cb w ok s)"

definition eapol_sm_call :: "rad_sys \<Rightarrow> sup_arg \<Rightarrow> sm_event \<Rightarrow> rad \<Rightarrow> rad result" where
  "eapol_sm_call w arg ev s = sm_actions w arg (w_sm w (lp_tick s) ev) (tick s)"

text \<open>An EAP packet with the header of IEEE 802.1X.\<close>

definition eapol_frame :: "byte list \<Rightarrow> byte list" where
  "eapol_frame eap = [EAPOL_VERSION, 0] @ be16 (length eap) @ eap"

definition send_eap_request_identity :: "rad_sys \<Rightarrow> sup_arg \<Rightarrow> rad \<Rightarrow> rad result" where
  "send_eap_request_identity w arg =
     eapol_sm_call w arg (Sm_rx_eapol (eapol_frame ([EAP_CODE_REQUEST, 0] @ be16 5 @ [EAP_TYPE_IDENTITY])))"

definition stat_auth :: "request \<Rightarrow> u32 \<Rightarrow> rad \<Rightarrow> rad result" where
  "stat_auth q retry s =
     rbind (tStatActionTime q False (sint retry) (tStatTimeDelta (e_key s) 1 (e_tab s)) (tStatTimeDelta (e_key s) 0 (e_tab s)) (e_stat s)) (\<lambda>st.
       Inr (s\<lparr>e_stat := st\<rparr>))"

definition eapol_sm_reauth :: "rad_sys \<Rightarrow> sup_arg \<Rightarrow> rad \<Rightarrow> rad result" where
  "eapol_sm_reauth w arg s =
     (let s1 = stat_end w 1 (s\<lparr>e_accept := False\<rparr>)
      in rbind (server_of True s1) (\<lambda>(i, srv).
         rbind (stat_auth (a_stat arg) (srv_retransmissions srv) (upd_server_at True i (\<lambda>v. v\<lparr>srv_retransmissions := 0\<rparr>) s1)) (\<lambda>s2.
           send_eap_request_identity w arg (stat_begin w 1 s2))))"

definition eapol_test_timeout :: "rad \<Rightarrow> rad" where
  "eapol_test_timeout s = tloop_terminate (s\<lparr>e_auth_timed_out := True\<rparr>)"

subsection \<open>Answers of the server\<close>

definition ieee802_1x_get_keys :: "rad_sys \<Rightarrow> radius_msg \<Rightarrow> radius_msg \<Rightarrow> byte list \<Rightarrow> rad \<Rightarrow> rad result" where
  "ieee802_1x_get_keys w m req secret s =
     (let junk = w_junk w (lp_tick s); s1 = tick s
      in rbind (radius_msg_get_ms_keys junk secret req m) (\<lambda>(snd_key, rcv_key).
         rbind (if snd_key = None \<and> rcv_key = None then radius_msg_get_cisco_keys junk secret req m else Inr (snd_key, rcv_key)) (\<lambda>(_, k).
           case k of
             None \<Rightarrow> Inr s1
           | Some d \<Rightarrow> let n = min (length d) PMK_LEN in Inr (s1\<lparr>e_pmk_len := n, e_pmk := take n d @ drop n (e_pmk s1)\<rparr>))))"

text \<open>\<^verbatim>\<open>strcmp\<close> on two buffers that need not have a terminating zero: whether they differ, or a read past the end.\<close>

fun strcmp_raw :: "string \<Rightarrow> string \<Rightarrow> bool result" where
  "strcmp_raw (x # xs) (y # ys) = (if x \<noteq> y then Inr True else if x = CHR 0x00 then Inr False else strcmp_raw xs ys)"
| "strcmp_raw _ _ = Inl OutOfBounds"

text \<open>
  The session identifier of the answer replaces the one of the user. When there was another one, both are copied into buffers
  of 32 bytes for a message.
\<close>

definition store_aaa_id :: "byte list \<Rightarrow> tUser \<Rightarrow> tUser result" where
  "store_aaa_id d u =
     rbind (tUserGetAAASessionIdLength u) (\<lambda>n.
     rbind (if n = 0 then Inr False else rbind (tUserGetAAASessionId u) (\<lambda>old. strcmp_raw old (to_chars d))) (\<lambda>differs.
       guard (\<not> differs \<or> length d \<le> 32 \<and> n \<le> 32) BufferOverflow (tUserSetAAASessionId (to_chars d) (int (length d)) u)))"

definition ieee802_1x_get_wimax_vsa :: "radius_msg \<Rightarrow> int \<Rightarrow> tUser \<Rightarrow> (int \<times> tUser) result" where
  "ieee802_1x_get_wimax_vsa m credit u =
     rbind (tUserGetNAI u) (\<lambda>_.
     rbind (radius_msg_get_wimax_vsa m RADIUS_VENDOR_ID_WIMAX RADIUS_VENDOR_ATTR_AAA_SESSION_ID) (\<lambda>sid.
     rbind (case sid of
              Some d \<Rightarrow> rbind (store_aaa_id d u) (\<lambda>u1. Inr (1, u1))
            | None \<Rightarrow> rbind (tUserSetAAASessionId [] 0 u) (\<lambda>u1. Inr (if credit = 1 then -1 else 1, u1))) (\<lambda>(rc, u1).
     rbind (radius_msg_get_wimax_vsa m RADIUS_VENDOR_ID_WIMAX RADIUS_VENDOR_ATTR_PPAQ) (\<lambda>q.
     rbind (if credit = 1 \<or> credit = 2
            then case q of
                   Some d \<Rightarrow> rbind (tUserSetPPAQ (to_chars d) (int (length d)) u1) (\<lambda>u2. Inr (rc, u2))
                 | None \<Rightarrow> rbind (tUserSetPPAQ [] 0 u1) (\<lambda>u2. Inr (-2, u2))
            else Inr (rc, u1)) (\<lambda>(rc2, u2).
       if credit = 3 then rbind (tUserSetAAASessionId [] 0 u2) (\<lambda>u3. rbind (tUserSetPPAQ [] 0 u3) (\<lambda>u4. Inr (rc2, u4)))
       else Inr (rc2, u2))))))"

definition ieee802_1x_decapsulate_radius :: "rad_sys \<Rightarrow> sup_arg \<Rightarrow> rad \<Rightarrow> rad result" where
  "ieee802_1x_decapsulate_radius w arg s =
     (case e_last_recv s of
        None \<Rightarrow> Inr s
      | Some m \<Rightarrow>
          let (alloc, s1) = malloc w s
          in rbind (radius_msg_get_eap alloc m) (\<lambda>r. case r of
                 None \<Rightarrow> Inr (s1\<lparr>e_last_eap := None\<rparr>)
               | Some eap \<Rightarrow>
                   if length eap < 4 then Inr s1
                   else let s2 = (if eap ! 0 = EAP_CODE_FAILURE then tloop_terminate s1 else s1);
                            (ok, s3) = malloc w (s2\<lparr>e_last_eap := Some eap\<rparr>)
                        in guard ok AssertFail (eapol_sm_call w arg (Sm_rx_eapol (eapol_frame eap)) s3)))"

text \<open>An Access-Reject without EAP-Message and Message-Authenticator is taken unverified, and so is every answer when the credit action is 2 or 3.\<close>

definition accept_answer :: "rad_sys \<Rightarrow> int \<Rightarrow> radius_msg \<Rightarrow> radius_msg \<Rightarrow> byte list \<Rightarrow> rad \<Rightarrow> (bool \<times> radius_msg \<times> rad) result" where
  "accept_answer w credit m req secret s =
     rbind (if hdr_code m = RADIUS_CODE_ACCESS_REJECT
            then rbind (radius_msg_get_attr m RADIUS_ATTR_MESSAGE_AUTHENTICATOR None) (\<lambda>(a, _).
                   if a < 0 then rbind (radius_msg_get_attr m RADIUS_ATTR_EAP_MESSAGE None) (\<lambda>(b, _). Inr (b < 0)) else Inr False)
            else Inr False) (\<lambda>bare.
       if bare \<or> \<not> credit < 2 then Inr (True, m, s)
       else rbind (radius_msg_verify (w_junk w (lp_tick s)) secret (Some req) True m) (\<lambda>(bad, m1). Inr (\<not> bad, m1, tick s)))"

definition check_avps :: "int \<Rightarrow> radius_msg \<Rightarrow> rad \<Rightarrow> rad result" where
  "check_avps credit m s =
     (if hdr_code m = RADIUS_CODE_ACCESS_ACCEPT \<and> (credit = 1 \<or> credit = 2)
      then rbind (ieee802_1x_get_wimax_vsa m credit (e_user s)) (\<lambda>(rc, u).
             let s1 = s\<lparr>e_user := u\<rparr> in Inr (if rc \<le> 0 then s1\<lparr>e_no_avp := True\<rparr> else s1))
      else Inr s)"

definition take_answer :: "rad_sys \<Rightarrow> radius_msg \<Rightarrow> radius_msg \<Rightarrow> byte list \<Rightarrow> rad \<Rightarrow> rad result" where
  "take_answer w m req secret s =
     (let s1 = s\<lparr>e_radius_identifier := -1, e_last_recv := Some m\<rparr>
      in if hdr_code m = RADIUS_CODE_ACCESS_ACCEPT then ieee802_1x_get_keys w m req secret (s1\<lparr>e_accept := True\<rparr>)
         else if hdr_code m = RADIUS_CODE_ACCESS_REJECT then Inr (s1\<lparr>e_reject := True\<rparr>) else Inr s1)"

definition deliver_answer :: "rad_sys \<Rightarrow> sup_arg \<Rightarrow> radius_msg \<Rightarrow> radius_msg \<Rightarrow> byte list \<Rightarrow> rad \<Rightarrow> rad result" where
  "deliver_answer w arg m req secret s =
     rbind (take_answer w m req secret s) (\<lambda>s1.
     rbind (ieee802_1x_decapsulate_radius w arg s1) (\<lambda>s2.
       Inr (if hdr_code m = RADIUS_CODE_ACCESS_ACCEPT \<and> e_num_reauths s2 < 0 \<or> hdr_code m = RADIUS_CODE_ACCESS_REJECT
            then tloop_terminate s2 else s2)))"

definition known_code :: "radius_msg \<Rightarrow> bool" where
  "known_code m \<longleftrightarrow> hdr_code m = RADIUS_CODE_ACCESS_ACCEPT \<or> hdr_code m = RADIUS_CODE_ACCESS_REJECT \<or> hdr_code m = RADIUS_CODE_ACCESS_CHALLENGE"

definition ieee802_1x_receive_auth :: "rad_sys \<Rightarrow> sup_arg \<Rightarrow> rx_handler" where
  "ieee802_1x_receive_auth w arg m req secret s =
     rbind (accept_answer w (a_credit arg) m req secret s) (\<lambda>(ok, m1, s1).
       if \<not> ok then Inr (RADIUS_RX_UNKNOWN, s1)
       else rbind (check_avps (a_credit arg) m1 s1) (\<lambda>s2.
         if \<not> known_code m1 then Inr (RADIUS_RX_UNKNOWN, s2)
         else rbind (deliver_answer w arg m1 req secret s2) (\<lambda>s3. Inr (RADIUS_RX_QUEUED, s3))))"

subsection \<open>The handlers of the event loop\<close>

definition timeout_handler :: "rad_sys \<Rightarrow> sup_arg \<Rightarrow> timer_handler tloop_timeout \<Rightarrow> rad \<Rightarrow> rad result" where
  "timeout_handler w arg t s =
     (case to_handler t of
        Radius_client_timer \<Rightarrow> radius_client_timer (a_conf arg) w s
      | Radius_retry_primary_timer \<Rightarrow> radius_retry_primary_timer (a_conf arg) w s
      | Eapol_test_timeout \<Rightarrow> Inr (eapol_test_timeout s)
      | Eapol_sm_reauth \<Rightarrow> eapol_sm_reauth w arg s)"

definition read_handler :: "rad_sys \<Rightarrow> sup_arg \<Rightarrow> RadiusType tloop_sock \<Rightarrow> rad \<Rightarrow> rad result" where
  "read_handler w arg r s = radius_client_receive w [ieee802_1x_receive_auth w arg] [] (rs_handler r) s"

subsection \<open>The authentication\<close>

text \<open>
  \<^verbatim>\<open>wpa_init_conf\<close>: one server with the shared secret, the client, and the registration of the handler. The flag \<open>lp\<close> tells whether
  there is an event loop: without one, the initialisation of the client uses the null pointer.
\<close>

definition new_server :: "byte list \<Rightarrow> radius_server" where
  "new_server secret = \<lparr>srv_inet = True, srv_secret = secret, srv_round_trip_time = 0, srv_requests = 0, srv_retransmissions = 0,
     srv_access_accepts = 0, srv_access_rejects = 0, srv_access_challenges = 0, srv_responses = 0, srv_malformed_responses = 0,
     srv_bad_authenticators = 0, srv_timeouts = 0, srv_unknown_types = 0\<rparr>"

definition radius_client_register :: "rad_sys \<Rightarrow> rad \<Rightarrow> int \<times> rad" where
  "radius_client_register w s = (let (ok, s1) = malloc w s in (if ok then 0 else -1, s1))"

definition wpa_init_conf :: "rad_sys \<Rightarrow> rad_conf \<Rightarrow> byte list \<Rightarrow> bool \<Rightarrow> rad \<Rightarrow> rad result" where
  "wpa_init_conf w cf secret lp s =
     (let (c, s1) = malloc w s; (a, s2) = malloc w s1;
          s3 = s2\<lparr>rc_conf := \<lparr>auth_servers = [new_server secret], auth_server = Some 0, acct_servers = [], acct_server = None, retry_primary_interval = 0\<rparr>,
                  e_last_recv := None, e_last_eap := None, e_accept := False, e_reject := False, e_num_mppe_mismatch := 0, e_num_mppe_ok := 0,
                  e_identity := None, e_no_avp := False\<rparr>
      in guard (c \<and> a) AssertFail
           (if \<not> lp then Inl (if w_malloc w (lp_tick s3) then NullDeref else AssertFail)
            else rbind (radius_client_init cf w s3) (\<lambda>(ok, s4).
              guard ok AssertFail (let (r, s5) = radius_client_register w s4 in guard (r = 0) AssertFail (Inr s5)))))"

text \<open>\<^verbatim>\<open>test_eapol\<close>: the context, the state machine, its configuration, and the notifications. The result is 0 or -1.\<close>

definition test_eapol :: "rad_sys \<Rightarrow> sup_arg \<Rightarrow> rad \<Rightarrow> (int \<times> rad) result" where
  "test_eapol w arg s =
     (let (c, s1) = malloc w s
      in if \<not> c then Inr (-1, s1)
         else let (m, s2) = malloc w s1
              in if \<not> m then Inr (-1, s2)
                 else let (k, s3) = malloc w s2
                      in if \<not> k then Inr (-1, s3)
                         else rbind (eapol_sm_call w arg Sm_notify_config s3) (\<lambda>s4.
                              rbind (eapol_sm_call w arg (Sm_portValid False) s4) (\<lambda>s5.
                              rbind (eapol_sm_call w arg (Sm_portEnabled True) s5) (\<lambda>s6. Inr (0, s6)))))"

text \<open>The fresh structures: everything of the last authentication is gone, except the user, the thread and the statistics.\<close>

definition new_eapol_test :: "int \<Rightarrow> rad \<Rightarrow> rad" where
  "new_eapol_test sockFd s =
     s\<lparr>lp_readers := None, lp_timeout := [], lp_terminate := False, rc_msgs := [], rc_num_msgs := 0, e_socket := sockFd, e_auth_timed_out := False,
       e_num_reauths := 0, e_last_recv := None, e_last_eap := None, e_pmk := replicate PMK_LEN 0, e_pmk_len := 0, e_num_mppe_ok := 0,
       e_num_mppe_mismatch := 0, e_accept := False, e_reject := False, e_no_avp := False, e_identity := None, e_radius_identifier := 0, e_statType := SCE_Begin, e_statRetries := 0\<rparr>"

text \<open>The last byte of the address: 2, or a random one when there are certificates.\<close>

definition own_addr_last :: "rad_sys \<Rightarrow> int \<Rightarrow> rad \<Rightarrow> byte \<times> rad" where
  "own_addr_last w cnt s = (if cnt = 0 then (2, s) else (word_of_int (1 + w_rand w (lp_tick s) smod cnt), tick s))"

definition nas_ip :: "int \<Rightarrow> int \<Rightarrow> byte list result" where
  "nas_ip nas uid =
     guard (nas \<noteq> 0) DivByZero
       (Inr (be32 (unat (push_bit 24 127 OR (word_of_int (min 255 (uid smod nas + 1)) :: u32)))))"

definition int_range :: "int \<Rightarrow> bool" where
  "int_range n \<longleftrightarrow> - (2 ^ 31) \<le> n \<and> n < 2 ^ 31"

definition auth_timeout :: "rad_conf \<Rightarrow> bool \<Rightarrow> int result" where
  "auth_timeout cf fasteap =
     (let t = tcRadiusTimeout cf * tcRadiusRetries cf; t2 = (if fasteap then t * (tcRadiusFastReauth cf + 1) else t)
      in guard (int_range t \<and> int_range t2) IntOverflow (Inr t2))"

text \<open>The result of an authentication, from what has been recorded: first the errors, then the expected reject.\<close>

definition auth_result :: "int \<Rightarrow> int \<Rightarrow> rad \<Rightarrow> int" where
  "auth_result waitFor mismatch s =
     (let ret = (if e_auth_timed_out s \<or> e_reject s \<or> mismatch = 1 \<or> e_no_avp s then 1 else 0 :: int)
      in if ret = 1 then (if \<not> e_auth_timed_out s \<and> e_reject s \<and> waitFor = WAIT_FOR_RJ then 0 else 1)
         else if waitFor = WAIT_FOR_RJ \<and> \<not> e_reject s then 1 else 0)"

text \<open>The keys are compared only while there is no error.\<close>

definition compare_if_ok :: "rad_sys \<Rightarrow> rad \<Rightarrow> int \<times> rad" where
  "compare_if_ok w s = (if e_auth_timed_out s \<or> e_reject s then (0, s) else eapol_test_compare_pmk w s)"

text \<open>\<^verbatim>\<open>tSupplicant_abandon\<close>: the socket of the thread is replaced.\<close>

definition tSupplicant_abandon :: "rad_sys \<Rightarrow> rad \<Rightarrow> rad result" where
  "tSupplicant_abandon w s =
     (let fd = w_socket w (lp_tick s); s1 = (tick s)\<lparr>e_tab := (e_tab s)(e_key s := (e_tab s (e_key s))\<lparr>radSockFd := fd\<rparr>)\<rparr>
      in if fd < 0 then Inl (Exit 0) else Inr s1)"

definition finish_auth :: "rad_sys \<Rightarrow> int \<Rightarrow> rad \<Rightarrow> (int \<times> u32 \<times> rad) result" where
  "finish_auth w waitFor s =
     (let s1 = stat_end w 1 s; (mis, s2) = compare_if_ok w s1
      in rbind (server_of True s2) (\<lambda>(_, srv).
         let ret = auth_result waitFor mis s2; s3 = radius_client_deinit s2
         in rbind (tSupplicant_abandon w s3) (\<lambda>s4. Inr (ret, srv_retransmissions srv, s4))))"

text \<open>The state machine is started; the result is the number of seconds until the deadline, or \<^term>\<open>None\<close> when \<^verbatim>\<open>test_eapol\<close> fails.\<close>

definition begin_auth :: "rad_sys \<Rightarrow> sup_arg \<Rightarrow> bool \<Rightarrow> rad \<Rightarrow> (int option \<times> rad) result" where
  "begin_auth w arg fasteap s =
     rbind (test_eapol w arg s) (\<lambda>(r, s1).
       if r \<noteq> 0 then Inr (None, s1)
       else let s2 = s1\<lparr>e_num_reauths := if fasteap then tcRadiusFastReauth (a_conf arg) else -1\<rparr>
            in rbind (send_eap_request_identity w arg (stat_begin w 1 s2)) (\<lambda>s3.
               rbind (auth_timeout (a_conf arg) fasteap) (\<lambda>t. Inr (Some t, s3))))"

definition set_deadline :: "rad_sys \<Rightarrow> int \<Rightarrow> rad \<Rightarrow> rad" where
  "set_deadline w t s = snd (tloop_register_timeout w t 0 Eapol_test_timeout ctx_eapol ctx_null s)"

definition network_block :: "rad_sys \<Rightarrow> sup_env \<Rightarrow> int \<Rightarrow> int \<Rightarrow> int \<Rightarrow> byte \<Rightarrow> sup_static \<Rightarrow> rad \<Rightarrow> (wpa_ssid option \<times> sup_static \<times> rad) result" where
  "network_block w env waitFor aType credit b sv s =
     (if aType = AUTHTYPE_EAPTLS then wpa_config_network_set_eaptls w (se_ini env) (se_lit env) b sv s
      else wpa_config_network_set w (se_ini env) waitFor credit sv s)"

text \<open>
  Building the arguments: the address, the network block, the address of the access server. \<^term>\<open>None\<close> stands for a missing network
  block.
\<close>

definition prepare :: "rad_sys \<Rightarrow> sup_env \<Rightarrow> rad_conf \<Rightarrow> int \<Rightarrow> int \<Rightarrow> int \<Rightarrow> sup_static \<Rightarrow> rad \<Rightarrow> (sup_arg option \<times> sup_static \<times> rad) result" where
  "prepare w env cf waitFor aType credit sv s =
     (let cnt = (if tls_certs_count sv = -1 then ProfileGetInt (se_ini env) ''Radius'' ''tls_certs_count'' (se_lit env) else tls_certs_count sv);
          sv1 = sv\<lparr>tls_certs_count := cnt\<rparr>; (b, s1) = own_addr_last w cnt s
      in rbind (network_block w env waitFor aType credit b sv1 s1) (\<lambda>(conf, sv2, s2).
           case conf of
             None \<Rightarrow> Inr (None, sv2, s2)
           | Some ssid \<Rightarrow>
               rbind (nas_ip (tcRadiusNbNas cf) (priv_id (priv (e_user s2)))) (\<lambda>ip.
                 Inr (Some \<lparr>a_conf = cf, a_ssid = ssid, a_credit = credit, a_own_ip = ip, a_own_addr = [0, 0, 0, 0, 0, b],
                            a_stat = (if waitFor = WAIT_FOR_ACK then RADIUS_Auth_Rq else RADIUS_AuthWP_Rq), a_no_data = se_no_data env\<rparr>, sv2, s2))))"

text \<open>The result: the return value and the number of retransmissions, which is written only when the authentication was run.\<close>

definition tSupplicant_accessRq :: "rad_sys \<Rightarrow> sup_env \<Rightarrow> rad_conf \<Rightarrow> int \<Rightarrow> int \<Rightarrow> int \<Rightarrow> bool \<Rightarrow> int \<Rightarrow> sup_static \<Rightarrow> rad
    \<Rightarrow> (int \<times> u32 option \<times> sup_static \<times> rad) result option" where
  "tSupplicant_accessRq w env cf waitFor sockFd aType fasteap credit sv s =
     rseq (Some (tUserGetNAI (e_user s))) (\<lambda>_.
     let (ev, s1) = malloc w s; (ws, s2) = malloc w s1; (lp, s3) = malloc w s2
     in if \<not> ev \<or> \<not> ws then Some (Inl NullDeref)
        else rseq (Some (prepare w env cf waitFor aType credit sv (new_eapol_test sockFd s3))) (\<lambda>(oarg, sv1, s4).
             case oarg of
               None \<Rightarrow> Some (Inr (1, None, sv1, s4))
             | Some arg \<Rightarrow>
                 rseq (Some (wpa_init_conf w cf (se_secret env) lp s4)) (\<lambda>s5.
                 rseq (Some (begin_auth w arg fasteap s5)) (\<lambda>(ot, s6).
                   case ot of
                     None \<Rightarrow> Some (Inr (1, None, sv1, s6))
                   | Some t \<Rightarrow>
                       rseq (tloop_run w (timeout_handler w arg) (read_handler w arg) (set_deadline w t s6)) (\<lambda>s7.
                        Some (rbind (finish_auth w waitFor s7) (\<lambda>(ret, retries, s8). Inr (ret, Some retries, sv1, s8))))))))"

subsection \<open>Relations kept by the handlers\<close>

context client_rel
begin

lemma terminate_rel: "R s (tloop_terminate s)"
  by (rule r_quiet) (simp add: quiet_def tloop_terminate_def)

lemma malloc_rel: "malloc w' s = (ok, s') \<Longrightarrow> R s s'"
  using r_tick by (auto simp: malloc_def)

lemma learn_identity_rel: "R s (learn_identity w' eap s)"
  by (rule r_quiet) (simp add: quiet_def learn_identity_def malloc_def tick_def)

lemma send_request_rel:
  assumes "send_request w arg eap i s = Inr s'"
  shows "R s s'"
proof -
  define s2 where "s2 = learn_identity w eap (tick (tick s))"
  define s3 where "s3 = s2\<lparr>lp_tick := lp_tick s2 + 5\<rparr>"
  have a: "R s (tick s)" by (rule r_tick)
  also have "R (tick s) (tick (tick s))" by (rule r_tick)
  also have "R (tick (tick s)) s2" unfolding s2_def by (rule learn_identity_rel)
  also have "R s2 s3" by (rule r_quiet) (simp add: quiet_def s3_def)
  finally have b: "R s s3" .
  have "s' = tick s \<or> s' = s3 \<or> (\<exists>m q. radius_client_send (a_conf arg) w m RADIUS_AUTH (Some (a_own_addr arg)) s3 = Inr (q, s'))"
    using assms unfolding send_request_def Let_def s2_def [symmetric] s3_def [symmetric]
    by (auto simp del: rbind_eq_Inr simp: rbind_eq_Inr [of "build_request _ _ _ _ _ _"] rbind_eq_Inr [of "radius_client_send _ _ _ _ _ _"]
        split: option.splits prod.splits if_splits)
  then show ?thesis using a b client_send_rel r_trans by blast
qed

lemma encapsulate_rel:
  assumes "ieee802_1x_encapsulate_radius w arg eap s = Inr s'"
  shows "R s s'"
proof -
  define s0 where "s0 = s\<lparr>e_statType := eap_stat_type (a_ssid arg), e_statRetries := 0\<rparr>"
  obtain i id2 and s1 :: rad where st: "radius_client_get_id (w_ident w (lp_tick s)) s0 = Inr (i, id2, s1)"
      "send_request w arg eap i ((tick s1)\<lparr>e_radius_identifier := i\<rparr>) = Inr s'"
    using assms unfolding ieee802_1x_encapsulate_radius_def s0_def [symmetric] rbind_eq_Inr split_paired_Ex case_prod_conv by blast
  have "R s s0" by (rule r_quiet) (simp add: quiet_def s0_def)
  also have "R s0 s1" by (rule get_id_rel [OF st(1)])
  also have "R s1 ((tick s1)\<lparr>e_radius_identifier := i\<rparr>)" by (rule r_quiet) (simp add: quiet_def tick_def)
  also have "R \<dots> s'" by (rule send_request_rel [OF st(2)])
  finally show ?thesis .
qed

lemma compare_pmk_rel: "R s (snd (eapol_test_compare_pmk w' s))"
  by (rule r_quiet) (simp add: quiet_def eapol_test_compare_pmk_def Let_def tick_def)

lemma sm_cb_rel: "R s (eapol_sm_cb w ok s)"
proof -
  define s1 where "s1 = s\<lparr>e_num_reauths := e_num_reauths s - 1\<rparr>"
  have a: "R s s1" by (rule r_quiet) (simp add: quiet_def s1_def)
  have "R s1 (tloop_terminate s1)" by (rule terminate_rel)
  moreover have "R s1 (snd (tloop_register_timeout w 0 100000 Eapol_sm_reauth ctx_eapol ctx_null (snd (eapol_test_compare_pmk w s1))))"
    by (rule r_trans [OF compare_pmk_rel r_register])
  ultimately show ?thesis using r_trans [OF a] unfolding eapol_sm_cb_def s1_def [symmetric] Let_def by simp
qed

lemma sm_actions_rel: "sm_actions w arg as s = Inr s' \<Longrightarrow> R s s'"
proof (induction as arbitrary: s)
  case (Cons a as)
  show ?case
  proof (cases a)
    case (Eapol_send t b)
    with Cons.prems obtain s1 where s1: "eapol_test_eapol_send w arg t b s = Inr s1" "sm_actions w arg as s1 = Inr s'" by auto
    have "R s s1" using s1(1) encapsulate_rel r_refl by (auto simp: eapol_test_eapol_send_def split: if_splits)
    then show ?thesis using Cons.IH [OF s1(2)] by (rule r_trans)
  next
    case (Eapol_cb ok)
    then show ?thesis using Cons r_trans [OF sm_cb_rel] by auto
  qed
qed (simp add: r_refl)

lemma sm_call_rel: "eapol_sm_call w arg ev s = Inr s' \<Longrightarrow> R s s'"
  unfolding eapol_sm_call_def using sm_actions_rel r_trans [OF r_tick] by blast

lemma identity_rel: "send_eap_request_identity w arg s = Inr s' \<Longrightarrow> R s s'"
  unfolding send_eap_request_identity_def by (rule sm_call_rel)

lemma stat_auth_rel: "stat_auth q n s = Inr s' \<Longrightarrow> R s s'"
  by (auto simp: stat_auth_def quiet_def intro!: r_quiet)

lemma upd_server_at_rel: "R s (upd_server_at au i f s)"
  by (rule r_quiet) (simp add: quiet_def upd_server_at_def Let_def)

lemma get_keys_rel: "ieee802_1x_get_keys w' m req sec s = Inr s' \<Longrightarrow> R s s'"
  by (rule r_quiet) (auto simp: quiet_def ieee802_1x_get_keys_def Let_def tick_def split: option.splits)

lemma decapsulate_rel:
  assumes "ieee802_1x_decapsulate_radius w arg s = Inr s'"
  shows "R s s'"
proof (cases "e_last_recv s")
  case None
  then show ?thesis using assms r_refl by (simp add: ieee802_1x_decapsulate_radius_def)
next
  case (Some m)
  define t where "t eap = tick ((if eap ! 0 = EAP_CODE_FAILURE then tloop_terminate (tick s) else tick s)\<lparr>e_last_eap := Some eap\<rparr>)" for eap
  have b: "R s (t eap)" for eap by (rule r_quiet) (simp add: quiet_def t_def tloop_terminate_def tick_def)
  have a: "R s (tick s)" "R s ((tick s)\<lparr>e_last_eap := None\<rparr>)" by (rule r_quiet, simp add: quiet_def tick_def)+
  have "s' = tick s \<or> s' = (tick s)\<lparr>e_last_eap := None\<rparr> \<or> (\<exists>eap. eapol_sm_call w arg (Sm_rx_eapol (eapol_frame eap)) (t eap) = Inr s')"
    using assms unfolding ieee802_1x_decapsulate_radius_def Some option.case Let_def malloc_def case_prod_conv t_def
    by (auto simp: guard_def split: option.splits if_splits)
  then show ?thesis using a r_trans [OF b sm_call_rel] by blast
qed

lemma check_avps_rel:
  assumes c: "check_avps c m s = Inr s'"
  shows "R s s'"
proof (cases "hdr_code m = RADIUS_CODE_ACCESS_ACCEPT \<and> (c = 1 \<or> c = 2)")
  case True
  have "\<exists>x. ieee802_1x_get_wimax_vsa m c (e_user s) = Inr x \<and>
      (case x of (rc, u) \<Rightarrow> let s1 = s\<lparr>e_user := u\<rparr> in Inr (if rc \<le> 0 then s1\<lparr>e_no_avp := True\<rparr> else s1)) = (Inr s' :: rad result)"
    using c unfolding check_avps_def if_P [OF True] rbind_eq_Inr .
  then obtain rc u where "(let s1 = s\<lparr>e_user := u\<rparr> in Inr (if rc \<le> (0 :: int) then s1\<lparr>e_no_avp := True\<rparr> else s1)) = (Inr s' :: rad result)"
    unfolding split_paired_Ex case_prod_conv by blast
  then have e: "s' = (if rc \<le> 0 then s\<lparr>e_user := u, e_no_avp := True\<rparr> else s\<lparr>e_user := u\<rparr>)"
    unfolding Let_def by (simp only: sum.inject)
  show ?thesis unfolding e by (rule r_quiet) (simp add: quiet_def)
next
  case False
  have "s' = s" using c unfolding check_avps_def if_not_P [OF False] by simp
  then show ?thesis by (simp add: r_refl)
qed

lemma accept_answer_rel: "accept_answer w' c m req sec s = Inr (ok, m1, s') \<Longrightarrow> R s s'"
  by (rule r_quiet) (auto simp: quiet_def accept_answer_def tick_def split: if_splits)

lemma test_timeout_rel: "R s (eapol_test_timeout s)"
  by (rule r_quiet) (simp add: quiet_def eapol_test_timeout_def tloop_terminate_def)

end

text \<open>Relations that do not speak about the Access-Accept are kept by the handlers of the event loop too.\<close>

locale sup_rel = client_rel +
  assumes r_accept: "R s (s\<lparr>e_accept := b\<rparr>)"
begin

lemma reauth_rel:
  assumes "eapol_sm_reauth w arg s = Inr s'"
  shows "R s s'"
proof -
  define s1 where "s1 = stat_end w 1 (s\<lparr>e_accept := False\<rparr>)"
  obtain i and srv :: radius_server and s2 :: rad where st: "stat_auth (a_stat arg) (srv_retransmissions srv) (upd_server_at True i (\<lambda>v. v\<lparr>srv_retransmissions := 0\<rparr>) s1) = Inr s2"
      "send_eap_request_identity w arg (stat_begin w 1 s2) = Inr s'"
    using assms unfolding eapol_sm_reauth_def s1_def [symmetric] Let_def rbind_eq_Inr split_paired_Ex case_prod_conv by blast
  have "R s (s\<lparr>e_accept := False\<rparr>)" by (rule r_accept)
  also have "R \<dots> s1" unfolding s1_def by (rule stat_rel)
  also have "R s1 (upd_server_at True i (\<lambda>v. v\<lparr>srv_retransmissions := 0\<rparr>) s1)" by (rule upd_server_at_rel)
  also have "R \<dots> s2" by (rule stat_auth_rel [OF st(1)])
  also have "R s2 (stat_begin w 1 s2)" by (rule stat_rel)
  also have "R \<dots> s'" by (rule identity_rel [OF st(2)])
  finally show ?thesis .
qed

lemma take_answer_rel: "take_answer w m req sec s = Inr s' \<Longrightarrow> R s s'"
proof -
  assume t: "take_answer w m req sec s = Inr s'"
  define s1 where "s1 = s\<lparr>e_radius_identifier := -1, e_last_recv := Some m\<rparr>"
  have a: "R s s1" "R s (s1\<lparr>e_reject := True\<rparr>)" by (rule r_quiet, simp add: quiet_def s1_def)+
  have b: "R s (s1\<lparr>e_accept := True\<rparr>)" by (rule r_trans [OF a(1) r_accept])
  show ?thesis using t a r_trans [OF b] get_keys_rel unfolding take_answer_def s1_def [symmetric] Let_def by (auto split: if_splits)
qed

lemma deliver_rel:
  assumes "deliver_answer w arg m req sec s = Inr s'"
  shows "R s s'"
proof -
  obtain s1 s2 :: rad where st: "take_answer w m req sec s = Inr s1" "ieee802_1x_decapsulate_radius w arg s1 = Inr s2"
      "Inr (if hdr_code m = RADIUS_CODE_ACCESS_ACCEPT \<and> e_num_reauths s2 < 0 \<or> hdr_code m = RADIUS_CODE_ACCESS_REJECT
            then tloop_terminate s2 else s2) = (Inr s' :: rad result)"
    using assms unfolding deliver_answer_def rbind_eq_Inr by blast
  have "R s s2" by (rule r_trans [OF take_answer_rel [OF st(1)] decapsulate_rel [OF st(2)]])
  moreover have "s' = s2 \<or> s' = tloop_terminate s2" using st(3) by (simp split: if_splits)
  ultimately show ?thesis using r_trans terminate_rel by blast
qed

lemma receive_auth_rel:
  assumes "ieee802_1x_receive_auth w arg m req sec s = Inr (r, s')"
  shows "R s s'"
proof -
  obtain ok m1 and s1 :: rad where a: "accept_answer w (a_credit arg) m req sec s = Inr (ok, m1, s1)"
      and rest: "(if \<not> ok then Inr (RADIUS_RX_UNKNOWN, s1)
       else rbind (check_avps (a_credit arg) m1 s1) (\<lambda>s2. if \<not> known_code m1 then Inr (RADIUS_RX_UNKNOWN, s2)
         else rbind (deliver_answer w arg m1 req sec s2) (\<lambda>s3. Inr (RADIUS_RX_QUEUED, s3)))) = Inr (r, s')"
    using assms unfolding ieee802_1x_receive_auth_def rbind_eq_Inr [of "accept_answer _ _ _ _ _ _"] split_paired_Ex case_prod_conv by blast
  have r1: "R s s1" by (rule accept_answer_rel [OF a])
  have "s' = s1 \<or> (\<exists>s2. check_avps (a_credit arg) m1 s1 = Inr s2 \<and> (s' = s2 \<or> deliver_answer w arg m1 req sec s2 = Inr s'))"
    using rest by (auto split: if_splits)
  then have "R s1 s'" using check_avps_rel deliver_rel r_trans r_refl by blast
  then show ?thesis by (rule r_trans [OF r1])
qed

lemma receive_auth_ok: "handlers_ok [ieee802_1x_receive_auth w arg]" "handlers_ok []"
  using receive_auth_rel by (auto simp: handlers_ok_def)

lemma read_handler_rel: "read_handler w arg r s = Inr s' \<Longrightarrow> R s s'"
  unfolding read_handler_def by (rule receive_rel [OF receive_auth_ok])

lemma timeout_handler_rel: "timeout_handler w arg t s = Inr s' \<Longrightarrow> R s s'"
  unfolding timeout_handler_def using client_timer_rel retry_primary_timer_rel test_timeout_rel reauth_rel by (cases "to_handler t") auto

lemma init_conf_rel:
  assumes "wpa_init_conf w cf sec lp s = Inr s'"
  shows "R s s'"
proof -
  define s3 where "s3 = (tick (tick s))\<lparr>rc_conf := \<lparr>auth_servers = [new_server sec], auth_server = Some 0, acct_servers = [], acct_server = None,
      retry_primary_interval = 0\<rparr>, e_last_recv := None, e_last_eap := None, e_accept := False, e_reject := False, e_num_mppe_mismatch := 0,
      e_num_mppe_ok := 0, e_identity := None, e_no_avp := False\<rparr>"
  have "R s (s3\<lparr>e_accept := e_accept s\<rparr>)" by (rule r_quiet) (simp add: quiet_def s3_def tick_def)
  moreover have "e_accept s3 = False" by (simp add: s3_def)
  then have "s3\<lparr>e_accept := e_accept s\<rparr>\<lparr>e_accept := False\<rparr> = s3" by (cases s3) simp
  ultimately have a: "R s s3" using r_trans r_accept [of "s3\<lparr>e_accept := e_accept s\<rparr>" False] by metis
  obtain s4 where "radius_client_init cf w s3 = Inr (True, s4)" "s' = tick s4"
    using assms unfolding wpa_init_conf_def malloc_def radius_client_register_def Let_def case_prod_conv s3_def [symmetric]
    by (auto simp: guard_def split: if_splits)
  then show ?thesis using r_trans [OF a r_trans [OF client_init_rel r_tick]] by blast
qed

lemma test_eapol_rel:
  assumes "test_eapol w arg s = Inr (r, s')"
  shows "R s s'"
proof -
  have t: "R s (tick s)" "R s (tick (tick s))" "R s (tick (tick (tick s)))" using r_tick r_trans by blast+
  have "s' \<in> {tick s, tick (tick s), tick (tick (tick s))} \<or> (\<exists>s4 s5. eapol_sm_call w arg Sm_notify_config (tick (tick (tick s))) = Inr s4
      \<and> eapol_sm_call w arg (Sm_portValid False) s4 = Inr s5 \<and> eapol_sm_call w arg (Sm_portEnabled True) s5 = Inr s')"
    using assms unfolding test_eapol_def malloc_def Let_def case_prod_conv by (auto split: if_splits)
  then show ?thesis using t sm_call_rel r_trans by blast
qed

lemma begin_auth_rel:
  assumes "begin_auth w arg f s = Inr (ot, s')"
  shows "R s s'"
proof -
  obtain r :: int and s1 :: rad where st: "test_eapol w arg s = Inr (r, s1)"
      "(if r \<noteq> 0 then Inr (None, s1)
       else let s2 = s1\<lparr>e_num_reauths := if f then tcRadiusFastReauth (a_conf arg) else -1\<rparr>
            in rbind (send_eap_request_identity w arg (stat_begin w 1 s2)) (\<lambda>s3.
               rbind (auth_timeout (a_conf arg) f) (\<lambda>t. Inr (Some t, s3)))) = Inr (ot, s')"
    using assms unfolding begin_auth_def rbind_eq_Inr [of "test_eapol _ _ _"] split_paired_Ex case_prod_conv by blast
  have a: "R s s1" by (rule test_eapol_rel [OF st(1)])
  show ?thesis
  proof (cases "r = 0")
    case False
    then show ?thesis using st(2) a by simp
  next
    case True
    define s2 where "s2 = s1\<lparr>e_num_reauths := if f then tcRadiusFastReauth (a_conf arg) else -1\<rparr>"
    have i: "send_eap_request_identity w arg (stat_begin w 1 s2) = Inr s'"
      using st(2) True unfolding s2_def by (auto simp: Let_def)
    have "R s1 s2" by (rule r_quiet) (simp add: quiet_def s2_def)
    also have "R s2 (stat_begin w 1 s2)" by (rule stat_rel)
    also have "R \<dots> s'" by (rule identity_rel [OF i])
    finally show ?thesis by (rule r_trans [OF a])
  qed
qed

end

end
