(* ===== verification/Tgen_SupAuth.thy ===== *)
theory Tgen_SupAuth
  imports Tgen_Supplicant
begin

section \<open>What an authentication guarantees\<close>

text \<open>
  The relations of \<^verbatim>\<open>Tgen_RadPending\<close> for the handlers of the event loop, and with them the properties of \<^verbatim>\<open>tSupplicant_accessRq\<close>: it
  returns, what its result says, when an Access-Accept is believed, that the list of pending requests stays well-formed.
\<close>

interpretation sdl: sup_rel w "keeps_deadline w D" for w D
  by unfold_locales (rule deadline_same; simp)

interpretation spd: sup_rel w keeps_pending for w
  by unfold_locales (rule pending_same; simp)

subsection \<open>The authentication returns\<close>

definition auth_deadline :: "timeval \<Rightarrow> timer_handler tloop_timeout" where
  "auth_deadline tv = \<lparr>to_time = tv, to_data = ctx_eapol, to_user = ctx_null, to_handler = Eapol_test_timeout\<rparr>"

lemma deadline_auth: "clock_ok w \<Longrightarrow> keeps_deadline w (auth_deadline tv) s s' \<Longrightarrow> polite w (auth_deadline tv) s s'"
  by (simp add: keeps_deadline_def deadline_def auth_deadline_def)

interpretation al: tloop_client w "timeout_handler w arg" "read_handler w arg" "auth_deadline tv" for w :: rad_sys and arg tv
proof unfold_locales
  fix t r s s'
  assume ck: "clock_ok w"
  show "polite w (auth_deadline tv) s s'" if "timeout_handler w arg t s = Inr s'"
    by (rule deadline_auth [OF ck sdl.timeout_handler_rel [OF that]])
  show "polite w (auth_deadline tv) s s'" if "read_handler w arg r s = Inr s'"
    by (rule deadline_auth [OF ck sdl.read_handler_rel [OF that]])
  show "lp_terminate s' \<and> polite w (auth_deadline tv) s s'" if "timeout_handler w arg (auth_deadline tv) s = Inr s'"
    using that deadline_auth [OF ck sdl.timeout_handler_rel [OF that]]
    by (auto simp: timeout_handler_def auth_deadline_def eapol_test_timeout_def tloop_terminate_def)
qed

text \<open>A system whose clock goes on, whose \<^verbatim>\<open>select\<close> does not fail and which does not run out of memory.\<close>

definition live_sys :: "rad_sys \<Rightarrow> bool" where
  "live_sys w \<longleftrightarrow> clock_ok w \<and> (\<forall>t. \<exists>K. \<forall>j \<ge> K. \<not> tv_less (w_clock w j) t) \<and> (\<forall>k tv. w_select w k tv \<noteq> SelError) \<and> (\<forall>k. w_malloc w k)"

lemma register_deadline:
  assumes "live_sys w" "in_order (lp_timeout s)"
  obtains tv where "al.waiting w tv (set_deadline w t s)"
proof -
  define tv where "tv = tv_norm (fst (w_clock w (Suc (lp_tick s))) + t mod 2 ^ 32, snd (w_clock w (Suc (lp_tick s))))"
  have "lp_timeout (set_deadline w t s) = insert_timeout (auth_deadline tv) (lp_timeout s)"
    using assms(1) by (simp add: set_deadline_def tloop_register_timeout_def malloc_def gettimeofday_def live_sys_def auth_deadline_def tv_def Let_def)
  then have "al.waiting w tv (set_deadline w t s)"
    using assms in_order_insert [of "lp_timeout s"] by (simp add: al.waiting_def live_sys_def)
  then show thesis by (rule that)
qed

lemma kept_in_order:
  assumes "clock_ok w" "\<And>D. keeps_deadline w D s s'" "in_order (lp_timeout s)"
  shows "in_order (lp_timeout s')"
  using deadline_auth [OF assms(1) assms(2)] assms(3) by (simp add: polite_def)

lemma loop_returns:
  assumes "live_sys w" "al.waiting w tv s"
  shows "\<exists>r. tloop_run w (timeout_handler w arg) (read_handler w arg) s = Some r \<and> (\<forall>s'. r = Inr s' \<longrightarrow> lp_terminate s')"
proof -
  have "al.waiting w tv (tick s)" using assms(2) by (simp add: al.waiting_def)
  moreover have "\<exists>K. past w (auth_deadline tv) K" using assms(1) unfolding live_sys_def past_def by blast
  ultimately show ?thesis using al.returns [of w tv "tick s" arg] assms(1) by (simp add: live_sys_def tloop_run_def malloc_def)
qed

lemma alloc_config_quiet: "alloc_config w s = (ok, s') \<Longrightarrow> quiet s s'"
  by (auto simp: alloc_config_def malloc_def quiet_def tick_def Let_def split: if_splits)

lemma network_set_quiet:
  assumes "wpa_config_network_set w ini wait credit sv s = Inr (conf, sv', s')"
  shows "quiet s s'"
proof -
  obtain ok s1 where a: "alloc_config w s = (ok, s1)" by (metis surj_pair)
  have t: "quiet s (tick s1)" using alloc_config_quiet [OF a] by (simp add: quiet_def tick_def)
  show ?thesis
  proof (cases ok)
    case True
    have "s' = tick s1"
      using assms True unfolding wpa_config_network_set_def a Let_def case_prod_conv malloc_def rbind_eq_Inr split_paired_Ex
      by (simp only: not_True_eq_False if_False rbind_eq_Inr split_paired_Ex case_prod_conv) (elim exE conjE, simp only: sum.inject prod.inject)
    then show ?thesis using t by simp
  next
    case False
    then have "s' = s1" using assms unfolding wpa_config_network_set_def a Let_def case_prod_conv by (simp only: not_False_eq_True if_True sum.inject prod.inject)
    then show ?thesis using alloc_config_quiet [OF a] by simp
  qed
qed

lemma network_set_eaptls_quiet:
  assumes "wpa_config_network_set_eaptls w ini lit b sv s = Inr (conf, sv', s')"
  shows "quiet s s'"
proof -
  obtain ok s1 where a: "alloc_config w s = (ok, s1)" by (metis surj_pair)
  have t: "quiet s (tick s1)" using alloc_config_quiet [OF a] by (simp add: quiet_def tick_def)
  show ?thesis
  proof (cases ok)
    case True
    have "s' = tick s1"
      using assms True unfolding wpa_config_network_set_eaptls_def a Let_def case_prod_conv malloc_def rbind_eq_Inr split_paired_Ex
      by (simp only: not_True_eq_False if_False rbind_eq_Inr split_paired_Ex case_prod_conv) (elim exE conjE, simp only: sum.inject prod.inject)
    then show ?thesis using t by simp
  next
    case False
    then have "s' = s1" using assms unfolding wpa_config_network_set_eaptls_def a Let_def case_prod_conv by (simp only: not_False_eq_True if_True sum.inject prod.inject)
    then show ?thesis using alloc_config_quiet [OF a] by simp
  qed
qed

lemma quiet_trans: "quiet s s1 \<Longrightarrow> quiet s1 s2 \<Longrightarrow> quiet s s2"
  by (simp add: quiet_def)

lemma prepare_quiet:
  assumes "prepare w env cf wait ty credit sv s = Inr (oarg, sv', s')"
  shows "quiet s s'"
proof -
  define cnt where "cnt = (if tls_certs_count sv = -1 then ProfileGetInt (se_ini env) ''Radius'' ''tls_certs_count'' (se_lit env) else tls_certs_count sv)"
  obtain b s1 where b: "own_addr_last w cnt s = (b, s1)" by (metis surj_pair)
  have q: "quiet s s1" using b by (auto simp: own_addr_last_def quiet_def tick_def split: if_splits)
  obtain conf sv2 and s2 :: rad where st: "network_block w env wait ty credit b (sv\<lparr>tls_certs_count := cnt\<rparr>) s1 = Inr (conf, sv2, s2)"
      and f: "conf = None \<longrightarrow> s' = s2" "\<And>x. conf = Some x \<Longrightarrow> s' = s2"
    using assms unfolding prepare_def cnt_def [symmetric] Let_def b case_prod_conv rbind_eq_Inr [of "network_block _ _ _ _ _ _ _ _"] split_paired_Ex
    by (auto split: option.splits)
  have "quiet s1 s2" using st network_set_quiet network_set_eaptls_quiet unfolding network_block_def by (metis (full_types))
  moreover have "s' = s2" using f by (cases conf) auto
  ultimately show ?thesis using quiet_trans [OF q] by simp
qed

lemma rseq_returns: "(\<And>x. m = Inr x \<Longrightarrow> \<exists>r. f x = Some r) \<Longrightarrow> \<exists>r. rseq (Some m) f = Some r"
  by (cases m) auto

lemma authentication_runs:
  assumes live: "live_sys w" and pr: "prepare w env cf wait ty credit sv (new_eapol_test fd s3) = Inr (oarg, sv1, s4)"
    and ic: "wpa_init_conf w cf sec lp s4 = Inr s5" and ba: "begin_auth w arg fasteap s5 = Inr (ot, s6)"
  shows "\<exists>r. tloop_run w (timeout_handler w arg) (read_handler w arg) (set_deadline w t s6) = Some r"
proof -
  have ck: "clock_ok w" using live by (simp add: live_sys_def)
  have "in_order (lp_timeout s4)" using prepare_quiet [OF pr] by (simp add: new_eapol_test_def quiet_def)
  then have o5: "in_order (lp_timeout s5)" by (rule kept_in_order [OF ck sdl.init_conf_rel [OF ic]])
  have "in_order (lp_timeout s6)" by (rule kept_in_order [OF ck sdl.begin_auth_rel [OF ba] o5])
  then obtain tv where "al.waiting w tv (set_deadline w t s6)" using register_deadline [OF live] by blast
  from loop_returns [OF live this] show ?thesis by blast
qed


subsection \<open>The result\<close>

lemma rseq_Inr: "rseq m f = Some (Inr y) \<longleftrightarrow> (\<exists>x. m = Some (Inr x) \<and> f x = Some (Inr y))"
  by (cases m) (auto simp: rseq_def split: sum.splits)

lemma deinit_flags:
  "e_accept (radius_client_deinit s) = e_accept s" "e_reject (radius_client_deinit s) = e_reject s"
  "e_auth_timed_out (radius_client_deinit s) = e_auth_timed_out s" "e_no_avp (radius_client_deinit s) = e_no_avp s"
  by (simp_all add: radius_client_deinit_def radius_client_flush_def cancel_client_timer_def tloop_cancel_timeout_def)

definition verdict :: "int \<Rightarrow> rad \<Rightarrow> bool" where
  "verdict waitFor s \<longleftrightarrow> \<not> e_auth_timed_out s \<and> (if waitFor = WAIT_FOR_RJ then e_reject s else e_accept s \<and> \<not> e_reject s \<and> \<not> e_no_avp s)"

lemma finish_auth_verdict:
  assumes "finish_auth w waitFor s = Inr (ret, n, s')"
  shows "ret = (if verdict waitFor s' then 0 else 1)"
proof -
  obtain mis s2 where c: "compare_if_ok w (stat_end w 1 s) = (mis, s2)" by (metis surj_pair)
  obtain s4 :: rad where st: "tSupplicant_abandon w (radius_client_deinit s2) = Inr s4" "ret = auth_result waitFor mis s2" "s' = s4"
    using assms unfolding finish_auth_def Let_def c case_prod_conv by auto
  have f: "e_accept s' = e_accept s2" "e_reject s' = e_reject s2" "e_auth_timed_out s' = e_auth_timed_out s2" "e_no_avp s' = e_no_avp s2"
    using st(1) by (auto simp: st(3) tSupplicant_abandon_def Let_def tick_def deinit_flags split: if_splits)
  have m: "e_auth_timed_out s2 \<or> e_reject s2 \<or> mis = (if e_accept s2 then 0 else 1)"
    using c by (auto simp: compare_if_ok_def eapol_test_compare_pmk_def Let_def tick_def split: if_splits)
  show ?thesis unfolding st(2) auth_result_def verdict_def f using m by (auto simp: Let_def split: if_splits)
qed

text \<open>
  C24. The result of an authentication that was run: an expected reject is a reject in time; otherwise an Access-Accept in time, no
  Access-Reject and, for the credit actions, the attributes. The keys of the two sides do not matter.
\<close>

theorem result_is_verdict:
  assumes "tSupplicant_accessRq w env cf waitFor sockFd aType fasteap credit sv s = Some (Inr (ret, Some n, sv', s'))"
  shows "ret = (if verdict waitFor s' then 0 else 1)"
proof -
  obtain s7 where "finish_auth w waitFor s7 = Inr (ret, n, s')"
    using assms unfolding tSupplicant_accessRq_def Let_def
    by (auto simp: rseq_Inr split: prod.splits if_splits option.splits)
  then show ?thesis by (rule finish_auth_verdict)
qed

subsection \<open>An Access-Accept is believed only when it is signed\<close>

lemma take_answer_accept: "take_answer w m req sec s = Inr s' \<Longrightarrow> e_accept s' \<Longrightarrow> \<not> e_accept s \<Longrightarrow> hdr_code m = RADIUS_CODE_ACCESS_ACCEPT"
  by (auto simp: take_answer_def Let_def split: if_splits)

lemma receive_auth_accept:
  assumes h: "ieee802_1x_receive_auth w arg m req sec s = Inr (r, s')" and c: "a_credit arg < 2" and a: "\<not> e_accept s" "e_accept s'"
  shows "\<exists>junk m1. radius_msg_verify junk sec (Some req) True m = Inr (False, m1) \<and> hdr_code m1 = RADIUS_CODE_ACCESS_ACCEPT"
proof -
  obtain ok m1 and s1 :: rad where st: "accept_answer w (a_credit arg) m req sec s = Inr (ok, m1, s1)"
      and rest: "(if \<not> ok then Inr (RADIUS_RX_UNKNOWN, s1)
       else rbind (check_avps (a_credit arg) m1 s1) (\<lambda>s2. if \<not> known_code m1 then Inr (RADIUS_RX_UNKNOWN, s2)
         else rbind (deliver_answer w arg m1 req sec s2) (\<lambda>s3. Inr (RADIUS_RX_QUEUED, s3)))) = Inr (r, s')"
    using h unfolding ieee802_1x_receive_auth_def rbind_eq_Inr [of "accept_answer _ _ _ _ _ _"] split_paired_Ex case_prod_conv by blast
  have s1: "\<not> e_accept s1" using ac.accept_answer_rel [OF st] a(1) by (simp add: keeps_accept_def)
  then have ok: ok using rest a(2) by (cases ok) auto
  obtain s2 where s2: "check_avps (a_credit arg) m1 s1 = Inr s2"
      "(if \<not> known_code m1 then Inr (RADIUS_RX_UNKNOWN, s2) else rbind (deliver_answer w arg m1 req sec s2) (\<lambda>s3. Inr (RADIUS_RX_QUEUED, s3))) = Inr (r, s')"
    using rest ok by auto
  have n2: "\<not> e_accept s2" using ac.check_avps_rel [OF s2(1)] s1 by (simp add: keeps_accept_def)
  then obtain s3 s4 where s3: "take_answer w m1 req sec s2 = Inr s3" "ieee802_1x_decapsulate_radius w arg s3 = Inr s4" "e_accept s4"
    using s2(2) a(2) by (auto simp: deliver_answer_def tloop_terminate_def split: if_splits)
  have "e_accept s3" using ac.decapsulate_rel [OF s3(2)] s3(3) by (simp add: keeps_accept_def)
  then have code: "hdr_code m1 = RADIUS_CODE_ACCESS_ACCEPT" by (rule take_answer_accept [OF s3(1) _ n2])
  have "radius_msg_verify (w_junk w (lp_tick s)) sec (Some req) True m = Inr (False, m1)" using st ok c code unfolding accept_answer_def
    by (auto simp: RADIUS_CODE_ACCESS_ACCEPT_def RADIUS_CODE_ACCESS_REJECT_def split: if_splits)
  then show ?thesis using code by blast
qed

lemma count_code_msgs: "count_code au m s = Inr s' \<Longrightarrow> rc_msgs s' = rc_msgs s"
  by (auto simp: count_code_def learn_class_def learn_state_def upd_server_def upd_server_at_def Let_def split: if_splits)

lemma upd_server_msgs: "upd_server au f s = Inr s' \<Longrightarrow> rc_msgs s' = rc_msgs s"
  by (auto simp: upd_server_def upd_server_at_def Let_def)

lemma process_answer_accept:
  assumes p: "process_answer w [ieee802_1x_receive_auth w arg] True m a x s = Inr s'" and acc: "\<not> e_accept s" "e_accept s'" and c: "a_credit arg < 2"
  shows "\<exists>junk m1. radius_msg_verify junk (ml_secret x) (Some (ml_msg x)) True m = Inr (False, m1) \<and> hdr_code m1 = RADIUS_CODE_ACCESS_ACCEPT"
proof -
  let ?f = "\<lambda>v. v\<lparr>srv_round_trip_time := round_trip (w_clock w (lp_tick s)) (ml_last_attempt x)\<rparr>"
  obtain s2 s3 s4 :: rad and r where st: "upd_server True ?f (tick s) = Inr s2" "stat_action False s2 = Inr s3"
      "rx_loop [ieee802_1x_receive_auth w arg] m x False ((unlink_entry a s3)\<lparr>rc_num_msgs := rc_num_msgs s3 - 1\<rparr>) = Inr (r, s4)"
      and fin: "(case r of None \<Rightarrow> Inr s4 | Some bad \<Rightarrow>
               rbind (upd_server True (\<lambda>v. if bad then v\<lparr>srv_bad_authenticators := srv_bad_authenticators v + 1\<rparr>
                                         else v\<lparr>srv_unknown_types := srv_unknown_types v + 1\<rparr>) s4) (stat_action True)) = Inr s'"
    using p unfolding process_answer_def gettimeofday_def Let_def case_prod_conv rbind_eq_Inr split_paired_Ex by blast
  have "e_accept s4 = e_accept s'"
    using fin ac.upd_server_rel ac.stat_action_rel by (cases r) (auto simp: keeps_accept_def)
  moreover have "e_accept s2 = e_accept s" using ac.upd_server_rel [OF st(1)] by (simp add: keeps_accept_def tick_def)
  moreover have "e_accept s3 = e_accept s2" using ac.stat_action_rel [OF st(2)] by (simp add: keeps_accept_def)
  moreover obtain q where "ieee802_1x_receive_auth w arg m (ml_msg x) (ml_secret x) ((unlink_entry a s3)\<lparr>rc_num_msgs := rc_num_msgs s3 - 1\<rparr>) = Inr (q, s4)"
    using st(3) by (auto split: if_splits)
  ultimately show ?thesis using receive_auth_accept [OF _ c] acc by (simp add: unlink_entry_def)
qed

text \<open>
  C17. Whatever arrives on the socket: an Access-Accept is recorded only when it answers a pending request with its identifier and is signed with the secret of that
  request, unless the credit action says that answers are not verified.
\<close>

theorem accept_is_signed:
  assumes h: "read_handler w arg r s = Inr s'" and t: "rs_handler r = RADIUS_AUTH" and c: "a_credit arg < 2" and acc: "\<not> e_accept s" "e_accept s'"
  shows "\<exists>d al p arr m a x junk m1. w_recv w (Suc (lp_tick s)) = Some d \<and> radius_msg_parse al p arr d = Inr (Some m) \<and> (a, x) \<in> set (rc_msgs s)
      \<and> hdr_identifier (ml_msg x) = hdr_identifier m \<and> radius_msg_verify junk (ml_secret x) (Some (ml_msg x)) True m = Inr (False, m1)
      \<and> hdr_code m1 = RADIUS_CODE_ACCESS_ACCEPT"
proof -
  define s1 where "s1 = stat_count (stat_end w 0 s)"
  have s1: "\<not> e_accept s1" "rc_msgs s1 = rc_msgs s" using acc(1) by (simp_all add: s1_def stat_count_def stat_end_def gettimeofday_def tick_def)
  obtain al p arr where g: "w_msg w (lp_tick (tick s1)) = (al, p, arr)" by (metis prod_cases3)
  have rec: "radius_client_receive w [ieee802_1x_receive_auth w arg] [] RADIUS_AUTH s = Inr s'" using h t by (simp add: read_handler_def)
  obtain d where d: "w_recv w (lp_tick s1) = Some d" "\<not> 3000 \<le> length d"
    using rec acc(2) s1(1) unfolding radius_client_receive_def Let_def s1_def [symmetric] by (auto simp: tick_def split: option.splits if_splits)
  have au: "(RADIUS_AUTH \<noteq> RADIUS_ACCT) = True" by simp
  obtain r1 where r1: "radius_msg_parse al p arr d = Inr r1"
      "(case r1 of None \<Rightarrow> upd_server True (\<lambda>v. v\<lparr>srv_malformed_responses := srv_malformed_responses v + 1\<rparr>) (tick (tick s1))
        | Some m \<Rightarrow> rbind (count_code True m (tick (tick s1))) (\<lambda>s4. case find (answers RADIUS_AUTH m) (rc_msgs s4) of None \<Rightarrow> stat_action True s4
             | Some (a, x) \<Rightarrow> process_answer w [ieee802_1x_receive_auth w arg] True m a x s4)) = Inr s'"
    using rec unfolding radius_client_receive_def Let_def s1_def [symmetric] d(1) option.case if_not_P [OF d(2)] g case_prod_conv
      rbind_eq_Inr [of "radius_msg_parse al p arr d"] au if_True by blast
  have "r1 \<noteq> None"
  proof
    assume "r1 = None"
    then have "keeps_accept (tick (tick s1)) s'" using r1(2) ac.upd_server_rel by simp
    then show False using acc(2) s1(1) by (simp add: keeps_accept_def tick_def)
  qed
  then obtain m s4 where m: "r1 = Some m" "count_code True m (tick (tick s1)) = Inr s4"
      "(case find (answers RADIUS_AUTH m) (rc_msgs s4) of None \<Rightarrow> stat_action True s4
             | Some (a, x) \<Rightarrow> process_answer w [ieee802_1x_receive_auth w arg] True m a x s4) = Inr s'" using r1(2) by auto
  have s4: "\<not> e_accept s4" "rc_msgs s4 = rc_msgs s"
    using ac.count_code_rel [OF m(2)] count_code_msgs [OF m(2)] s1 by (simp_all add: keeps_accept_def tick_def)
  obtain a x where f: "find (answers RADIUS_AUTH m) (rc_msgs s) = Some (a, x)"
    using m(3) s4 acc(2) ac.stat_action_rel by (cases "find (answers RADIUS_AUTH m) (rc_msgs s)") (auto simp: keeps_accept_def)
  then have ax: "(a, x) \<in> set (rc_msgs s)" "answers RADIUS_AUTH m (a, x)" by (auto simp: find_Some_iff)
  have "process_answer w [ieee802_1x_receive_auth w arg] True m a x s4 = Inr s'" using m(3) f s4(2) by simp
  from process_answer_accept [OF this s4(1) acc(2) c] obtain junk m1 where v: "radius_msg_verify junk (ml_secret x) (Some (ml_msg x)) True m = Inr (False, m1)"
      "hdr_code m1 = RADIUS_CODE_ACCESS_ACCEPT" by blast
  have "hdr_identifier (ml_msg x) = hdr_identifier m" "radius_msg_parse al p arr d = Inr (Some m)" using ax(2) r1(1) m(1) by (simp_all add: answers_def)
  moreover have "w_recv w (Suc (lp_tick s)) = Some d" using d(1) by (simp add: s1_def stat_count_def stat_end_def gettimeofday_def tick_def)
  ultimately show ?thesis using v ax(1) by (intro exI conjI)
qed

subsection \<open>A signed Access-Accept is taken\<close>

definition eap_answer :: "attr list \<Rightarrow> bool" where
  "eap_answer as \<longleftrightarrow> (\<forall>a \<in> set as. fst a \<in> {RADIUS_ATTR_EAP_MESSAGE, RADIUS_ATTR_MESSAGE_AUTHENTICATOR})"

lemma eap_answer_attrs: "eap_answer (eap_attrs d @ [(RADIUS_ATTR_MESSAGE_AUTHENTICATOR, sig)])"
  using eap_attrs_type [of _ d] by (auto simp: eap_answer_def)

lemma eap_answer_none:
  assumes "eap_answer as" "t \<noteq> RADIUS_ATTR_EAP_MESSAGE" "t \<noteq> RADIUS_ATTR_MESSAGE_AUTHENTICATOR"
  shows "map_of as t = None"
  using assms by (force simp: eap_answer_def map_of_eq_None_iff)

lemma eap_answer_vendor: "eap_answer as \<Longrightarrow> vendor_of v st as = None"
proof (induction as)
  case (Cons a as)
  then show ?case by (cases a) (auto simp: eap_answer_def RADIUS_ATTR_EAP_MESSAGE_def RADIUS_ATTR_MESSAGE_AUTHENTICATOR_def RADIUS_ATTR_VENDOR_SPECIFIC_def)
qed simp

lemma count_accept:
  assumes "view m h as" "eap_answer as" "hdr_code m = RADIUS_CODE_ACCESS_ACCEPT"
  shows "count_code True m s = upd_server True (\<lambda>v. v\<lparr>srv_access_accepts := srv_access_accepts v + 1\<rparr>) s"
proof -
  have "map_of as RADIUS_ATTR_CLASS = None" "map_of as RADIUS_ATTR_STATE = None"
    by (rule eap_answer_none [OF assms(2)]; simp add: RADIUS_ATTR_CLASS_def RADIUS_ATTR_STATE_def RADIUS_ATTR_EAP_MESSAGE_def RADIUS_ATTR_MESSAGE_AUTHENTICATOR_def)+
  then have "radius_msg_get_attr m RADIUS_ATTR_CLASS None = Inr (-1, [])" "radius_msg_get_attr m RADIUS_ATTR_STATE None = Inr (-1, [])"
    by (simp_all add: get_attr_view(2) [OF assms(1)])
  then have "learn_class m = Inr" "learn_state m = Inr" by (simp_all add: fun_eq_iff learn_class_def learn_state_def)
  then show ?thesis using assms(3) by (cases "upd_server True (\<lambda>v. v\<lparr>srv_access_accepts := srv_access_accepts v + 1\<rparr>) s") (simp_all add: count_code_def)
qed

lemma no_keys:
  assumes "view m h as" "eap_answer as"
  shows "ieee802_1x_get_keys w m req sec s = Inr (tick s)"
  using eap_answer_vendor [OF assms(2)] get_vendor_attr_view [OF assms(1)]
  by (simp add: ieee802_1x_get_keys_def radius_msg_get_ms_keys_def radius_msg_get_cisco_keys_def)

text \<open>A system in which memory does not run out and the state machine stays silent.\<close>

definition silent_sys :: "rad_sys \<Rightarrow> bool" where
  "silent_sys w \<longleftrightarrow> (\<forall>k. w_malloc w k) \<and> (\<forall>k ev. w_sm w k ev = []) \<and> (\<forall>k. length (w_junk w k) = 64)
     \<and> (\<forall>k. \<exists>al q. w_msg w k = (al, Some q, True) \<and> (\<forall>n. grow_arr al n))"

lemma receive_signed:
  assumes w: "silent_sys w" and c: "a_credit arg = 0"
    and v: "view m h as" "eap_answer as" "hdr_code m = RADIUS_CODE_ACCESS_ACCEPT" "radius_msg_get_eap True m = Inr (Some d)" "4 \<le> length d"
    and sig: "\<And>junk. length junk = 64 \<Longrightarrow> radius_msg_verify junk sec (Some req) True m = Inr (False, m)"
  shows "\<exists>s'. ieee802_1x_receive_auth w arg m req sec s = Inr (RADIUS_RX_QUEUED, s') \<and> e_accept s' \<and> rc_msgs s' = rc_msgs s
    \<and> (e_num_reauths s < 0 \<longrightarrow> lp_terminate s')"
proof -
  have a: "accept_answer w (a_credit arg) m req sec s = Inr (True, m, tick s)"
    using sig w v(3) c by (simp add: accept_answer_def silent_sys_def RADIUS_CODE_ACCESS_ACCEPT_def RADIUS_CODE_ACCESS_REJECT_def)
  have b: "check_avps (a_credit arg) m (tick s) = Inr (tick s)" using c by (simp add: check_avps_def)
  have k: "known_code m" using v(3) by (simp add: known_code_def)
  define s1 where "s1 = (tick s)\<lparr>e_radius_identifier := -1, e_last_recv := Some m, e_accept := True\<rparr>"
  have t: "take_answer w m req sec (tick s) = Inr (tick s1)" using v(3) no_keys [OF v(1,2)] by (simp add: take_answer_def Let_def s1_def)
  obtain s2 where d: "ieee802_1x_decapsulate_radius w arg (tick s1) = Inr s2" "e_accept s2" "rc_msgs s2 = rc_msgs s" "e_num_reauths s2 = e_num_reauths s"
    using w v(4,5) by (simp add: ieee802_1x_decapsulate_radius_def s1_def malloc_def tick_def silent_sys_def eapol_sm_call_def tloop_terminate_def Let_def guard_def)
  have "deliver_answer w arg m req sec (tick s) = Inr (if e_num_reauths s2 < 0 then tloop_terminate s2 else s2)"
    using t d(1) v(3) by (simp add: deliver_answer_def RADIUS_CODE_ACCESS_ACCEPT_def RADIUS_CODE_ACCESS_REJECT_def)
  then have "ieee802_1x_receive_auth w arg m req sec s = Inr (RADIUS_RX_QUEUED, if e_num_reauths s2 < 0 then tloop_terminate s2 else s2)"
    using a b k by (simp add: ieee802_1x_receive_auth_def)
  then show ?thesis using d by (simp add: tloop_terminate_def)
qed

definition can_count :: "rad \<Rightarrow> bool" where
  "can_count s \<longleftrightarrow> (\<exists>i. auth_server (rc_conf s) = Some i \<and> i < length (auth_servers (rc_conf s))) \<and> e_statType s \<noteq> SCE_End"

lemma can_count_server:
  assumes "can_count s"
  shows "\<exists>s'. upd_server True f s = Inr s' \<and> can_count s' \<and> rc_msgs s' = rc_msgs s \<and> lp_tick s' = lp_tick s \<and> e_num_reauths s' = e_num_reauths s"
  using assms by (auto simp: can_count_def upd_server_def server_of_def upd_server_at_def guard_def Let_def split: option.splits)

lemma can_count_stat:
  assumes "can_count s"
  shows "\<exists>s'. stat_action ko s = Inr s' \<and> rc_msgs s' = rc_msgs s \<and> e_num_reauths s' = e_num_reauths s"
  using assms by (auto simp: can_count_def stat_action_def tStatActionTime_def Let_def)

lemma process_signed:
  assumes cc: "can_count s" and one: "rc_msgs s = [(a, x)]"
    and h: "\<And>t. \<exists>t'. ieee802_1x_receive_auth w arg m (ml_msg x) (ml_secret x) t = Inr (RADIUS_RX_QUEUED, t') \<and> e_accept t' \<and> rc_msgs t' = rc_msgs t
      \<and> (e_num_reauths t < 0 \<longrightarrow> lp_terminate t')"
  shows "\<exists>s'. process_answer w [ieee802_1x_receive_auth w arg] True m a x s = Inr s' \<and> e_accept s' \<and> rc_msgs s' = [] \<and> (e_num_reauths s < 0 \<longrightarrow> lp_terminate s')"
proof -
  have "can_count (tick s)" using cc by (simp add: can_count_def tick_def)
  from can_count_server [OF this] obtain s2 where s2:
      "upd_server True (\<lambda>v. v\<lparr>srv_round_trip_time := round_trip (w_clock w (lp_tick s)) (ml_last_attempt x)\<rparr>) (tick s) = Inr s2"
      "can_count s2" "rc_msgs s2 = rc_msgs s" "e_num_reauths s2 = e_num_reauths s" by (auto simp: tick_def)
  obtain s3 where s3: "stat_action False s2 = Inr s3" "rc_msgs s3 = [(a, x)]" "e_num_reauths s3 = e_num_reauths s"
    using can_count_stat [OF s2(2)] s2(3,4) one by metis
  obtain t' where "ieee802_1x_receive_auth w arg m (ml_msg x) (ml_secret x) ((unlink_entry a s3)\<lparr>rc_num_msgs := rc_num_msgs s3 - 1\<rparr>) = Inr (RADIUS_RX_QUEUED, t')"
      "e_accept t'" "rc_msgs t' = []" "e_num_reauths s < 0 \<longrightarrow> lp_terminate t'"
    using h [of "(unlink_entry a s3)\<lparr>rc_num_msgs := rc_num_msgs s3 - 1\<rparr>"] s3(2,3) by (auto simp: unlink_entry_def)
  then show ?thesis using s2(1) s3(1) by (simp add: process_answer_def gettimeofday_def)
qed

lemma receive_taken:
  assumes w: "silent_sys w" and c: "a_credit arg = 0" and one: "rc_msgs s = [(a, x)]" "ml_type x = RADIUS_AUTH" and cc: "can_count s"
    and d: "w_recv w (Suc (lp_tick s)) = Some data" "length data < 3000" "4 \<le> length d"
    and p: "\<And>al q. \<forall>n. grow_arr al n \<Longrightarrow> \<exists>m h as. radius_msg_parse al (Some q) True data = Inr (Some m) \<and> view m h as \<and> eap_answer as
        \<and> hdr_code m = RADIUS_CODE_ACCESS_ACCEPT \<and> hdr_identifier m = hdr_identifier (ml_msg x) \<and> radius_msg_get_eap True m = Inr (Some d)
        \<and> (\<forall>junk. length junk = 64 \<longrightarrow> radius_msg_verify junk (ml_secret x) (Some (ml_msg x)) True m = Inr (False, m))"
    and r: "rs_handler r = RADIUS_AUTH"
  shows "\<exists>s'. read_handler w arg r s = Inr s' \<and> e_accept s' \<and> rc_msgs s' = [] \<and> (e_num_reauths s < 0 \<longrightarrow> lp_terminate s')"
proof -
  define s1 where "s1 = stat_count (stat_end w 0 s)"
  have s1: "rc_msgs s1 = [(a, x)]" "lp_tick s1 = Suc (lp_tick s)" "e_num_reauths s1 = e_num_reauths s" "can_count (tick (tick s1))"
    using one cc by (simp_all add: s1_def stat_count_def stat_end_def gettimeofday_def can_count_def tick_def)
  obtain al q where g: "w_msg w (lp_tick (tick s1)) = (al, Some q, True)" "\<forall>n. grow_arr al n" using w unfolding silent_sys_def by metis
  obtain m h as where m: "radius_msg_parse al (Some q) True data = Inr (Some m)" "view m h as" "eap_answer as"
        "hdr_code m = RADIUS_CODE_ACCESS_ACCEPT" "hdr_identifier m = hdr_identifier (ml_msg x)" "radius_msg_get_eap True m = Inr (Some d)"
        "\<And>junk. length junk = 64 \<Longrightarrow> radius_msg_verify junk (ml_secret x) (Some (ml_msg x)) True m = Inr (False, m)" using p [OF g(2)] by blast
  obtain s4 where s4: "count_code True m (tick (tick s1)) = Inr s4" "can_count s4" "rc_msgs s4 = [(a, x)]" "e_num_reauths s4 = e_num_reauths s"
    using can_count_server [OF s1(4)] count_accept [OF m(2,3,4)] s1(1,3) by (auto simp: tick_def)
  obtain s' where s': "process_answer w [ieee802_1x_receive_auth w arg] True m a x s4 = Inr s'" "e_accept s'" "rc_msgs s' = []"
      "e_num_reauths s < 0 \<longrightarrow> lp_terminate s'"
    using process_signed [OF s4(2,3) receive_signed [OF w c m(2,3,4,6) d(3) m(7)]] s4(4) by auto
  have "read_handler w arg r s = Inr s'"
    using r d(1,2) m(1,5) s4(1,3) s'(1) s1(2) one(2) g(1)
    by (simp add: read_handler_def radius_client_receive_def Let_def answers_def flip: s1_def)
  then show ?thesis using s' by blast
qed

lemma signed_accept:
  assumes w: "silent_sys w" "a_credit arg = 0" "rs_handler r = RADIUS_AUTH"
    and s: "rc_msgs s = [(a, x)]" "ml_type x = RADIUS_AUTH" "can_count s" "view (ml_msg x) hs bs" "length (ml_secret x) < 2 ^ 32"
    and srv: "near al c" "c \<le> p" "p < c + 2 ^ 31" "length junk = 64" "4 \<le> length d" "length d < 900"
    and m: "radius_msg_new (Some p) True RADIUS_CODE_ACCESS_ACCEPT (hdr_identifier (ml_msg x)) = Some m0" "radius_msg_add_eap al False d m0 = Inr (True, m1)"
      "radius_msg_finish_srv al junk (ml_secret x) (hdr_authenticator (ml_msg x)) m1 = Inr (0, m2)"
    and rcv: "w_recv w (Suc (lp_tick s)) = Some (take (rm_used m2) (rm_buf m2))"
  shows "\<exists>s'. read_handler w arg r s = Inr s' \<and> e_accept s' \<and> rc_msgs s' = [] \<and> (e_num_reauths s < 0 \<longrightarrow> lp_terminate s')"
proof (rule receive_taken [OF w(1,2) s(1,2,3) rcv _ srv(5) _ w(3)])
  have d: "d \<noteq> []" "length d \<le> 20000" using srv(5,6) by auto
  have "\<forall>n. grow_arr al n" using srv(1) by (simp add: near_def)
  from answer_delivered [OF srv(1,2,3) this d srv(4,4) s(5,4), of RADIUS_CODE_ACCESS_ACCEPT "hdr_identifier (ml_msg x)" 0]
  show "length (take (rm_used m2) (rm_buf m2)) < 3000" using m srv(6) by auto
  show "\<exists>m3 h as. radius_msg_parse al' (Some q) True (take (rm_used m2) (rm_buf m2)) = Inr (Some m3) \<and> view m3 h as \<and> eap_answer as
        \<and> hdr_code m3 = RADIUS_CODE_ACCESS_ACCEPT \<and> hdr_identifier m3 = hdr_identifier (ml_msg x) \<and> radius_msg_get_eap True m3 = Inr (Some d)
        \<and> (\<forall>junk. length junk = 64 \<longrightarrow> radius_msg_verify junk (ml_secret x) (Some (ml_msg x)) True m3 = Inr (False, m3))"
    if al': "\<forall>n. grow_arr al' n" for al' q
  proof -
    have del: "\<exists>m3 H sig. radius_msg_parse al' (Some q) True (take (rm_used m2) (rm_buf m2)) = Inr (Some m3)
        \<and> radius_msg_verify j (ml_secret x) (Some (ml_msg x)) True m3 = Inr (False, m3) \<and> hdr_code m3 = RADIUS_CODE_ACCESS_ACCEPT
        \<and> hdr_identifier m3 = hdr_identifier (ml_msg x) \<and> radius_msg_get_eap True m3 = Inr (Some d)
        \<and> view m3 H (eap_attrs d @ [(RADIUS_ATTR_MESSAGE_AUTHENTICATOR, sig)])" if "length j = 64" for j
      using answer_delivered [OF srv(1,2,3) al' d srv(4) that s(5,4), of RADIUS_CODE_ACCESS_ACCEPT "hdr_identifier (ml_msg x)" q] m by (auto; blast)
    from del [of "replicate 64 0"] obtain m3 H sig where m3: "radius_msg_parse al' (Some q) True (take (rm_used m2) (rm_buf m2)) = Inr (Some m3)"
        "hdr_code m3 = RADIUS_CODE_ACCESS_ACCEPT" "hdr_identifier m3 = hdr_identifier (ml_msg x)" "radius_msg_get_eap True m3 = Inr (Some d)"
        "view m3 H (eap_attrs d @ [(RADIUS_ATTR_MESSAGE_AUTHENTICATOR, sig)])" by auto
    moreover have "radius_msg_verify j (ml_secret x) (Some (ml_msg x)) True m3 = Inr (False, m3)" if "length j = 64" for j
      using del [OF that] m3(1) by auto
    ultimately show ?thesis using eap_answer_attrs by blast
  qed
qed

subsection \<open>An example\<close>

definition ex_user :: tUser where
  "ex_user = \<lparr>priv = \<lparr>priv_id = 7, priv_cnt = 0, lastTime = 0, exeState = exeState_RUNNING, lastSce = None\<rparr>, ldapE = None, cmdRes = None,
     auth = Some \<lparr>nai = ''u@r'', passwd = ''p'', authType = 8, stateAttrib = (\<lambda>_. replicate 160 CHR 0x00), stateAttribLength = (\<lambda>_. 0), K_aut = [], K_encr = [],
                  frId = None, aaa_session_id = replicate 32 CHR 0x00, aaa_session_idLength = 0, ppaq = replicate 128 CHR 0x00, ppaqLength = 0\<rparr>,
     sess = None\<rparr>"

definition ex_mem :: mem where
  "ex_mem = \<lparr>grow_buf = \<lambda>n. Some 0, grow_arr = \<lambda>n. True\<rparr>"

definition ex_sys :: "(nat \<Rightarrow> sm_event \<Rightarrow> sm_action list) \<Rightarrow> byte list option \<Rightarrow> rad_sys" where
  "ex_sys sm data = \<lparr>w_clock = (\<lambda>k. (int k, 0)), w_malloc = (\<lambda>_. True), w_select = (\<lambda>_ _. SelTimeout), w_send = (\<lambda>_. Sent), w_recv = (\<lambda>_. data),
     w_connect = (\<lambda>_. True), w_socket = (\<lambda>_. 5), w_msg = (\<lambda>_. (ex_mem, Some 0, True)), w_junk = (\<lambda>_. replicate 64 0), w_sm = sm,
     w_key = (\<lambda>_ _. None), w_ident = (\<lambda>_. 6), w_rand = (\<lambda>_. 0), w_noise = (\<lambda>_. ([], [], []))\<rparr>"

definition ex_req :: radius_msg where
  "ex_req = \<lparr>rm_addr = 0, rm_buf = 1 # 3 # replicate 1022 0, rm_used = 20, rm_attrs = [], rm_asize = 16\<rparr>"

definition ex_rad :: "(nat \<times> radius_msg_list) list \<Rightarrow> rad" where
  "ex_rad ms = \<lparr>lp_tick = 0, lp_readers = None, lp_timeout = [], lp_terminate = False,
     rc_conf = \<lparr>auth_servers = [new_server [5]], auth_server = Some 0, acct_servers = [], acct_server = None, retry_primary_interval = 0\<rparr>,
     rc_msgs = ms, rc_num_msgs = of_nat (length ms), rc_fresh = length ms, rc_auth_serv_sock = 4, rc_acct_serv_sock = -1, rc_auth_sock = 4, rc_acct_sock = -1,
     rc_next_id = 0, rc_sent = [], e_key = 0, e_socket = 4, e_user = ex_user,
     e_tab = (\<lambda>_. \<lparr>radSockFd = 4, thr_state = RUNNING, timeBeg = (\<lambda>_. (0, 0)), timeEnd = (\<lambda>_. (0, 0))\<rparr>), e_stat = tstat0, e_auth_timed_out = False,
     e_statType = RADIUS_AccessEapTtls_Rq, e_statRetries = 0, e_num_reauths = -1, e_last_recv = None, e_last_eap = None, e_pmk = replicate 32 0, e_pmk_len = 0,
     e_num_mppe_ok = 0, e_num_mppe_mismatch = 0, e_accept = False, e_reject = False, e_no_avp = False, e_identity = None, e_radius_identifier = 3\<rparr>"

definition ex_entry :: radius_msg_list where
  "ex_entry = \<lparr>ml_addr = replicate 6 0, ml_msg = ex_req, ml_type = RADIUS_AUTH, ml_first_try = 0, ml_next_try = 3, ml_attempts = 1, ml_next_wait = 3,
     ml_last_attempt = (0, 0), ml_secret = [5]\<rparr>"

definition ex_conf :: rad_conf where
  "ex_conf = \<lparr>tcRadiusTimeout = 3, tcRadiusRetries = 2, tcRadiusFastReauth = 0, tcRadiusNbNas = 100\<rparr>"

definition ex_static :: sup_static where
  "ex_static = sup_static0\<lparr>ca_cert := ''ca.pem'', ca_path := [], etp2 := ''PAP'', ai := ''anonymous'', tls_certs_count := 0\<rparr>"

definition ex_env :: sup_env where
  "ex_env = \<lparr>se_ini = (\<lambda>_ _. None), se_lit = 0, se_secret = [5], se_no_data = False\<rparr>"

definition ex_arg :: sup_arg where
  "ex_arg = \<lparr>a_conf = ex_conf, a_ssid = (wpa_ssid0 ''client_EAP-TTLS'' ''u@r'')\<lparr>ss_servicetype := Some ServiceType_Framed_TTLS\<rparr>, a_credit = 0,
     a_own_ip = [127, 0, 0, 8], a_own_addr = [0, 0, 0, 0, 0, 2], a_stat = RADIUS_Auth_Rq, a_no_data = False\<rparr>"

lemma ex_live: "live_sys (ex_sys sm data)"
proof -
  have "\<exists>K. \<forall>j \<ge> K. \<not> tv_less (int j, 0) t" for t
    by (rule exI [of _ "nat (fst t + 1)"]) (auto simp: tv_less_def)
  then show ?thesis by (simp add: live_sys_def ex_sys_def clock_ok_def)
qed

definition ex_cb :: rad_sys where
  "ex_cb = ex_sys (\<lambda>_ ev. case ev of Sm_rx_eapol _ \<Rightarrow> [Eapol_cb True] | _ \<Rightarrow> []) None"

definition ex_sock :: "RadiusType tloop_sock" where
  "ex_sock = \<lparr>rs_sock = 4, rs_data = ctx_radius, rs_user = ctx_null, rs_handler = RADIUS_AUTH\<rparr>"

lemmas ex_defs = ex_cb_def ex_sys_def ex_env_def ex_conf_def ex_static_def ex_rad_def ex_user_def

lemmas prepare_defs = prepare_def own_addr_last_def network_block_def AUTHTYPE_EAPTLS_def wpa_config_network_set_def alloc_config_def malloc_def tick_def
  new_eapol_test_def tUserGetNAI_def deref_def tUserGetPasswd_def read_once_def not_read_def ieee802_1x_put_wimax_vsa_def tUserGetAAASessionIdLength_def
  guard_def nas_ip_def sup_static0_def

lemmas init_defs = wpa_init_conf_def radius_client_init_def radius_client_init_auth_def server_of_def radius_change_server_def radius_client_flush_def
  cancel_client_timer_def tloop_cancel_timeout_def tloop_register_read_sock_def init_acct_timer_def radius_client_register_def new_server_def

lemmas run_defs = begin_auth_def test_eapol_def eapol_sm_call_def stat_begin_def gettimeofday_def send_eap_request_identity_def eapol_sm_cb_def
  tloop_terminate_def auth_timeout_def int_range_def set_deadline_def tloop_register_timeout_def tloop_run_def tloop_loop.simps finish_auth_def stat_end_def
  compare_if_ok_def eapol_test_compare_pmk_def auth_result_def radius_client_deinit_def tSupplicant_abandon_def WAIT_FOR_ACK_def WAIT_FOR_RJ_def

lemma ex_cb_run: "\<exists>sv s'. tSupplicant_accessRq ex_cb ex_env ex_conf WAIT_FOR_ACK 4 8 False 0 ex_static (ex_rad []) = Some (Inr (1, Some 0, sv, s'))"
  by (simp add: tSupplicant_accessRq_def ex_defs prepare_defs init_defs run_defs Let_def)

lemma ex_req_view: "view ex_req (1 # 3 # replicate 18 0) []"
  using new_view [of 0 1 3] by (auto simp: ex_req_def radius_msg_new_def radius_msg_initialize_def radius_msg_set_hdr_def put_bytes_def RADIUS_DEFAULT_MSG_SIZE_def RADIUS_HDR_def RADIUS_DEFAULT_ATTR_COUNT_def)

lemma ex_mem_near: "near ex_mem 0" "\<forall>n. grow_arr ex_mem n"
  by (simp_all add: near_def ex_mem_def)

lemma ex_answer:
  obtains m0 m1 m2 where "radius_msg_new (Some 0) True RADIUS_CODE_ACCESS_ACCEPT 3 = Some m0" "radius_msg_add_eap ex_mem False [3, 0, 0, 4] m0 = Inr (True, m1)"
    "radius_msg_finish_srv ex_mem (replicate 64 0) [5] (hdr_authenticator ex_req) m1 = Inr (0, m2)"
  using answer_delivered [OF ex_mem_near(1) _ _ ex_mem_near(2), of 0 "[3, 0, 0, 4]" "replicate 64 0" "replicate 64 0" "[5]" ex_req "1 # 3 # replicate 18 0" "[]" RADIUS_CODE_ACCESS_ACCEPT 3 0] ex_req_view
  by auto

lemma ex_signed:
  assumes "radius_msg_new (Some 0) True RADIUS_CODE_ACCESS_ACCEPT 3 = Some m0" "radius_msg_add_eap ex_mem False [3, 0, 0, 4] m0 = Inr (True, m1)"
    "radius_msg_finish_srv ex_mem (replicate 64 0) [5] (hdr_authenticator ex_req) m1 = Inr (0, m2)"
  shows "\<exists>s'. read_handler (ex_sys (\<lambda>_ _. []) (Some (take (rm_used m2) (rm_buf m2)))) ex_arg ex_sock (ex_rad [(0, ex_entry)]) = Inr s' \<and> e_accept s'"
proof -
  have sil: "silent_sys (ex_sys (\<lambda>_ _. []) (Some (take (rm_used m2) (rm_buf m2))))" by (simp add: silent_sys_def ex_sys_def ex_mem_def)
  have cc: "can_count (ex_rad [(0, ex_entry)])" by (simp add: can_count_def ex_rad_def)
  have "hdr_identifier ex_req = 3" by (simp add: hdr_identifier_def ex_req_def)
  then show ?thesis
    using signed_accept [OF sil _ _ _ _ cc _ _ ex_mem_near(1) _ _ _ _ _ _ assms(2), of ex_arg ex_sock 0 ex_entry "1 # 3 # replicate 18 0" "[]" 0 "replicate 64 0"]
      assms(1,3) ex_req_view by (simp add: ex_arg_def ex_sock_def ex_rad_def ex_entry_def ex_sys_def) blast
qed



theorem accept_is_signed_witness:
  "\<exists>data s' d al p arr m a x junk m1. read_handler (ex_sys (\<lambda>_ _. []) (Some data)) ex_arg ex_sock (ex_rad [(0, ex_entry)]) = Inr s'
     \<and> w_recv (ex_sys (\<lambda>_ _. []) (Some data)) (Suc (lp_tick (ex_rad [(0, ex_entry)]))) = Some d \<and> radius_msg_parse al p arr d = Inr (Some m) \<and> (a, x) \<in> set (rc_msgs (ex_rad [(0, ex_entry)]))
     \<and> hdr_identifier (ml_msg x) = hdr_identifier m \<and> radius_msg_verify junk (ml_secret x) (Some (ml_msg x)) True m = Inr (False, m1)
     \<and> hdr_code m1 = RADIUS_CODE_ACCESS_ACCEPT"
proof -
  obtain m0 m1 m2 where m: "radius_msg_new (Some 0) True RADIUS_CODE_ACCESS_ACCEPT 3 = Some m0" "radius_msg_add_eap ex_mem False [3, 0, 0, 4] m0 = Inr (True, m1)"
    "radius_msg_finish_srv ex_mem (replicate 64 0) [5] (hdr_authenticator ex_req) m1 = Inr (0, m2)" by (rule ex_answer)
  obtain s' where s': "read_handler (ex_sys (\<lambda>_ _. []) (Some (take (rm_used m2) (rm_buf m2)))) ex_arg ex_sock (ex_rad [(0, ex_entry)]) = Inr s'" "e_accept s'"
    using ex_signed [OF m] by blast
  have "rs_handler ex_sock = RADIUS_AUTH" "a_credit ex_arg < 2" "\<not> e_accept (ex_rad [(0, ex_entry)])" by (simp_all add: ex_sock_def ex_arg_def ex_rad_def)
  from accept_is_signed [OF s'(1) this s'(2)] s'(1) show ?thesis by blast
qed

theorem result_is_verdict_witness:
  "\<exists>sv s'. tSupplicant_accessRq ex_cb ex_env ex_conf WAIT_FOR_ACK 4 8 False 0 ex_static (ex_rad []) = Some (Inr (1, Some 0, sv, s'))
     \<and> (1 :: int) = (if verdict WAIT_FOR_ACK s' then 0 else 1)"
  using ex_cb_run result_is_verdict by blast


subsection \<open>The states of an authentication\<close>

inductive auth_state :: "rad_sys \<Rightarrow> sup_env \<Rightarrow> rad_conf \<Rightarrow> sup_arg \<Rightarrow> rad \<Rightarrow> bool" for w env cf arg where
  auth_start: "prepare w env cf wait ty credit sv (new_eapol_test fd s) = Inr (Some arg, sv', s1) \<Longrightarrow> wpa_init_conf w cf (se_secret env) lp s1 = Inr s2
    \<Longrightarrow> begin_auth w arg f s2 = Inr (Some t, s3) \<Longrightarrow> auth_state w env cf arg (set_deadline w t s3)"
| auth_timer: "auth_state w env cf arg s \<Longrightarrow> lp_timeout s = t # ts \<Longrightarrow> timeout_handler w arg t (s\<lparr>lp_timeout := ts\<rparr>) = Inr s' \<Longrightarrow> auth_state w env cf arg s'"
| auth_read: "auth_state w env cf arg s \<Longrightarrow> lp_readers s = Some r \<Longrightarrow> read_handler w arg r s = Inr s' \<Longrightarrow> auth_state w env cf arg s'"
| auth_wait: "auth_state w env cf arg s \<Longrightarrow> auth_state w env cf arg (tick s)"

lemma loop_auth_state:
  assumes "tloop_run w (timeout_handler w arg) (read_handler w arg) s = Some (Inr s')" "auth_state w env cf arg s"
  shows "auth_state w env cf arg s'"
proof (cases "w_malloc w (lp_tick s)")
  case True
  then have "tloop_loop w (timeout_handler w arg) (read_handler w arg) (tick s) = Some (Inr s')" using assms(1) by (simp add: tloop_run_def malloc_def)
  then show ?thesis using auth_wait [OF assms(2)] by (rule tloop_loop_inv) (auto intro: auth_wait auth_timer auth_read)
next
  case False
  then show ?thesis using assms auth_wait by (auto simp: tloop_run_def malloc_def)
qed

lemma auth_state_pending: "auth_state w env cf arg s \<Longrightarrow> pending_ok s"
proof (induction rule: auth_state.induct)
  case (auth_start wait ty credit sv fd s sv' s1 lp s2 f t s3)
  have "pending_ok (new_eapol_test fd s)" by (simp add: new_eapol_test_def pending_ok_def)
  then have "pending_ok s1" using pd.r_quiet [OF prepare_quiet [OF auth_start(1)]] by (simp add: keeps_pending_def)
  then have "pending_ok s2" using spd.init_conf_rel [OF auth_start(2)] by (simp add: keeps_pending_def)
  then have "pending_ok s3" using spd.begin_auth_rel [OF auth_start(3)] by (simp add: keeps_pending_def)
  then show ?case using pending_register [of s3 w t 0 Eapol_test_timeout ctx_eapol ctx_null] by (simp add: keeps_pending_def set_deadline_def)
next
  case (auth_timer s t ts s')
  have "pending_ok (s\<lparr>lp_timeout := ts\<rparr>)" using auth_timer.IH by (simp add: pending_ok_def)
  then show ?case using spd.timeout_handler_rel [OF auth_timer(3)] by (simp add: keeps_pending_def)
next
  case (auth_read s r s')
  then show ?case using spd.read_handler_rel [OF auth_read(3)] by (simp add: keeps_pending_def)
next
  case (auth_wait s)
  then show ?case by (simp add: pending_ok_def tick_def)
qed

text \<open>
  C25. In every state that the event loop of an authentication reaches, and in the one in which it ends, the list of pending requests is well-formed: at most
  30 requests, whose number the counter bounds, at different addresses.
\<close>

theorem pending_well_formed:
  assumes "auth_state w env cf arg s"
  shows "pending_ok s \<and> (\<forall>s'. tloop_run w (timeout_handler w arg) (read_handler w arg) s = Some (Inr s') \<longrightarrow> pending_ok s')"
  using assms auth_state_pending loop_auth_state by blast

lemma access_started:
  assumes "tSupplicant_accessRq w env cf waitFor sockFd aType fasteap credit sv s = Some (Inr (ret, Some n, sv', s'))"
  shows "\<exists>arg t s3. auth_state w env cf arg (set_deadline w t s3)"
proof -
  obtain s0 arg sv1 s1 lp s2 t s3 where "prepare w env cf waitFor aType credit sv (new_eapol_test sockFd s0) = Inr (Some arg, sv1, s1)"
      "wpa_init_conf w cf (se_secret env) lp s1 = Inr s2" "begin_auth w arg fasteap s2 = Inr (Some t, s3)"
    using assms unfolding tSupplicant_accessRq_def Let_def
    by (auto simp: rseq_Inr split: prod.splits if_splits option.splits)
  then show ?thesis using auth_start by blast
qed

theorem pending_well_formed_witness:
  "\<exists>arg t s. auth_state ex_cb ex_env ex_conf arg (set_deadline ex_cb t s) \<and> pending_ok (set_deadline ex_cb t s)"
  using ex_cb_run access_started pending_well_formed by metis

end
