(* ===== verification/Spec2Isabelle.thy ===== *)
theory Spec2Isabelle
  imports Tgen_TimerThreads Tgen_Profile Tgen_Exec Tgen_RadKeys Tgen_SupAuth
begin

text \<open>
  \<^bold>\<open>Verification of tgen\<close>, the LDAP and RADIUS traffic generator under
  \<^verbatim>\<open>src/mds_tests/Common/Tgen\<close> (sources in \<^verbatim>\<open>Src\<close>, headers in \<^verbatim>\<open>Inc\<close>; file names below are relative to these).

  \<^bold>\<open>The program.\<close> A configuration file (\<^verbatim>\<open>profile.c\<close>) describes populations of users (\<^verbatim>\<open>tuser.c\<close>), scenarios,
  which are lists of actions (\<^verbatim>\<open>taction.c\<close>), and a traffic, which gives each scenario a rate (\<^verbatim>\<open>tsce.c\<close>). Worker
  threads repeat one pass (\<^verbatim>\<open>texec.c\<close>): resume a scenario whose answer has arrived or whose sleep is over, or
  ask the statistics for a request of the current period (\<^verbatim>\<open>tstat.c\<close>), draw a scenario, reserve a user and
  execute the actions until the scenario ends or is suspended. LDAP requests go through a table of
  connections and lists of pending requests (\<^verbatim>\<open>tldap.c\<close>), waiting scenarios through a circular table of time
  slots (\<^verbatim>\<open>ttimer.c\<close>). An action that authenticates a user with EAP runs its own event loop (\<^verbatim>\<open>tsupplicant.c\<close>): the
  packets of an EAPOL state machine are sent in RADIUS requests, which are signed, retransmitted and matched with the
  answers (with \<^verbatim>\<open>md5.c\<close>, \<^verbatim>\<open>radius.c\<close> and \<^verbatim>\<open>eapol_test.c\<close> of \<^verbatim>\<open>src/mds_tests/uma/Common/WpaSupplicant\<close>). A statistics thread advances the time, opens a new period and prints the counters.

  \<^bold>\<open>Conventions.\<close> A C fault (null or freed pointer, index outside an array, overflow of a buffer, division
  by zero, read of unset memory, a failed assertion) is a value \<open>Inl\<close> of the type \<open>result\<close> of \<^verbatim>\<open>Tgen_Prelude\<close>, so that "does
  not fault" is part of what is proved. A loop whose end is not evident is a \<^theory_text>\<open>partial_function\<close> whose value is
  \<^term>\<open>None\<close> when it does not return; no definition has fuel, and every theorem that says what such a loop
  computes says that it returns. Other loops are structural or have a termination proof. The C type
  \<^verbatim>\<open>int\<close> is \<^typ>\<open>int\<close>, with \<open>to_int32\<close> where a value can leave the range and words where the source computes with
  unsigned values. Pointers to shared objects are addresses in a heap, pointers to elements of a table
  are indices. What is not in these sources is an argument: the clock, random numbers, the addresses
  and failures of \<^verbatim>\<open>malloc\<close>, the content of fresh memory, files and environment, and the answers of the LDAP
  library and the RADIUS server. Messages to the log and to the screen are left out. A thread that holds a mutex
  executes alone: the step relations of the concurrent parts have one step per critical section,
  or per unprotected access where the source takes no mutex.

  \<^bold>\<open>Theories.\<close>

  \<^item> \<^verbatim>\<open>Tgen_Prelude\<close>: faults, the two binds (for results and for results of loops), C integers, strings in
    buffers, \<^verbatim>\<open>sprintf\<close>, \<^verbatim>\<open>sscanf\<close> and \<^verbatim>\<open>strtol\<close> as far as they are used, runs of a step relation, and the locale \<open>cells\<close> of a store with
    readable and writable cells.

  \<^item> \<^verbatim>\<open>Tgen_Types\<close>: the structures of \<^verbatim>\<open>texec.h\<close>, \<^verbatim>\<open>taction.h\<close>, \<^verbatim>\<open>tsce.h\<close>, \<^verbatim>\<open>tuser.h\<close>, \<^verbatim>\<open>tldap.h\<close> and \<^verbatim>\<open>tthread.h\<close> the
    components share.

  \<^item> \<^verbatim>\<open>Tgen_Timer\<close> (\<^verbatim>\<open>ttimer.c\<close>): the circular table and all its operations. The table refines a queue of
    contexts with their remaining delays (locale \<open>sleep_queue\<close>, interpreted on the table); a context sleeps for
    exactly its delay, the time step returns, closing gathers everything in slot 0.
    \<^verbatim>\<open>Tgen_TimerThreads\<close>: the operations cut at their mutexes, all interleavings: one owner per context, no
    fault, and the race of \<^verbatim>\<open>tTimerClose\<close> with \<^verbatim>\<open>tTimerTopTU\<close>.

  \<^item> \<^verbatim>\<open>Tgen_Profile\<close> (\<^verbatim>\<open>profile.c\<close>): stripping of lines, inclusion of files, the cache, \<^verbatim>\<open>FindKey\<close> and the typed accessors.
    The search on the flat text refines lookup in a list of sections, a printed configuration is read
    back, the cache is transparent, and dotted addresses are read as their bytes.

  \<^item> \<^verbatim>\<open>Tgen_User\<close> (\<^verbatim>\<open>tuser.c\<close>): loading of populations, the two-block table of users and its accessors (\<open>cells\<close>,
    interpreted on the database), reservation with exclusion times, and the interleavings of reserving
    threads: a user has one owner if every scenario has an exclusion time; the search for a free user
    returns and is complete under a coprimality condition.

  \<^item> \<^verbatim>\<open>Tgen_Scenario\<close> (\<^verbatim>\<open>tsce.c\<close>, with \<^verbatim>\<open>texec.c\<close> for the names of requests): the readers of scenarios and traffics and the
    occurrence table: loading returns, actions are read back, scenarios are drawn with their rates.

  \<^item> \<^verbatim>\<open>Tgen_Stat\<close> (\<^verbatim>\<open>tstat.c\<close>): counters, response times (64-bit words), the traffic functions, the regulation of
    requests per period and its interleavings: the quota is kept and used up, and CSV lines add up to the totals.

  \<^item> \<^verbatim>\<open>Tgen_LdapLists\<close> (\<^verbatim>\<open>tldap.c\<close>, lists): the doubly linked lists of requests and responses in a heap. They refine
    lists of message ids and contexts (locale \<open>simulation\<close>, interpreted on the operations); no context is lost or
    duplicated; the error path that leaves requests in two lists.

  \<^item> \<^verbatim>\<open>Tgen_LdapAttrs\<close> (\<^verbatim>\<open>tldap.c\<close>, attribute strings): the in-place parser of operations, types and values is equal to a
    reference that splits at the delimiters, and reads back what is printed.

  \<^item> \<^verbatim>\<open>Tgen_LdapConn\<close> (\<^verbatim>\<open>tldap.c\<close>, connections): bind, unbind, rebind, abandon, opening and closing, with the mutexes: servers are
    taken in turn; the paths that leave a mutex locked or write outside the table.

  \<^item> \<^verbatim>\<open>Tgen_Exec\<close> (\<^verbatim>\<open>texec.c\<close>, \<^verbatim>\<open>tldap.c\<close> for asynchronous searches): the choice of what to run, each action, the treatment of
    errors, one pass of \<^verbatim>\<open>tExec\<close>. A scenario that is not suspended returns its user and is counted once;
    resumed scenarios are counted per pass; the time limit handled by a worker of another connection.

  \<^item> \<^verbatim>\<open>Tgen_Md5\<close> (\<^verbatim>\<open>md5.c\<close>): the incremental digest on 32-bit words and HMAC. The digest of any fragments is that of RFC 1321 of their
    concatenation, and HMAC that of RFC 2104.

  \<^item> \<^verbatim>\<open>Tgen_RadMsg\<close> (\<^verbatim>\<open>radius.c\<close>): messages as a buffer with pointers to the attributes, the growth of the buffer by \<^verbatim>\<open>realloc\<close>, the
    parser, which accepts exactly the well-formed packets. \<^verbatim>\<open>Tgen_RadSign\<close>: signing, verification, EAP fragments; a signed answer is
    delivered, verification is exact, and a short Message-Authenticator leaves the buffer. \<^verbatim>\<open>Tgen_RadKeys\<close>: vendor attributes, passwords and the MPPE keys,
    which are read back.

  \<^item> \<^verbatim>\<open>Tgen_Tloop\<close> (\<^verbatim>\<open>tsupplicant.c\<close>, \<open>tloop\<close>): the event loop, generic in its handlers. The locale \<open>tloop_client\<close> has what the loop needs of
    its handlers, and proves that the loop ends at a deadline.

  \<^item> \<^verbatim>\<open>Tgen_RadClient\<close> (\<^verbatim>\<open>tsupplicant.c\<close>, \<open>radius_client\<close>): the pending requests, retransmission, servers, identifiers, sending and receiving.
    \<^verbatim>\<open>Tgen_RadPending\<close>: the locale \<open>client_rel\<close> of the relations that every operation of the client keeps, interpreted for the deadline, the
    form of the list of pending requests, and the record of an accept.

  \<^item> \<^verbatim>\<open>Tgen_SupConf\<close> (\<^verbatim>\<open>tsupplicant.c\<close>, network blocks and WiMAX attributes), \<^verbatim>\<open>Tgen_Supplicant\<close> (\<^verbatim>\<open>tsupplicant.c\<close>, call-backs, answers,
    \<^verbatim>\<open>tSupplicant_accessRq\<close>) with the locale \<open>sup_rel\<close>, which extends \<open>client_rel\<close> to the authentication. \<^verbatim>\<open>Tgen_SupAuth\<close> interprets the locales on the
    authentication and has its theorems: it returns, its result is what the deadline, the server and the attributes decide, an accept is
    believed only when it is signed, a signed one is believed, and the list of pending requests keeps its form in every reachable state.

  \<^bold>\<open>Not modelled.\<close> \<^verbatim>\<open>tinit.c\<close>, \<^verbatim>\<open>tmain.c\<close>, \<^verbatim>\<open>tthread.c\<close>, \<^verbatim>\<open>tserver.c\<close> and most of \<^verbatim>\<open>tconf.c\<close>: process and thread control, the command line,
    and assignments of configuration values to global variables. \<^verbatim>\<open>tselect.c\<close>: the loop around \<^verbatim>\<open>ldap_result\<close>; the list
    operations and the treatment of errors it calls are modelled. \<^verbatim>\<open>tLdap_SearchRequest\<close>, \<^verbatim>\<open>tLdap_ModifyRequest\<close>, \<^verbatim>\<open>tLdap_AddRequest\<close>,
    \<^verbatim>\<open>tLdap_DeleteRequest\<close>, \<^verbatim>\<open>tLdap_SearchResult\<close>: calls of the LDAP library around the parsed attributes; their outcome is an
    argument of \<^verbatim>\<open>Tgen_Exec\<close>. The LDAP controls of \<^verbatim>\<open>texec.c\<close> (BER encoding by the library). \<^verbatim>\<open>tradius.c\<close>: value pairs of
    FreeRADIUS and sockets; its outcome, and in \<^verbatim>\<open>Tgen_Exec\<close> that of an authentication, is an argument as well. The EAPOL state machine and the EAP methods
    of \<^verbatim>\<open>WpaSupplicant\<close>: in \<^verbatim>\<open>Tgen_Supplicant\<close> they are the sequence of call-backs of each event, and the theorems hold for all sequences. \<^verbatim>\<open>tload*.c\<close>: a
    separate program that measures remote load. \<^verbatim>\<open>tdebug.c\<close>, \<^verbatim>\<open>xinuconio.c\<close>: output. \<^verbatim>\<open>tsceHss.c\<close>, \<^verbatim>\<open>tuserHss.c\<close> and the like for MAS and LDAS:
    tables of other builds. In \<^verbatim>\<open>tstat.c\<close> the screen layout and the mean times in floating point.
    OpenLDAP, FreeRADIUS, sysstat and top are third-party sources.
\<close>

end
